(* ===== verification/Prelude.thy ===== *)
theory Prelude
  imports Main "HOL-Library.Word" "HOL-Library.Signed_Division"
begin

text \<open>
  What every component of the proxy shares: the type of results that may be a run-time
  fault, the widths of the machine integers, the first-match operations on the lists the
  code scans with range-for loops, and the interfaces (as locales) that several components
  promise. Facts that rewrite one of these operations are collected in \<open>list_ops\<close>.
\<close>

named_theorems list_ops \<open>rewrite rules of the first-match list operations\<close>

section \<open>Machine integers\<close>

type_synonym u8 = "8 word"
type_synonym u16 = "16 word"
type_synonym u32 = "32 word"
type_synonym u64 = "64 word"

lemma uint_word_of_int_le: "0 \<le> i \<Longrightarrow> uint (word_of_int i :: u64) \<le> i"
  by (simp add: unsigned_of_int take_bit_int_less_eq_self_iff)

section \<open>Faults\<close>

text \<open>
  Where the C++ has undefined behaviour or an uncaught exception, the model returns a fault
  instead of inventing a value, so that a theorem that a routine is safe is a theorem that
  its result is an \<^term>\<open>Inr\<close>.
\<close>

datatype fault =
    BufferOverflow   \<comment> \<open>a store past the end of a char array\<close>
  | OutOfBounds      \<comment> \<open>an array index outside the array\<close>
  | PastEnd          \<comment> \<open>an increment of the end iterator\<close>
  | NullDeref        \<comment> \<open>a member access through a null pointer\<close>
  | Dangling         \<comment> \<open>a member access to an object that was destroyed\<close>
  | IntOverflow      \<comment> \<open>a signed integer that overflows\<close>
  | Uncaught         \<comment> \<open>an exception nobody catches\<close>
  | Diverges         \<comment> \<open>a loop that never ends\<close>
  | Exits int        \<comment> \<open>no fault: the program left by \<open>exit\<close>\<close>

type_synonym 'a res = "fault + 'a"

text \<open>A loop is a partial function; that it does not end is a fault too.\<close>

definition loop_res :: "'a option \<Rightarrow> 'a res" where
  "loop_res r = (case r of None \<Rightarrow> Inl Diverges | Some x \<Rightarrow> Inr x)"

lemma loop_res_simps [simp]: "loop_res None = Inl Diverges" "loop_res (Some x) = Inr x"
  by (simp_all add: loop_res_def)

fun bind_res :: "'a res \<Rightarrow> ('a \<Rightarrow> 'b res) \<Rightarrow> 'b res" where
  "bind_res (Inl e) f = Inl e"
| "bind_res (Inr x) f = f x"

lemma bind_res_Inr [simp]: "bind_res m Inr = m"
  by (cases m) auto

lemma bind_res_assoc: "bind_res (bind_res m f) g = bind_res m (\<lambda>x. bind_res (f x) g)"
  by (cases m) auto

lemma bind_res_eq_Inr: "bind_res m f = Inr y \<longleftrightarrow> (\<exists>x. m = Inr x \<and> f x = Inr y)"
  by (cases m) auto

lemma bind_res_eq_Inl:
  "bind_res m f = Inl e \<longleftrightarrow> m = Inl e \<or> (\<exists>x. m = Inr x \<and> f x = Inl e)"
  by (cases m) auto

section \<open>Scanning lists\<close>

text \<open>A range-for loop that returns at the first element with the wanted key.\<close>

fun find_first :: "('a \<Rightarrow> bool) \<Rightarrow> 'a list \<Rightarrow> 'a option" where
  "find_first P [] = None"
| "find_first P (x # xs) = (if P x then Some x else find_first P xs)"

text \<open>The same loop, writing through the reference it found.\<close>

fun update_first :: "('a \<Rightarrow> bool) \<Rightarrow> ('a \<Rightarrow> 'a) \<Rightarrow> 'a list \<Rightarrow> 'a list" where
  "update_first P f [] = []"
| "update_first P f (x # xs) = (if P x then f x # xs else x # update_first P f xs)"

text \<open>The same loop, erasing the node it found.\<close>

fun erase_first :: "('a \<Rightarrow> bool) \<Rightarrow> 'a list \<Rightarrow> 'a list" where
  "erase_first P [] = []"
| "erase_first P (x # xs) = (if P x then xs else x # erase_first P xs)"

text \<open>
  The loop that returns a reference to the first element with the key and, when there is
  none, appends a new one and returns a reference to that. The caller's write through the
  reference is the argument \<open>f\<close>.
\<close>

fun upsert :: "('a \<Rightarrow> 'k) \<Rightarrow> ('k \<Rightarrow> 'a) \<Rightarrow> 'k \<Rightarrow> ('a \<Rightarrow> 'a) \<Rightarrow> 'a list \<Rightarrow> 'a list" where
  "upsert key mk k f [] = [f (mk k)]"
| "upsert key mk k f (x # xs) =
     (if key x = k then f x # xs else x # upsert key mk k f xs)"

text \<open>The loop \<open>for (it, i = 0; ...; it++, i++) if (i == idx) return *it\<close>.\<close>

fun nth_loop :: "int \<Rightarrow> int \<Rightarrow> 'a list \<Rightarrow> 'a option" where
  "nth_loop idx i [] = None"
| "nth_loop idx i (x # xs) = (if i = idx then Some x else nth_loop idx (i + 1) xs)"

lemma set_upsert: "set (upsert key mk k f xs) \<subseteq> set xs \<union> f ` insert (mk k) (set xs)"
  by (induction xs) auto

lemma find_first_Some: "find_first P xs = Some x \<Longrightarrow> x \<in> set xs \<and> P x"
  by (induction xs) (auto split: if_splits)

lemma find_first_None: "find_first P xs = None \<longleftrightarrow> (\<forall>x\<in>set xs. \<not> P x)"
  by (induction xs) auto

lemma find_first_fresh: "k \<notin> g ` set xs \<Longrightarrow> find_first (\<lambda>x. g x = k) xs = None"
  by (induction xs) auto

lemma find_first_append [list_ops]:
  "find_first P (xs @ ys) =
     (case find_first P xs of None \<Rightarrow> find_first P ys | Some x \<Rightarrow> Some x)"
  by (induction xs) auto

lemma find_first_cong:
  "(\<And>x. x \<in> set xs \<Longrightarrow> P x = Q x) \<Longrightarrow> find_first P xs = find_first Q xs"
  by (induction xs) auto

lemma find_first_unique:
  assumes "x \<in> set xs" and "P x" and "\<And>y. y \<in> set xs \<Longrightarrow> P y \<Longrightarrow> y = x"
  shows "find_first P xs = Some x"
proof (cases "find_first P xs")
  case None
  with assms(1,2) show ?thesis by (auto simp: find_first_None)
next
  case (Some y)
  with assms(3) show ?thesis by (auto dest: find_first_Some)
qed

lemma map_update_first [list_ops]:
  "(\<And>x. g (f x) = g x) \<Longrightarrow> map g (update_first P f xs) = map g xs"
  by (induction xs) auto

lemma length_update_first [simp]: "length (update_first P f xs) = length xs"
  by (induction xs) auto

lemma update_first_id: "(\<And>x. x \<in> set xs \<Longrightarrow> \<not> P x) \<Longrightarrow> update_first P f xs = xs"
  by (induction xs) auto

lemma find_first_update_first_same [list_ops]:
  "(\<And>x. P (f x) = P x) \<Longrightarrow> find_first P (update_first P f xs) = map_option f (find_first P xs)"
  by (induction xs) auto

lemma find_first_update_first_other [list_ops]:
  "(\<And>x. Q (f x) = Q x) \<Longrightarrow> (\<And>x. P x \<Longrightarrow> \<not> Q x) \<Longrightarrow>
   find_first Q (update_first P f xs) = find_first Q xs"
  by (induction xs) auto

lemma set_update_first: "set (update_first P f xs) \<subseteq> set xs \<union> f ` set xs"
  by (induction xs) auto

lemma set_erase_first: "set (erase_first P xs) \<subseteq> set xs"
  by (induction xs) auto

lemma erase_first_id: "(\<And>x. x \<in> set xs \<Longrightarrow> \<not> P x) \<Longrightarrow> erase_first P xs = xs"
  by (induction xs) auto

lemma length_erase_first:
  "length (erase_first P xs) = (if \<exists>x\<in>set xs. P x then length xs - 1 else length xs)"
proof (induction xs)
  case (Cons x xs)
  have "0 < length xs" if "\<exists>y\<in>set xs. P y" using that by (auto simp: length_pos_if_in_set)
  with Cons show ?case by auto
qed simp

lemma distinct_map_erase_first:
  "distinct (map g xs) \<Longrightarrow> distinct (map g (erase_first P xs))"
proof (induction xs)
  case (Cons x xs)
  then show ?case using set_erase_first [of P xs] by auto
qed simp

lemma find_first_erase_first_other [list_ops]:
  "(\<And>x. P x \<Longrightarrow> \<not> Q x) \<Longrightarrow> find_first Q (erase_first P xs) = find_first Q xs"
  by (induction xs) auto

text \<open>Erasing the first element with a key that is unique in the list filters it out.\<close>

lemma erase_first_filter:
  "distinct (map g xs) \<Longrightarrow> erase_first (\<lambda>x. g x = k) xs = filter (\<lambda>x. g x \<noteq> k) xs"
proof (induction xs)
  case (Cons x xs)
  show ?case
  proof (cases "g x = k")
    case True
    from Cons.prems have "g x \<notin> g ` set xs" by simp
    with True have "\<forall>y\<in>set xs. g y \<noteq> k" by (metis image_eqI)
    then have "filter (\<lambda>x. g x \<noteq> k) xs = xs" by (simp add: filter_id_conv)
    with True show ?thesis by simp
  next
    case False
    with Cons show ?thesis by simp
  qed
qed simp

lemma nth_loop_eq:
  "nth_loop idx i xs =
     (if i \<le> idx \<and> nat (idx - i) < length xs then Some (xs ! nat (idx - i)) else None)"
proof (induction xs arbitrary: i)
  case Nil
  then show ?case by simp
next
  case (Cons x xs)
  show ?case
  proof (cases "i < idx")
    case True
    then have "nat (idx - i) = Suc (nat (idx - (i + 1)))" by simp
    with True Cons show ?thesis by simp
  next
    case False
    then show ?thesis using Cons by (cases "i = idx") auto
  qed
qed

end
