(* ===== verification/CLib.thy ===== *)
theory CLib
  imports Prelude
begin

text \<open>
  The functions of the C library the proxy parses and prints with, on byte strings:
  NUL-terminated reads, \<open>strchr\<close>, \<open>strrchr\<close>, \<open>strstr\<close>, \<open>getline\<close>, decimal conversion and
  the directives of \<open>sscanf\<close> the sources use. A char array is the list of its bytes; what
  follows a list is its terminating NUL.
\<close>

named_theorems clib \<open>evaluation of C library calls on symbolic strings\<close>

section \<open>Characters\<close>

abbreviation NUL :: char where "NUL \<equiv> CHR 0x00"
abbreviation LF :: char where "LF \<equiv> CHR 0x0A"
abbreviation CR :: char where "CR \<equiv> CHR 0x0D"

definition isspace :: "char \<Rightarrow> bool" where
  "isspace c \<longleftrightarrow> c \<in> set [CHR '' '', CHR 0x09, CHR 0x0A, CHR 0x0B, CHR 0x0C, CHR 0x0D]"

definition isdigit :: "char \<Rightarrow> bool" where
  "isdigit c \<longleftrightarrow> 48 \<le> (of_char c :: nat) \<and> (of_char c :: nat) \<le> 57"

text \<open>A token: what one \<open>%s\<close> can read back whole.\<close>

definition is_token :: "string \<Rightarrow> bool" where
  "is_token s \<longleftrightarrow> s \<noteq> [] \<and> (\<forall>c\<in>set s. \<not> isspace c \<and> c \<noteq> NUL)"

lemma is_tokenD:
  assumes "is_token s"
  shows "s \<noteq> []" and "NUL \<notin> set s" and "\<And>c. c \<in> set s \<Longrightarrow> \<not> isspace c"
  using assms by (auto simp: is_token_def)

section \<open>NUL-terminated strings\<close>

definition cstr :: "string \<Rightarrow> string" where
  "cstr s = takeWhile (\<lambda>c. c \<noteq> NUL) s"

fun strchr :: "string \<Rightarrow> char \<Rightarrow> nat option" where
  "strchr [] c = None"
| "strchr (x # xs) c =
     (if x = c then Some 0 else if x = NUL then None else map_option Suc (strchr xs c))"

fun strrchr :: "string \<Rightarrow> char \<Rightarrow> nat option" where
  "strrchr [] c = None"
| "strrchr (x # xs) c =
     (if x = NUL then None
      else case strrchr xs c of
             Some i \<Rightarrow> Some (Suc i)
           | None \<Rightarrow> if x = c then Some 0 else None)"

text \<open>\<open>strstr\<close> returns a pointer into its first argument: the model returns the suffix.\<close>

fun strstr :: "string \<Rightarrow> string \<Rightarrow> string option" where
  "strstr [] n = (if n = [] then Some [] else None)"
| "strstr (x # xs) n =
     (if take (length n) (x # xs) = n then Some (x # xs) else strstr xs n)"

lemma cstr_Nil [clib, simp]: "cstr [] = []"
  by (simp add: cstr_def)

lemma cstr_id [clib]: "NUL \<notin> set s \<Longrightarrow> cstr s = s"
  by (auto simp: cstr_def takeWhile_eq_all_conv)

lemma cstr_append_NUL [clib]: "NUL \<notin> set s \<Longrightarrow> cstr (s @ NUL # r) = s"
  by (simp add: cstr_def takeWhile_append)

lemma cstr_no_NUL [simp]: "NUL \<notin> set (cstr s)"
  unfolding cstr_def by (metis (mono_tags, lifting) set_takeWhileD)

lemma cstr_append_NULs [clib]: "NUL \<notin> set s \<Longrightarrow> cstr (s @ replicate n NUL) = s"
  by (cases n) (auto simp: cstr_append_NUL cstr_id)

lemma strchr_None [clib]: "NUL \<notin> set s \<Longrightarrow> c \<notin> set s \<Longrightarrow> strchr s c = None"
  by (induction s) auto

lemma strchr_append [clib]:
  "NUL \<notin> set s \<Longrightarrow> c \<notin> set s \<Longrightarrow> strchr (s @ c # r) c = Some (length s)"
  by (induction s) auto

lemma strchr_Some:
  "strchr s c = Some i \<Longrightarrow> i < length s \<and> s ! i = c \<and> c \<notin> set (take i s)"
  by (induction s arbitrary: i) (auto split: if_splits simp: nth_Cons split: nat.splits)

lemma strrchr_None [clib]: "NUL \<notin> set s \<Longrightarrow> c \<notin> set s \<Longrightarrow> strrchr s c = None"
  by (induction s) auto

lemma strrchr_append [clib]:
  "NUL \<notin> set s \<Longrightarrow> NUL \<notin> set r \<Longrightarrow> c \<notin> set r \<Longrightarrow> c \<noteq> NUL \<Longrightarrow>
   strrchr (s @ c # r) c = Some (length s)"
  by (induction s) (auto simp: strrchr_None)

text \<open>\<open>*strchr(buf, c) = NUL\<close>, when there is one.\<close>

definition put_NUL :: "char \<Rightarrow> string \<Rightarrow> string" where
  "put_NUL c buf = (case strchr buf c of None \<Rightarrow> buf | Some i \<Rightarrow> buf[i := NUL])"

lemma cstr_put_NUL:
  "c \<noteq> NUL \<Longrightarrow> cstr (put_NUL c l) = takeWhile (\<lambda>x. x \<noteq> NUL \<and> x \<noteq> c) l"
proof (induction l)
  case (Cons x l)
  then show ?case
    by (auto simp: put_NUL_def cstr_def split: option.splits)
qed (simp add: put_NUL_def)

lemma takeWhile_conj: "takeWhile P (takeWhile Q l) = takeWhile (\<lambda>x. Q x \<and> P x) l"
  by (induction l) auto

lemma cstr_put_NUL_cstr:
  "c \<noteq> NUL \<Longrightarrow> cstr (put_NUL c l) = takeWhile (\<lambda>x. x \<noteq> c) (cstr l)"
  unfolding cstr_put_NUL unfolding cstr_def takeWhile_conj ..

section \<open>Reading a file by lines\<close>

text \<open>
  The successive results of \<open>getline\<close> on a stream: each line with the newline that ends it,
  the last one without a newline when the file does not end in one.
\<close>

fun getlines :: "string \<Rightarrow> string list" where
  "getlines [] = []"
| "getlines (c # cs) =
     (if c = LF then [LF] # getlines cs
      else case getlines cs of [] \<Rightarrow> [[c]] | l # ls \<Rightarrow> (c # l) # ls)"

lemma getlines_line [clib]:
  "LF \<notin> set l \<Longrightarrow> getlines (l @ LF # rest) = (l @ [LF]) # getlines rest"
  by (induction l) auto

lemma concat_getlines: "concat (getlines s) = s"
  by (induction s) (auto split: list.splits)

lemma getlines_nonempty: "[] \<notin> set (getlines s)"
  by (induction s) (auto split: list.splits)

declare getlines.simps(2) [simp del]

section \<open>Decimal conversion\<close>

fun dec_nat :: "nat \<Rightarrow> string" where
  "dec_nat n =
     (if n < 10 then [char_of (48 + n)] else dec_nat (n div 10) @ [char_of (48 + n mod 10)])"

declare dec_nat.simps [simp del]

definition dec_int :: "int \<Rightarrow> string" where
  "dec_int i = (if i < 0 then CHR ''-'' # dec_nat (nat (- i)) else dec_nat (nat i))"

definition read_dec :: "string \<Rightarrow> nat" where
  "read_dec s = foldl (\<lambda>a c. 10 * a + (of_char c - 48)) 0 s"

lemma of_char_digit: "d < 10 \<Longrightarrow> (of_char (char_of (48 + d :: nat)) :: nat) = 48 + d"
  by simp

lemma read_dec_dec_nat: "read_dec (dec_nat n) = n"
proof (induction n rule: dec_nat.induct)
  case (1 n)
  then show ?case
    by (subst dec_nat.simps) (auto simp: read_dec_def)
qed

lemma dec_nat_digits: "c \<in> set (dec_nat n) \<Longrightarrow> isdigit c"
proof (induction n rule: dec_nat.induct)
  case (1 n)
  then show ?case
    by (subst (asm) (2) dec_nat.simps) (auto simp: isdigit_def split: if_splits)
qed

lemma dec_nat_nonempty [simp]: "dec_nat n \<noteq> []"
  by (subst dec_nat.simps) simp

lemma isdigit_not_space: "isdigit c \<Longrightarrow> \<not> isspace c \<and> c \<noteq> NUL"
  by (auto simp: isdigit_def isspace_def)

lemma is_token_dec_nat: "is_token (dec_nat n)"
  by (auto simp: is_token_def dest: dec_nat_digits isdigit_not_space)

section \<open>sscanf\<close>

text \<open>
  The directives the sources use. \<open>DStr w\<close> is \<open>%s\<close> or, with a width, \<open>%ws\<close>; \<open>DInt\<close> is
  \<open>%d\<close>; the \<open>Skip\<close> forms suppress the assignment (\<open>%*s\<close>, \<open>%*d\<close>). A width bounds the bytes
  read, not the bytes stored: \<open>%s\<close> stores a terminating NUL after them.
\<close>

datatype directive =
    DWs | DLit char | DStr "nat option" | DSkipStr | DInt | DSkipInt

datatype sval = SStr string | SInt int

text \<open>
  The value of \<open>%d\<close>: the library converts to \<open>long\<close>, saturating, and stores the low 32
  bits.
\<close>

definition long_to_int :: "int \<Rightarrow> int" where
  "long_to_int v = signed_take_bit 31 (max (- (2 ^ 63)) (min (2 ^ 63 - 1) v))"

definition scan_int :: "string \<Rightarrow> (int \<times> string) option" where
  "scan_int s =
     (let (neg, r) = (case s of
            c # cs \<Rightarrow> if c = CHR ''-'' then (True, cs)
                      else if c = CHR ''+'' then (False, cs) else (False, s)
          | [] \<Rightarrow> (False, s));
          ds = takeWhile isdigit r
      in if ds = [] then None
         else Some (long_to_int (if neg then - int (read_dec ds) else int (read_dec ds)),
                    dropWhile isdigit r))"

text \<open>At the end of the input the call returns EOF when nothing has been assigned yet.\<close>

definition input_failure :: "sval list \<Rightarrow> int \<times> sval list" where
  "input_failure acc = (if acc = [] then - 1 else int (length acc), acc)"

definition matching_failure :: "sval list \<Rightarrow> int \<times> sval list" where
  "matching_failure acc = (int (length acc), acc)"

definition take_width :: "nat option \<Rightarrow> string \<Rightarrow> string" where
  "take_width w s = (case w of None \<Rightarrow> s | Some n \<Rightarrow> take n s)"

fun scan :: "directive list \<Rightarrow> string \<Rightarrow> sval list \<Rightarrow> int \<times> sval list" where
  "scan [] s acc = (int (length acc), acc)"
| "scan (DWs # ds) s acc = scan ds (dropWhile isspace s) acc"
| "scan (DLit c # ds) s acc =
     (case s of [] \<Rightarrow> input_failure acc
      | x # xs \<Rightarrow> if x = c then scan ds xs acc else matching_failure acc)"
| "scan (DStr w # ds) s acc =
     (let t = dropWhile isspace s; tok = take_width w (takeWhile (\<lambda>c. \<not> isspace c) t)
      in if t = [] then input_failure acc
         else scan ds (drop (length tok) t) (acc @ [SStr tok]))"
| "scan (DSkipStr # ds) s acc =
     (let t = dropWhile isspace s
      in if t = [] then input_failure acc
         else scan ds (dropWhile (\<lambda>c. \<not> isspace c) t) acc)"
| "scan (DInt # ds) s acc =
     (let t = dropWhile isspace s
      in if t = [] then input_failure acc
         else case scan_int t of
                None \<Rightarrow> matching_failure acc
              | Some (v, r) \<Rightarrow> scan ds r (acc @ [SInt v]))"
| "scan (DSkipInt # ds) s acc =
     (let t = dropWhile isspace s
      in if t = [] then input_failure acc
         else case scan_int t of
                None \<Rightarrow> matching_failure acc
              | Some (v, r) \<Rightarrow> scan ds r acc)"

text \<open>A call: the number of assignments (or EOF) and the assigned values, in order.\<close>

definition sscanf :: "string \<Rightarrow> directive list \<Rightarrow> int \<times> sval list" where
  "sscanf s fmt = scan fmt (cstr s) []"

text \<open>
  The \<open>i\<close>-th \<open>%s\<close> argument after a call: the scanned text, or what the array held before
  when the call did not get that far. Storing \<open>n\<close> bytes and the NUL into an array of
  capacity \<open>cap\<close> overflows unless \<open>n < cap\<close>.
\<close>

definition str_arg :: "sval list \<Rightarrow> nat \<Rightarrow> string \<Rightarrow> string" where
  "str_arg vs i old =
     (if i < length vs then case vs ! i of SStr s \<Rightarrow> s | SInt _ \<Rightarrow> old else old)"

definition int_arg :: "sval list \<Rightarrow> nat \<Rightarrow> int \<Rightarrow> int" where
  "int_arg vs i old =
     (if i < length vs then case vs ! i of SInt v \<Rightarrow> v | SStr _ \<Rightarrow> old else old)"

definition store_str :: "nat \<Rightarrow> string \<Rightarrow> string res" where
  "store_str cap s = (if length s < cap then Inr s else Inl BufferOverflow)"

text \<open>
  \<open>n = sscanf(s, "%s", buf)\<close> with \<open>char buf[cap]\<close>: the count and what the array holds
  afterwards.
\<close>

definition scan_word :: "nat \<Rightarrow> string \<Rightarrow> string \<Rightarrow> (int \<times> string) res" where
  "scan_word cap s old =
     (let (n, vs) = sscanf s [DStr None]
      in bind_res (store_str cap (str_arg vs 0 old)) (\<lambda>b. Inr (n, b)))"

lemma dropWhile_space_token [clib]:
  "is_token t \<Longrightarrow> dropWhile isspace (t @ r) = t @ r"
  by (cases t) (auto simp: is_token_def)

lemma takeWhile_token [clib]:
  assumes "is_token t" and "r = [] \<or> isspace (hd r)"
  shows "takeWhile (\<lambda>c. \<not> isspace c) (t @ r) = t"
  using assms by (cases r) (auto simp: is_token_def takeWhile_append)

lemma scan_token [clib]:
  assumes "is_token t" and "r = [] \<or> isspace (hd r)"
  shows "scan (DStr None # ds) (t @ r) acc = scan ds r (acc @ [SStr t])"
  using assms by (simp add: dropWhile_space_token takeWhile_token take_width_def is_tokenD(1))

lemma sscanf_token [clib]:
  "is_token t \<Longrightarrow> sscanf t [DStr None] = (1, [SStr t])"
  using scan_token [of t "[]" "[]" "[]"] by (simp add: sscanf_def cstr_id is_tokenD)

lemma sscanf_blank [clib]:
  "(\<And>c. c \<in> set (cstr s) \<Longrightarrow> isspace c) \<Longrightarrow> sscanf s [DStr w] = (- 1, [])"
  by (simp add: sscanf_def input_failure_def dropWhile_eq_Nil_conv)

lemma dropWhile_spaces [clib]:
  "(\<And>c. c \<in> set w \<Longrightarrow> isspace c) \<Longrightarrow> dropWhile isspace (w @ s) = dropWhile isspace s"
  by (induction w) auto

lemma scan_word_token [clib]:
  assumes "is_token t" and "\<And>c. c \<in> set w \<Longrightarrow> isspace c" and "length t < cap"
    and "NUL \<notin> set w" and "r = [] \<or> isspace (hd r) \<or> hd r = NUL"
  shows "scan_word cap (w @ t @ r) old = Inr (1, t)"
proof -
  have c: "cstr (w @ t @ r) = w @ t @ cstr r"
    using assms by (simp add: cstr_def takeWhile_append is_tokenD(2))
  have r: "cstr r = [] \<or> isspace (hd (cstr r))"
    using assms(5) by (cases r) (auto simp: cstr_def)
  have "scan [DStr None] (t @ cstr r) [] = scan [] (cstr r) [SStr t]"
    using scan_token [OF assms(1) r, of "[]" "[]"] by simp
  moreover have "scan [DStr None] (w @ t @ cstr r) [] = scan [DStr None] (t @ cstr r) []"
    using assms(2) by (simp add: dropWhile_spaces)
  ultimately show ?thesis
    using assms(3) by (simp add: scan_word_def sscanf_def c store_str_def str_arg_def)
qed

lemma scan_word_plain [clib]:
  assumes "is_token t" and "length t < cap"
  shows "scan_word cap t old = Inr (1, t)"
    and "isspace c \<or> c = NUL \<Longrightarrow> scan_word cap (t @ c # r) old = Inr (1, t)"
  using scan_word_token [OF assms(1) _ assms(2), of "[]" "[]" old]
    scan_word_token [OF assms(1) _ assms(2), of "[]" "c # r" old] by simp_all

text \<open>What a single \<open>%s\<close> returns is a token or nothing, whatever the input.\<close>

lemma set_take_width: "set (take_width w s) \<subseteq> set s"
  by (auto simp: take_width_def dest: in_set_takeD split: option.splits)

lemma is_token_scanned:
  assumes "NUL \<notin> set u" and "dropWhile isspace u \<noteq> []" and "w \<noteq> Some 0"
  shows "is_token (take_width w (takeWhile (\<lambda>c. \<not> isspace c) (dropWhile isspace u)))"
proof -
  let ?t = "dropWhile isspace u"
  have "\<not> isspace (hd ?t)" using assms(2) by (rule hd_dropWhile)
  with assms(2) have "takeWhile (\<lambda>c. \<not> isspace c) ?t \<noteq> []" by (cases ?t) auto
  with assms(3) have 1: "take_width w (takeWhile (\<lambda>c. \<not> isspace c) ?t) \<noteq> []"
    by (auto simp: take_width_def split: option.splits)
  have "c \<in> set u \<and> \<not> isspace c" if "c \<in> set (takeWhile (\<lambda>c. \<not> isspace c) ?t)" for c
    using that by (metis set_dropWhileD set_takeWhileD)
  with 1 assms(1) set_take_width show ?thesis unfolding is_token_def by blast
qed

lemma sscanf_str_result:
  "sscanf s [DStr w] = (k, vs) \<Longrightarrow> w \<noteq> Some 0 \<Longrightarrow>
   (k = - 1 \<and> vs = []) \<or> (\<exists>t. k = 1 \<and> vs = [SStr t] \<and> is_token t)"
  using is_token_scanned [of "cstr s" w]
  by (auto simp: sscanf_def Let_def input_failure_def split: if_splits)


text \<open>\<open>%ws\<close> on a token no longer than the width, and on one that is too long.\<close>

lemma scan_token_width [clib]:
  assumes "is_token t" and "length t \<le> w" and "r = [] \<or> isspace (hd r)"
  shows "scan (DStr (Some w) # ds) (t @ r) acc = scan ds r (acc @ [SStr t])"
  using assms by (simp add: dropWhile_space_token takeWhile_token take_width_def is_tokenD(1))

text \<open>Behind the last assignment the rest of a format does not matter.\<close>

definition assigns :: "directive \<Rightarrow> bool" where
  "assigns d \<longleftrightarrow> (case d of DStr _ \<Rightarrow> True | DInt \<Rightarrow> True | _ \<Rightarrow> False)"

lemma scan_no_assign [clib]:
  "(\<And>d. d \<in> set ds \<Longrightarrow> \<not> assigns d) \<Longrightarrow> acc \<noteq> [] \<Longrightarrow> scan ds s acc = (int (length acc), acc)"
proof (induction ds arbitrary: s)
  case (Cons d ds)
  have d: "\<not> assigns d" using Cons.prems(1) by simp
  have IH: "scan ds s' acc = (int (length acc), acc)" for s'
    using Cons by simp
  show ?case
    using d Cons.prems(2)
    by (cases d) (auto simp: assigns_def IH input_failure_def matching_failure_def Let_def
        split: list.splits option.splits)
qed simp

lemma scan_extends: "\<exists>ys. snd (scan ds s acc) = acc @ ys"
proof (induction ds arbitrary: s acc)
  case (Cons d ds)
  have "\<exists>ys. snd (scan ds s' (acc @ [v])) = acc @ ys" for s' v
    using Cons.IH [of s' "acc @ [v]"] by auto
  with Cons.IH show ?case
    by (cases d) (auto simp: Let_def input_failure_def matching_failure_def
        split: list.splits option.splits)
qed simp

lemma scan_lits [clib]: "scan (map DLit l @ ds) (l @ s) acc = scan ds s acc"
  by (induction l) auto

lemma long_to_int_id [clib]: "- (2 ^ 31) \<le> v \<Longrightarrow> v < 2 ^ 31 \<Longrightarrow> long_to_int v = v"
  by (simp add: long_to_int_def min_def max_def signed_take_bit_int_eq_self)

lemma scan_int_dec_nat [clib]:
  assumes "n < 2 ^ 31"
  shows "scan_int (dec_nat n) = Some (int n, [])"
proof -
  obtain c cs where d: "dec_nat n = c # cs" using dec_nat_nonempty [of n] by (cases "dec_nat n") auto
  then have "isdigit c" using dec_nat_digits [of c n] by simp
  then have "c \<noteq> CHR ''-''" and "c \<noteq> CHR ''+''" by (auto simp: isdigit_def)
  then have "(case dec_nat n of
        x # xs \<Rightarrow> if x = CHR ''-'' then (True, xs) else if x = CHR ''+'' then (False, xs)
                  else (False, dec_nat n)
      | [] \<Rightarrow> (False, dec_nat n)) = (False, dec_nat n)"
    by (simp add: d)
  moreover have tw: "takeWhile isdigit (dec_nat n) = dec_nat n"
    and dw: "dropWhile isdigit (dec_nat n) = []"
    by (simp_all add: takeWhile_eq_all_conv dropWhile_eq_Nil_conv dec_nat_digits)
  moreover have "long_to_int (int n) = int n" using assms by (intro long_to_int_id) auto
  ultimately show ?thesis
    unfolding scan_int_def
    by (simp only: Let_def prod.case tw dw if_False dec_nat_nonempty read_dec_dec_nat)
qed

end
