(* ===== verification/Clock.thy ===== *)
theory Clock
  imports CLib
begin

text \<open>
  \<open>Timestamp.cpp\<close>: the monotonic clock as a 64-bit count. The reading of
  \<open>clock_gettime(CLOCK_MONOTONIC)\<close> is the argument; a routine that reads the clock more
  than once takes one reading per call.
\<close>

record timespec =
  tv_sec :: int
  tv_nsec :: int

definition Timestamp :: "timespec \<Rightarrow> u64" where
  "Timestamp ts = word_of_int (tv_sec ts * 1000 + tv_nsec ts sdiv 10000000)"

text \<open>What \<open>clock_gettime\<close> returns: normalised nanoseconds, a time since boot.\<close>

definition valid_timespec :: "timespec \<Rightarrow> bool" where
  "valid_timespec ts \<longleftrightarrow>
     0 \<le> tv_sec ts \<and> tv_sec ts < 2 ^ 53 \<and> 0 \<le> tv_nsec ts \<and> tv_nsec ts < 1000000000"

definition not_after :: "timespec \<Rightarrow> timespec \<Rightarrow> bool" where
  "not_after a b \<longleftrightarrow>
     tv_sec a < tv_sec b \<or> tv_sec a = tv_sec b \<and> tv_nsec a \<le> tv_nsec b"

lemma sdiv_nonneg: "0 \<le> (a::int) \<Longrightarrow> 0 < b \<Longrightarrow> a sdiv b = a div b"
  by (cases "a = 0") (simp_all add: signed_divide_int_def)

lemma uint_Timestamp:
  assumes "valid_timespec ts"
  shows "uint (Timestamp ts) = tv_sec ts * 1000 + tv_nsec ts div 10000000"
proof -
  have "0 \<le> tv_nsec ts div 10000000" and "tv_nsec ts div 10000000 < 100"
    using assms by (auto simp: valid_timespec_def)
  with assms have "take_bit 64 (tv_sec ts * 1000 + tv_nsec ts div 10000000) =
      tv_sec ts * 1000 + tv_nsec ts div 10000000"
    by (intro take_bit_int_eq_self) (auto simp: valid_timespec_def)
  moreover have "uint (word_of_int k :: 64 word) = take_bit 64 k" for k
    by (simp add: unsigned_of_int)
  ultimately show ?thesis
    using assms by (simp add: Timestamp_def sdiv_nonneg valid_timespec_def del: of_int_add)
qed

text \<open>The clock never runs backwards: a later reading gives a count at least as large.\<close>

theorem Timestamp_mono:
  assumes "valid_timespec a" and "valid_timespec b" and "not_after a b"
  shows "Timestamp a \<le> Timestamp b"
proof -
  have "tv_nsec a div 10000000 < 100" and "0 \<le> tv_nsec b div 10000000"
    using assms by (auto simp: valid_timespec_def)
  moreover have "tv_nsec a \<le> tv_nsec b \<Longrightarrow> tv_nsec a div 10000000 \<le> tv_nsec b div 10000000"
    by (rule zdiv_mono1) simp_all
  ultimately have "uint (Timestamp a) \<le> uint (Timestamp b)"
    using assms(3) by (auto simp: uint_Timestamp assms not_after_def)
  then show ?thesis by (simp add: word_le_def)
qed

theorem Timestamp_mono_witness:
  "Timestamp \<lparr>tv_sec = 3, tv_nsec = 999999999\<rparr> \<le> Timestamp \<lparr>tv_sec = 4, tv_nsec = 0\<rparr>"
  by (rule Timestamp_mono) (simp_all add: valid_timespec_def not_after_def)

text \<open>
  The header promises milliseconds, but the part below a second counts in units of ten
  milliseconds: it stays below 100, so within a second the count is up to 900 too small.
\<close>

theorem Timestamp_subsecond_units:
  assumes "valid_timespec ts"
  shows "uint (Timestamp ts) div 1000 = tv_sec ts \<and>
    uint (Timestamp ts) mod 1000 = tv_nsec ts div 10000000 \<and>
    uint (Timestamp ts) mod 1000 < 100"
proof -
  have "0 \<le> tv_nsec ts div 10000000" and "tv_nsec ts div 10000000 < 100"
    using assms by (auto simp: valid_timespec_def)
  then show ?thesis
    using assms by (simp add: uint_Timestamp)
qed

theorem Timestamp_subsecond_units_witness:
  "uint (Timestamp \<lparr>tv_sec = 7, tv_nsec = 500000000\<rparr>) mod 1000 = 50"
  using Timestamp_subsecond_units [of "\<lparr>tv_sec = 7, tv_nsec = 500000000\<rparr>"]
  by (simp add: valid_timespec_def)

end
