(* ===== verification/TimeMap.thy ===== *)
theory TimeMap
  imports CLib
begin

text \<open>
  \<open>TimeMap.hpp\<close> and \<open>TimeMap.cpp\<close>: the access schedule of a day in half-hour intervals and
  of a week. The arrays have fixed sizes; a read or write outside them is the fault
  \<^term>\<open>OutOfBounds\<close>, which the day check of \<open>WeeklyAccess\<close> lets through for day 7.
\<close>

section \<open>A day\<close>

definition m_intervalTime :: int where "m_intervalTime = 30"

definition MinutesToIntervals :: "int \<Rightarrow> int \<Rightarrow> int" where
  "MinutesToIntervals hours minutes = (hours * 60 + minutes) sdiv m_intervalTime"

definition m_intervals :: int where "m_intervals = MinutesToIntervals 24 0"

record time_map =
  accessIntervals :: "bool list"

definition TimeMap_new :: time_map where
  "TimeMap_new = \<lparr>accessIntervals = replicate (nat m_intervals) True\<rparr>"

text \<open>The body of the loop over the string writes one interval.\<close>

definition init_interval :: "string \<Rightarrow> nat \<Rightarrow> bool list \<Rightarrow> bool list" where
  "init_interval initString i acc =
     acc[i := \<not> (initString ! i = CHR ''x'' \<or> initString ! i = CHR ''X'')]"

definition TimeMap_InitFromString :: "string \<Rightarrow> time_map \<Rightarrow> time_map \<times> bool" where
  "TimeMap_InitFromString initString m =
     (if int (length initString) \<noteq> m_intervals then (m, False)
      else (m\<lparr>accessIntervals :=
                fold (init_interval initString)
                  [0..<min (length initString) (nat m_intervals)] (accessIntervals m)\<rparr>, True))"

definition TimeMap_PermittedAtTime :: "time_map \<Rightarrow> int \<Rightarrow> int \<Rightarrow> bool res" where
  "TimeMap_PermittedAtTime m hour minute =
     (let interval = MinutesToIntervals hour minute
      in if m_intervals \<le> interval then Inr False
         else if interval < 0 then Inl OutOfBounds
         else Inr (accessIntervals m ! nat interval))"

definition TimeMap_Print :: "time_map \<Rightarrow> string" where
  "TimeMap_Print m =
     map (\<lambda>i. if accessIntervals m ! i then CHR ''-'' else CHR ''X'') [0..<nat m_intervals]"

text \<open>The array has its declared size.\<close>

definition wf_time_map :: "time_map \<Rightarrow> bool" where
  "wf_time_map m \<longleftrightarrow> length (accessIntervals m) = 48"

text \<open>A time of day, as \<open>localtime\<close> returns it.\<close>

definition valid_time :: "int \<Rightarrow> int \<Rightarrow> bool" where
  "valid_time hour minute \<longleftrightarrow> 0 \<le> hour \<and> hour < 24 \<and> 0 \<le> minute \<and> minute < 60"

lemma m_intervals_eq [simp]: "m_intervals = 48"
  by (simp add: m_intervals_def MinutesToIntervals_def m_intervalTime_def signed_divide_int_def)

lemma MinutesToIntervals_valid:
  assumes "valid_time h m"
  shows "MinutesToIntervals h m = h * 2 + m div 30"
    and "0 \<le> MinutesToIntervals h m" and "MinutesToIntervals h m < 48"
proof -
  have "(h * 60 + m) sdiv 30 = (h * 60 + m) div 30"
    using assms by (cases "h * 60 + m = 0") (simp_all add: signed_divide_int_def valid_time_def)
  also have "\<dots> = h * 2 + m div 30" by linarith
  finally show eq: "MinutesToIntervals h m = h * 2 + m div 30"
    by (simp add: MinutesToIntervals_def m_intervalTime_def)
  have "0 \<le> m div 30" and "m div 30 < 2" using assms by (auto simp: valid_time_def)
  with assms show "0 \<le> MinutesToIntervals h m" and "MinutesToIntervals h m < 48"
    by (auto simp: eq valid_time_def)
qed

lemma wf_TimeMap_new [simp]: "wf_time_map TimeMap_new"
  by (simp add: wf_time_map_def TimeMap_new_def)

lemma fold_init_interval:
  "n \<le> length acc \<Longrightarrow>
   fold (init_interval s) [0..<n] acc =
     map (\<lambda>i. s ! i \<noteq> CHR ''x'' \<and> s ! i \<noteq> CHR ''X'') [0..<n] @ drop n acc"
proof (induction n)
  case (Suc n)
  let ?f = "\<lambda>i. s ! i \<noteq> CHR ''x'' \<and> s ! i \<noteq> CHR ''X''"
  have "fold (init_interval s) [0..<Suc n] acc =
      (map ?f [0..<n] @ drop n acc)[n := ?f n]"
    using Suc by (simp add: init_interval_def [of _ n])
  also have "\<dots> = map ?f [0..<n] @ (drop n acc)[0 := ?f n]"
    by (simp add: list_update_append)
  also have "(drop n acc)[0 := ?f n] = ?f n # drop (Suc n) acc"
    using Suc.prems by (simp add: Cons_nth_drop_Suc [symmetric] del: Cons_nth_drop_Suc)
  finally show ?case by simp
qed simp

lemma InitFromString_ok:
  assumes "wf_time_map m" and "length s = 48"
  shows "TimeMap_InitFromString s m =
    (m\<lparr>accessIntervals := map (\<lambda>c. c \<noteq> CHR ''x'' \<and> c \<noteq> CHR ''X'') s\<rparr>, True)"
proof -
  have "map (\<lambda>i. s ! i \<noteq> CHR ''x'' \<and> s ! i \<noteq> CHR ''X'') [0..<48] =
      map (\<lambda>c. c \<noteq> CHR ''x'' \<and> c \<noteq> CHR ''X'') s"
    using assms(2) by (intro nth_equalityI) auto
  then show ?thesis
    using assms by (simp add: TimeMap_InitFromString_def fold_init_interval wf_time_map_def)
qed

lemma InitFromString_bad:
  "length s \<noteq> 48 \<Longrightarrow> TimeMap_InitFromString s m = (m, False)"
  by (simp add: TimeMap_InitFromString_def)

lemma wf_InitFromString:
  "wf_time_map m \<Longrightarrow> wf_time_map (fst (TimeMap_InitFromString s m))"
  by (cases "length s = 48") (simp_all add: InitFromString_ok InitFromString_bad wf_time_map_def)

lemma Permitted_after_Init:
  assumes "wf_time_map m" and "valid_time h n" and "length s = 48"
  shows "TimeMap_PermittedAtTime (fst (TimeMap_InitFromString s m)) h n =
    Inr (s ! nat (h * 2 + n div 30) \<notin> {CHR ''x'', CHR ''X''})"
  using assms MinutesToIntervals_valid [OF assms(2)]
  by (simp add: TimeMap_PermittedAtTime_def InitFromString_ok Let_def)

text \<open>
  A schedule string decides access as the configuration file documents it. Setting a
  day from a string of 48 characters and asking at any time of day answers whether the
  character of that half hour is something other than an \<open>x\<close> or \<open>X\<close>, without a fault; a
  string of any other length is refused and leaves the day as it was.
\<close>

theorem schedule_string_decides:
  assumes "wf_time_map m" and "valid_time h n"
  shows "(length s = 48 \<longrightarrow>
      TimeMap_PermittedAtTime (fst (TimeMap_InitFromString s m)) h n =
        Inr (s ! nat (h * 2 + n div 30) \<notin> {CHR ''x'', CHR ''X''})) \<and>
    (length s \<noteq> 48 \<longrightarrow> TimeMap_InitFromString s m = (m, False))"
  using assms(1) Permitted_after_Init [OF assms] by (simp add: InitFromString_bad)

theorem schedule_string_decides_witness:
  "TimeMap_PermittedAtTime
     (fst (TimeMap_InitFromString (replicate 4 CHR ''-'' @ replicate 8 CHR ''X'' @ replicate 36 CHR ''-'')
       TimeMap_new)) 2 30 = Inr False"
  using schedule_string_decides [OF wf_TimeMap_new, of 2 30
      "replicate 4 CHR ''-'' @ replicate 8 CHR ''X'' @ replicate 36 CHR ''-''"]
  by (simp add: valid_time_def nth_append)

text \<open>Printing a day and initialising any day from the text gives the day back.\<close>

theorem TimeMap_print_parse:
  assumes "wf_time_map m" and "wf_time_map m'"
  shows "TimeMap_InitFromString (TimeMap_Print m) m' = (m, True)"
proof -
  have "map (\<lambda>c. c \<noteq> CHR ''x'' \<and> c \<noteq> CHR ''X'') (TimeMap_Print m) = accessIntervals m"
    using assms(1) by (intro nth_equalityI) (auto simp: TimeMap_Print_def wf_time_map_def)
  then show ?thesis
    using assms by (simp add: InitFromString_ok TimeMap_Print_def)
qed

theorem TimeMap_print_parse_witness:
  "TimeMap_InitFromString (TimeMap_Print (TimeMap_new\<lparr>accessIntervals := replicate 48 False\<rparr>)) TimeMap_new =
     (TimeMap_new\<lparr>accessIntervals := replicate 48 False\<rparr>, True)"
  by (rule TimeMap_print_parse) (simp_all add: wf_time_map_def TimeMap_new_def)

section \<open>A week\<close>

definition m_days :: int where "m_days = 7"

record weekly_access =
  accessMap :: "time_map list"

definition WeeklyAccess_new :: weekly_access where
  "WeeklyAccess_new = \<lparr>accessMap = replicate (nat m_days) TimeMap_new\<rparr>"

definition WeeklyAccess_InitDayFromString ::
  "int \<Rightarrow> string \<Rightarrow> weekly_access \<Rightarrow> (weekly_access \<times> bool) res" where
  "WeeklyAccess_InitDayFromString day initString w =
     (if m_days < day then Inr (w, False)
      else if day < 0 \<or> m_days \<le> day then Inl OutOfBounds
      else let (m, ok) = TimeMap_InitFromString initString (accessMap w ! nat day)
           in Inr (w\<lparr>accessMap := (accessMap w)[nat day := m]\<rparr>, ok))"

definition WeeklyAccess_PermittedAtTime ::
  "weekly_access \<Rightarrow> int \<Rightarrow> int \<Rightarrow> int \<Rightarrow> bool res" where
  "WeeklyAccess_PermittedAtTime w day hour minute =
     (if m_days < day then Inr False
      else if day < 0 \<or> m_days \<le> day then Inl OutOfBounds
      else TimeMap_PermittedAtTime (accessMap w ! nat day) hour minute)"

definition wf_weekly :: "weekly_access \<Rightarrow> bool" where
  "wf_weekly w \<longleftrightarrow> length (accessMap w) = 7 \<and> (\<forall>m\<in>set (accessMap w). wf_time_map m)"

lemma wf_WeeklyAccess_new [simp]: "wf_weekly WeeklyAccess_new"
  by (simp add: wf_weekly_def WeeklyAccess_new_def m_days_def)

lemma wf_weekly_nth: "wf_weekly w \<Longrightarrow> 0 \<le> d \<Longrightarrow> d < 7 \<Longrightarrow> wf_time_map (accessMap w ! nat d)"
  by (simp add: wf_weekly_def)

lemma wf_InitDay:
  assumes "wf_weekly w" and "WeeklyAccess_InitDayFromString d s w = Inr (w', ok)"
  shows "wf_weekly w'"
  using assms wf_InitFromString [of "accessMap w ! nat d" s]
  by (auto simp: WeeklyAccess_InitDayFromString_def m_days_def wf_weekly_def Let_def
      split: if_splits prod.splits dest!: set_update_subset_insert [THEN subsetD])

lemma InitDay_valid:
  assumes "0 \<le> d" and "d < 7"
  shows "WeeklyAccess_InitDayFromString d s w =
    Inr (w\<lparr>accessMap := (accessMap w)[nat d := fst (TimeMap_InitFromString s (accessMap w ! nat d))]\<rparr>,
         snd (TimeMap_InitFromString s (accessMap w ! nat d)))"
  using assms by (simp add: WeeklyAccess_InitDayFromString_def m_days_def split: prod.split)

lemma Weekly_Permitted_valid:
  assumes "0 \<le> d" and "d < 7"
  shows "WeeklyAccess_PermittedAtTime w d h n = TimeMap_PermittedAtTime (accessMap w ! nat d) h n"
  using assms by (simp add: WeeklyAccess_PermittedAtTime_def m_days_def)

lemma Permitted_no_fault:
  assumes "valid_time h n"
  shows "\<exists>b. TimeMap_PermittedAtTime m h n = Inr b"
  using MinutesToIntervals_valid [OF assms] by (simp add: TimeMap_PermittedAtTime_def)

lemma Weekly_Permitted_new:
  assumes "0 \<le> d" and "d < 7" and "valid_time h n"
  shows "WeeklyAccess_PermittedAtTime WeeklyAccess_new d h n = Inr True"
  using assms MinutesToIntervals_valid [OF assms(3)]
  by (simp add: Weekly_Permitted_valid WeeklyAccess_new_def m_days_def TimeMap_PermittedAtTime_def
      TimeMap_new_def)

text \<open>
  The schedule of a week is set day by day. After one day is set from a string of 48
  characters, a query for that day follows the string and a query for any other day of the
  week answers as before.
\<close>

theorem weekly_schedule:
  assumes "wf_weekly w" and "0 \<le> d" and "d < 7" and "0 \<le> e" and "e < 7"
    and "valid_time h n" and "length s = 48"
  shows "\<exists>w'. WeeklyAccess_InitDayFromString d s w = Inr (w', True) \<and> wf_weekly w' \<and>
    WeeklyAccess_PermittedAtTime w' e h n =
      (if e = d then Inr (s ! nat (h * 2 + n div 30) \<notin> {CHR ''x'', CHR ''X''})
       else WeeklyAccess_PermittedAtTime w e h n)"
proof -
  let ?m = "accessMap w ! nat d"
  have wf: "wf_time_map ?m" using assms by (simp add: wf_weekly_nth)
  define w' where
    "w' = w\<lparr>accessMap := (accessMap w)[nat d := fst (TimeMap_InitFromString s ?m)]\<rparr>"
  have w': "WeeklyAccess_InitDayFromString d s w = Inr (w', True)"
    using assms wf by (simp add: InitDay_valid InitFromString_ok w'_def)
  have am: "accessMap w' = (accessMap w)[nat d := fst (TimeMap_InitFromString s ?m)]"
    by (simp add: w'_def)
  have len: "nat d < length (accessMap w)" using assms by (simp add: wf_weekly_def)
  have "nat e = nat d \<longleftrightarrow> e = d" using assms by auto
  then have "WeeklyAccess_PermittedAtTime w' e h n =
      (if e = d then Inr (s ! nat (h * 2 + n div 30) \<notin> {CHR ''x'', CHR ''X''})
       else WeeklyAccess_PermittedAtTime w e h n)"
    using assms wf len
    by (auto simp: Weekly_Permitted_valid am Permitted_after_Init nth_list_update)
  with w' wf_InitDay [OF assms(1) w'] show ?thesis by blast
qed

theorem weekly_schedule_witness:
  "\<exists>w'. WeeklyAccess_InitDayFromString 3 (replicate 48 CHR ''X'') WeeklyAccess_new = Inr (w', True) \<and>
     wf_weekly w' \<and> WeeklyAccess_PermittedAtTime w' 3 12 0 = Inr False"
  using weekly_schedule [OF wf_WeeklyAccess_new, of 3 3 12 0 "replicate 48 CHR ''X''"]
  by (simp add: valid_time_def)

text \<open>
  The bound check of the week is off by one. Exactly the day number 7, one past the
  last element of the array, passes the check and reads outside it, whatever the time.
\<close>

theorem weekly_day_check_off_by_one:
  assumes "0 \<le> day" and "valid_time h n"
  shows "(WeeklyAccess_PermittedAtTime w day h n = Inl OutOfBounds \<longleftrightarrow> day = 7) \<and>
    (WeeklyAccess_InitDayFromString day s w = Inl OutOfBounds \<longleftrightarrow> day = 7)"
  using assms Permitted_no_fault [OF assms(2), of "accessMap w ! nat day"]
  by (auto simp: WeeklyAccess_PermittedAtTime_def WeeklyAccess_InitDayFromString_def m_days_def
      split: prod.splits)

theorem weekly_day_check_off_by_one_witness:
  "WeeklyAccess_PermittedAtTime WeeklyAccess_new 7 0 0 = Inl OutOfBounds"
  using weekly_day_check_off_by_one [of 7 0 0 WeeklyAccess_new "[]"] by (simp add: valid_time_def)

end
