(* ===== verification/Interfaces.thy ===== *)
theory Interfaces
  imports CLib
begin

text \<open>
  The contracts several components share, each stated once as a locale and interpreted in
  the theories of the components that provide it:
  \<open>enumeration\<close>, an accessor by index that a client drains with
  \<open>while (x.Get(idx++, v)) ...\<close>; \<open>keyed\<close>, a list whose accessor creates the entry it does
  not find; \<open>fifo\<close>, a queue between two threads.
\<close>

section \<open>Enumeration by index\<close>

text \<open>
  The client's loop: the body returns whether it breaks and the new state. Nothing in the
  loop bounds the index, so that it ends is a theorem about the accessor, not part of the
  definition.
\<close>

partial_function (option) enum_loop ::
  "(int \<Rightarrow> 'a option) \<Rightarrow> ('a \<Rightarrow> 's \<Rightarrow> bool \<times> 's) \<Rightarrow> int \<Rightarrow> 's \<Rightarrow> 's option" where
  "enum_loop get body idx s =
     (case get idx of
        None \<Rightarrow> Some s
      | Some x \<Rightarrow> (if fst (body x s) then Some (snd (body x s))
                  else enum_loop get body (idx + 1) (snd (body x s))))"

text \<open>What the loop amounts to when the accessor lists \<open>xs\<close>.\<close>

fun run_body :: "('a \<Rightarrow> 's \<Rightarrow> bool \<times> 's) \<Rightarrow> 'a list \<Rightarrow> 's \<Rightarrow> 's" where
  "run_body body [] s = s"
| "run_body body (x # xs) s =
     (if fst (body x s) then snd (body x s) else run_body body xs (snd (body x s)))"

lemma run_body_invariant:
  assumes "I s" and "\<And>x s. x \<in> set xs \<Longrightarrow> I s \<Longrightarrow> I (snd (body x s))"
  shows "I (run_body body xs s)"
  using assms by (induction xs arbitrary: s) auto

lemma run_body_no_break:
  "(\<And>x s. \<not> fst (body x s)) \<Longrightarrow> run_body body xs s = fold (\<lambda>x s. snd (body x s)) xs s"
  by (induction xs arbitrary: s) auto

text \<open>The loop where the body may fault: a fault leaves the loop.\<close>

definition fault_body :: "('a \<Rightarrow> 's \<Rightarrow> 's res) \<Rightarrow> 'a \<Rightarrow> 's res \<Rightarrow> bool \<times> 's res" where
  "fault_body f x r = (let r' = bind_res r (f x) in (isl r', r'))"

definition each :: "(int \<Rightarrow> 'a option) \<Rightarrow> ('a \<Rightarrow> 's \<Rightarrow> 's res) \<Rightarrow> 's \<Rightarrow> 's res" where
  "each get f s = bind_res (loop_res (enum_loop get (fault_body f) 0 (Inr s))) (\<lambda>r. r)"

text \<open>A range-for loop over a list with such a body.\<close>

fun fold_res :: "('a \<Rightarrow> 's \<Rightarrow> 's res) \<Rightarrow> 'a list \<Rightarrow> 's \<Rightarrow> 's res" where
  "fold_res f [] s = Inr s"
| "fold_res f (x # xs) s = bind_res (f x s) (fold_res f xs)"

lemma run_fault_body: "run_body (fault_body f) xs (Inr s) = fold_res f xs s"
proof (induction xs arbitrary: s)
  case (Cons x xs)
  then show ?case by (cases "f x s") (simp_all add: fault_body_def Let_def)
qed simp

lemma fold_res_total: "(\<And>x s. x \<in> set xs \<Longrightarrow> f x s = Inr (g x s)) \<Longrightarrow> fold_res f xs s = Inr (fold g xs s)"
  by (induction xs arbitrary: s) auto

locale enumeration =
  fixes get :: "'c \<Rightarrow> int \<Rightarrow> 'a option"
    and elems :: "'c \<Rightarrow> 'a list"
  assumes get_nth: "0 \<le> i \<Longrightarrow>
    get c i = (if nat i < length (elems c) then Some (elems c ! nat i) else None)"
begin

lemma enum_loop_from:
  assumes "n \<le> length (elems c)"
  shows "enum_loop (get c) body (int n) s = Some (run_body body (drop n (elems c)) s)"
  using assms
proof (induction "length (elems c) - n" arbitrary: n s)
  case 0
  then show ?case by (subst enum_loop.simps) (simp add: get_nth)
next
  case (Suc k)
  then have n: "n < length (elems c)" by simp
  then have d: "drop n (elems c) = elems c ! n # drop (Suc n) (elems c)"
    by (rule Cons_nth_drop_Suc [symmetric])
  have rec: "enum_loop (get c) body (int n + 1) t = Some (run_body body (drop (Suc n) (elems c)) t)" for t
    using Suc.hyps(1) [of "Suc n" t] Suc.hyps(2) n by (simp add: add.commute)
  show ?case by (subst enum_loop.simps) (simp add: get_nth n d rec)
qed

text \<open>The loop ends, and visits the elements in order up to the first break.\<close>

lemma enum_loop_run: "enum_loop (get c) body 0 s = Some (run_body body (elems c) s)"
  using enum_loop_from [of 0 c body s] by simp

lemma each_fold: "each (get c) f s = fold_res f (elems c) s"
  by (simp add: each_def enum_loop_run run_fault_body)

lemma get_past_end: "int (length (elems c)) \<le> i \<Longrightarrow> get c i = None"
  by (subst get_nth) auto

end

section \<open>Find or create\<close>

locale keyed =
  fixes key :: "'a \<Rightarrow> 'k"
    and mk :: "'k \<Rightarrow> 'a"
  assumes key_mk: "key (mk k) = k"
begin

abbreviation lookup :: "'k \<Rightarrow> 'a list \<Rightarrow> 'a option" where
  "lookup k xs \<equiv> find_first (\<lambda>x. key x = k) xs"

lemma lookup_key: "lookup k xs = Some x \<Longrightarrow> key x = k"
  by (drule find_first_Some) simp

lemma lookup_upsert_same:
  assumes "\<And>x. key (f x) = key x"
  shows "lookup k (upsert key mk k f xs) =
    Some (f (case lookup k xs of None \<Rightarrow> mk k | Some x \<Rightarrow> x))"
  by (induction xs) (auto simp: assms key_mk)

lemma lookup_upsert_other:
  assumes "\<And>x. key (f x) = key x" and "k' \<noteq> k"
  shows "lookup k' (upsert key mk k f xs) = lookup k' xs"
  using assms(2) by (induction xs) (auto simp: assms(1) key_mk)

lemma keys_upsert:
  assumes "\<And>x. key (f x) = key x"
  shows "map key (upsert key mk k f xs) =
    (if k \<in> key ` set xs then map key xs else map key xs @ [k])"
  by (induction xs) (auto simp: assms key_mk)

lemma distinct_keys_upsert:
  assumes "\<And>x. key (f x) = key x" and "distinct (map key xs)"
  shows "distinct (map key (upsert key mk k f xs))"
  using assms(2) by (simp add: keys_upsert assms(1))

lemma upsert_upsert:
  assumes "\<And>x. key (f x) = key x"
  shows "upsert key mk k g (upsert key mk k f xs) = upsert key mk k (\<lambda>x. g (f x)) xs"
  by (induction xs) (auto simp: assms key_mk)

lemma upsert_fresh: "k \<notin> key ` set xs \<Longrightarrow> upsert key mk k f xs = xs @ [f (mk k)]"
  by (induction xs) auto

lemma upsert_last:
  "k \<notin> key ` set xs \<Longrightarrow> key x = k \<Longrightarrow> upsert key mk k f (xs @ [x]) = xs @ [f x]"
  by (induction xs) auto

lemma length_upsert:
  "length (upsert key mk k f xs) = (if k \<in> key ` set xs then length xs else Suc (length xs))"
  by (induction xs) auto

end

section \<open>Queues between threads\<close>

text \<open>A run of reads that must all succeed: what they take out, in order, and what is left.\<close>

fun drain :: "('q \<Rightarrow> ('a \<times> 'q) option) \<Rightarrow> nat \<Rightarrow> 'q \<Rightarrow> ('a list \<times> 'q) option" where
  "drain deq 0 q = Some ([], q)"
| "drain deq (Suc n) q =
     (case deq q of
        None \<Rightarrow> None
      | Some (x, q') \<Rightarrow> map_option (\<lambda>(xs, q''). (x # xs, q'')) (drain deq n q'))"

locale fifo =
  fixes enq :: "'a \<Rightarrow> 'q \<Rightarrow> 'q"
    and deq :: "'q \<Rightarrow> ('a \<times> 'q) option"
    and elems :: "'q \<Rightarrow> 'a list"
    and item :: "'a \<Rightarrow> bool"
    and shape :: "'q \<Rightarrow> bool"
  assumes elems_enq: "item x \<Longrightarrow> shape q \<Longrightarrow> elems (enq x q) = elems q @ [x]"
    and shape_enq: "item x \<Longrightarrow> shape q \<Longrightarrow> shape (enq x q)"
    and deq_empty: "shape q \<Longrightarrow> elems q = [] \<Longrightarrow> deq q = None"
    and deq_Cons: "shape q \<Longrightarrow> elems q = x # xs \<Longrightarrow>
      \<exists>q'. deq q = Some (x, q') \<and> elems q' = xs \<and> shape q'"
begin

lemma deq_Some:
  "shape q \<Longrightarrow> deq q = Some (x, q') \<Longrightarrow> elems q = x # elems q' \<and> shape q'"
  using deq_empty [of q] deq_Cons [of q] by (cases "elems q") auto

lemma elems_fold_enq:
  "list_all item xs \<Longrightarrow> shape q \<Longrightarrow>
   elems (fold enq xs q) = elems q @ xs \<and> shape (fold enq xs q)"
  by (induction xs arbitrary: q) (auto simp: elems_enq shape_enq)

text \<open>What goes in comes out, in order, behind what was there.\<close>

lemma deq_fold_enq:
  assumes "shape q" and "elems q = []" and "list_all item (x # xs)"
  shows "\<exists>q'. deq (fold enq (x # xs) q) = Some (x, q') \<and> elems q' = xs \<and> shape q'"
  using deq_Cons [of "fold enq (x # xs) q" x xs] elems_fold_enq [OF assms(3,1)] assms(2) by auto

lemma drain_all:
  assumes "shape q" and "elems q = xs @ ys"
  shows "\<exists>q'. drain deq (length xs) q = Some (xs, q') \<and> elems q' = ys \<and> shape q'"
  using assms
proof (induction xs arbitrary: q)
  case (Cons x xs)
  then obtain q1 where "deq q = Some (x, q1)" "elems q1 = xs @ ys" "shape q1"
    using deq_Cons [of q x "xs @ ys"] by auto
  with Cons.IH [of q1] show ?case by auto
qed simp

end

section \<open>Objects behind pointers\<close>

text \<open>
  A store of objects that clients hold pointers to. An object is known by a number that no
  write changes; a write through a pointer is an update of the object with the number.
\<close>

locale object_store =
  fixes get :: "'m \<Rightarrow> int \<Rightarrow> 'o option"
    and upd :: "int \<Rightarrow> ('o \<Rightarrow> 'o) \<Rightarrow> 'm \<Rightarrow> 'm"
    and drp :: "int \<Rightarrow> 'm \<Rightarrow> 'm"
    and ident :: "'o \<Rightarrow> int"
    and invar :: "'m \<Rightarrow> bool"
  assumes get_ident: "get m i = Some x \<Longrightarrow> ident x = i"
    and get_upd: "(\<And>x. ident (f x) = ident x) \<Longrightarrow>
      get (upd i f m) j = (if j = i then map_option f (get m i) else get m j)"
    and get_drp: "invar m \<Longrightarrow> get (drp i m) j = (if j = i then None else get m j)"
    and invar_upd: "invar m \<Longrightarrow> (\<And>x. ident (f x) = ident x) \<Longrightarrow> invar (upd i f m)"
    and invar_drp: "invar m \<Longrightarrow> invar (drp i m)"
begin

abbreviation live :: "'m \<Rightarrow> int \<Rightarrow> bool" where
  "live m i \<equiv> get m i \<noteq> None"

lemma live_upd: "(\<And>x. ident (f x) = ident x) \<Longrightarrow> live (upd i f m) j \<longleftrightarrow> live m j"
  by (simp add: get_upd)

lemma live_drp: "invar m \<Longrightarrow> live (drp i m) j \<longleftrightarrow> live m j \<and> j \<noteq> i"
  by (simp add: get_drp)

lemma upd_upd_get:
  assumes "\<And>x. ident (f x) = ident x" and "\<And>x. ident (g x) = ident x"
  shows "get (upd i g (upd i f m)) i = map_option (\<lambda>x. g (f x)) (get m i)"
  by (simp add: get_upd assms option.map_comp comp_def)

end

end
