(* ===== verification/Policy.thy ===== *)
theory Policy
  imports Interfaces
begin

text \<open>
  \<open>Policy.hpp\<close> and \<open>Policy.cpp\<close>: the lists of blacklist names (domains) that apply to each
  user. Both accessors take an index and are drained by the connector's loops: they
  interpret \<open>enumeration\<close>.
\<close>

record user_policy =
  up_name :: string
  up_domains :: "string list"

definition UserPolicy_new :: "string \<Rightarrow> user_policy" where
  "UserPolicy_new name = \<lparr>up_name = name, up_domains = []\<rparr>"

definition UserPolicy_AddDomain :: "string \<Rightarrow> user_policy \<Rightarrow> user_policy" where
  "UserPolicy_AddDomain domain p = p\<lparr>up_domains := up_domains p @ [domain]\<rparr>"

text \<open>The comparison with \<open>size()\<close> converts the index to an unsigned 64-bit number.\<close>

definition UserPolicy_GetDomain :: "user_policy \<Rightarrow> int \<Rightarrow> string option" where
  "UserPolicy_GetDomain p idx =
     (if int (length (up_domains p)) \<le> uint (word_of_int idx :: u64) then None
      else nth_loop idx 0 (up_domains p))"

type_synonym policy_list = "user_policy list"

definition UserPolicyList_AddPolicy :: "user_policy \<Rightarrow> policy_list \<Rightarrow> policy_list" where
  "UserPolicyList_AddPolicy p ps = ps @ [p]"

fun UserPolicyList_GetUserDomain :: "policy_list \<Rightarrow> string \<Rightarrow> int \<Rightarrow> string option" where
  "UserPolicyList_GetUserDomain [] user idx = None"
| "UserPolicyList_GetUserDomain (p # ps) user idx =
     (if up_name p = user then UserPolicy_GetDomain p idx
      else UserPolicyList_GetUserDomain ps user idx)"

text \<open>The domains that apply to a user: those of the first policy of that name.\<close>

definition domains_of :: "policy_list \<Rightarrow> string \<Rightarrow> string list" where
  "domains_of ps user =
     (case find_first (\<lambda>p. up_name p = user) ps of None \<Rightarrow> [] | Some p \<Rightarrow> up_domains p)"

lemma GetDomain_nth:
  assumes "0 \<le> i"
  shows "UserPolicy_GetDomain p i =
    (if nat i < length (up_domains p) then Some (up_domains p ! nat i) else None)"
  using assms uint_word_of_int_le [OF assms]
  by (auto simp: UserPolicy_GetDomain_def nth_loop_eq)

lemma GetUserDomain_first:
  "UserPolicyList_GetUserDomain ps user i =
    (case find_first (\<lambda>p. up_name p = user) ps of
       None \<Rightarrow> None | Some p \<Rightarrow> UserPolicy_GetDomain p i)"
  by (induction ps) auto

interpretation domains: enumeration UserPolicy_GetDomain up_domains
  by unfold_locales (rule GetDomain_nth)

interpretation user_domains: enumeration
  "\<lambda>(ps, user). UserPolicyList_GetUserDomain ps user" "\<lambda>(ps, user). domains_of ps user"
  by unfold_locales
     (auto simp: GetUserDomain_first domains_of_def GetDomain_nth split: option.splits)

lemma GetUserDomain_loop:
  "enum_loop (UserPolicyList_GetUserDomain ps user) body 0 s =
     Some (run_body body (domains_of ps user) s)"
  using user_domains.enum_loop_run [of "(ps, user)" body s] by simp

lemma domains_of_AddPolicy [list_ops]:
  "domains_of (UserPolicyList_AddPolicy p ps) user =
     (if find_first (\<lambda>p. up_name p = user) ps = None \<and> up_name p = user then up_domains p
      else domains_of ps user)"
  by (auto simp: domains_of_def UserPolicyList_AddPolicy_def find_first_append split: option.split)

text \<open>
  Adding domains to a fresh policy and adding the policy for a user that has none makes
  exactly those domains readable for the user, in order, index by index; a negative index
  and an index past the end read nothing.
\<close>

theorem policy_domains_readable:
  assumes "\<forall>p\<in>set ps. up_name p \<noteq> user"
  shows "UserPolicyList_GetUserDomain
      (UserPolicyList_AddPolicy (fold UserPolicy_AddDomain ds (UserPolicy_new user)) ps) user i =
    (if 0 \<le> i \<and> nat i < length ds then Some (ds ! nat i) else None)"
proof -
  let ?p = "fold UserPolicy_AddDomain ds (UserPolicy_new user)"
  have gen: "up_name (fold UserPolicy_AddDomain ds q) = up_name q \<and>
      up_domains (fold UserPolicy_AddDomain ds q) = up_domains q @ ds" for q
    by (induction ds arbitrary: q) (auto simp: UserPolicy_AddDomain_def)
  then have p: "up_name ?p = user" "up_domains ?p = ds"
    by (simp_all add: UserPolicy_new_def)
  have none: "find_first (\<lambda>p. up_name p = user) ps = None"
    using assms by (simp add: find_first_None)
  have neg: "UserPolicy_GetDomain ?p i = None" if "i < 0"
    using that by (simp add: UserPolicy_GetDomain_def nth_loop_eq)
  show ?thesis
    using neg GetDomain_nth [of i ?p] p none
    by (cases "0 \<le> i")
       (simp_all add: GetUserDomain_first UserPolicyList_AddPolicy_def find_first_append)
qed

theorem policy_domains_readable_witness:
  "UserPolicyList_GetUserDomain
     (UserPolicyList_AddPolicy
       (fold UserPolicy_AddDomain [''ads'', ''spam''] (UserPolicy_new ''user1'')) []) ''user1'' 1 =
    Some ''spam''"
  using policy_domains_readable [of "[]" "''user1''" "[''ads'', ''spam'']" 1] by simp

end
