(* ===== verification/BlackList.thy ===== *)
theory BlackList
  imports Interfaces
begin

text \<open>
  \<open>BlackList.hpp\<close> and \<open>BlackList.cpp\<close>: a named set of blocked hosts, loaded from a file with
  one host per line, and the collection of them. The file system is the argument \<open>fs\<close>: the
  contents of a path, or \<^term>\<open>None\<close> when \<open>fopen\<close> fails.
\<close>

record blacklist =
  bl_name :: string
  bl_hosts :: "string set"

definition Blacklist_new :: "string \<Rightarrow> blacklist" where
  "Blacklist_new name = \<lparr>bl_name = name, bl_hosts = {}\<rparr>"

definition Blacklist_Clear :: "blacklist \<Rightarrow> blacklist" where
  "Blacklist_Clear b = b\<lparr>bl_hosts := {}\<rparr>"

definition Blacklist_insert_line :: "string \<Rightarrow> blacklist \<Rightarrow> blacklist" where
  "Blacklist_insert_line linebuf b =
     b\<lparr>bl_hosts := insert (cstr (put_NUL LF (put_NUL CR linebuf))) (bl_hosts b)\<rparr>"

definition Blacklist_LoadFromFile ::
  "(string \<Rightarrow> string option) \<Rightarrow> string \<Rightarrow> blacklist \<Rightarrow> blacklist \<times> bool" where
  "Blacklist_LoadFromFile fs path b =
     (case fs path of
        None \<Rightarrow> (b, False)
      | Some content \<Rightarrow> (fold Blacklist_insert_line (getlines content) b, True))"

text \<open>The getter of the name; simplification reads it as the field.\<close>

definition Blacklist_GetName :: "blacklist \<Rightarrow> string" where [simp]:
  "Blacklist_GetName x = bl_name x"

definition Blacklist_IsHostAllowed :: "blacklist \<Rightarrow> string \<Rightarrow> bool" where
  "Blacklist_IsHostAllowed b host = (if host \<notin> bl_hosts b then True else False)"

type_synonym blacklist_list = "blacklist list"

definition BlacklistList_AddList :: "blacklist \<Rightarrow> blacklist_list \<Rightarrow> blacklist_list" where
  "BlacklistList_AddList b bs = bs @ [b]"

fun BlacklistList_IsAllowedInList :: "blacklist_list \<Rightarrow> string \<Rightarrow> string \<Rightarrow> bool" where
  "BlacklistList_IsAllowedInList [] name host = False"
| "BlacklistList_IsAllowedInList (b # bs) name host =
     (if name = Blacklist_GetName b then Blacklist_IsHostAllowed b host
      else BlacklistList_IsAllowedInList bs name host)"

fun BlacklistList_HasList :: "blacklist_list \<Rightarrow> string \<Rightarrow> bool" where
  "BlacklistList_HasList [] name = False"
| "BlacklistList_HasList (b # bs) name =
     (if name = Blacklist_GetName b then True else BlacklistList_HasList bs name)"

section \<open>Lines\<close>

text \<open>The host of a line: what stands before the first CR, LF or NUL.\<close>

definition line_host :: "string \<Rightarrow> string" where
  "line_host l = takeWhile (\<lambda>c. c \<noteq> NUL \<and> c \<noteq> CR \<and> c \<noteq> LF) l"

lemma insert_line_host:
  "Blacklist_insert_line l b = b\<lparr>bl_hosts := insert (line_host l) (bl_hosts b)\<rparr>"
  by (simp add: Blacklist_insert_line_def cstr_put_NUL_cstr line_host_def)
     (simp add: cstr_def takeWhile_conj conj_ac)

lemma fold_insert_line:
  "fold Blacklist_insert_line ls b = b\<lparr>bl_hosts := line_host ` set ls \<union> bl_hosts b\<rparr>"
  by (induction ls arbitrary: b) (auto simp: insert_line_host)

lemma LoadFromFile_hosts:
  "fs path = Some content \<Longrightarrow>
   Blacklist_LoadFromFile fs path b =
     (b\<lparr>bl_hosts := line_host ` set (getlines content) \<union> bl_hosts b\<rparr>, True)"
  by (simp add: Blacklist_LoadFromFile_def fold_insert_line)

text \<open>A file with one host per line, each line ended as on Unix or as on Windows.\<close>

definition host_lines :: "(string \<times> bool) list \<Rightarrow> string" where
  "host_lines hs = concat (map (\<lambda>(h, crlf). h @ (if crlf then [CR, LF] else [LF])) hs)"

definition plain_host :: "string \<Rightarrow> bool" where
  "plain_host h \<longleftrightarrow> NUL \<notin> set h \<and> CR \<notin> set h \<and> LF \<notin> set h"

lemma line_host_plain:
  "plain_host h \<Longrightarrow> line_host (h @ [LF]) = h \<and> line_host (h @ [CR, LF]) = h"
  by (auto simp: line_host_def plain_host_def takeWhile_append takeWhile_eq_all_conv)

lemma getlines_host_lines:
  assumes "\<forall>(h, _)\<in>set hs. plain_host h"
  shows "line_host ` set (getlines (host_lines hs)) = fst ` set hs"
  using assms
proof (induction hs)
  case (Cons p hs)
  obtain h crlf where p: "p = (h, crlf)" by fastforce
  with Cons.prems have h: "plain_host h" by simp
  have unix: "getlines (h @ LF # r) = (h @ [LF]) # getlines r" for r
    using h by (simp add: clib plain_host_def)
  have dos: "getlines (h @ CR # LF # r) = (h @ [CR, LF]) # getlines r" for r
    using h getlines_line [of "h @ [CR]" r] by (simp add: plain_host_def)
  show ?case
    using Cons line_host_plain [OF h] by (cases crlf) (simp_all add: p host_lines_def unix dos)
qed (simp add: host_lines_def)

text \<open>
  C37: Loading a blacklist from a file that holds one host per line, whatever the line
  ending, blocks exactly the hosts of the file and those blocked before, and keeps the list's
  name; a file that cannot be opened changes nothing and is reported.
\<close>

theorem load_blocks_exactly_the_file:
  assumes "\<forall>(h, _)\<in>set hs. plain_host h"
    and "fs path = Some (host_lines hs) \<or> fs path = None"
  shows "if fs path = None
    then Blacklist_LoadFromFile fs path b = (b, False)
    else snd (Blacklist_LoadFromFile fs path b) \<and>
      bl_name (fst (Blacklist_LoadFromFile fs path b)) = bl_name b \<and>
      Blacklist_IsHostAllowed (fst (Blacklist_LoadFromFile fs path b)) host =
        (host \<notin> fst ` set hs \<and> Blacklist_IsHostAllowed b host)"
proof (cases "fs path")
  case None
  then show ?thesis by (simp add: Blacklist_LoadFromFile_def)
next
  case (Some content)
  with assms have "Blacklist_LoadFromFile fs path b =
      (b\<lparr>bl_hosts := fst ` set hs \<union> bl_hosts b\<rparr>, True)"
    by (simp add: LoadFromFile_hosts getlines_host_lines)
  with Some show ?thesis by (auto simp: Blacklist_IsHostAllowed_def)
qed

theorem load_blocks_exactly_the_file_witness:
  "\<not> Blacklist_IsHostAllowed
      (fst (Blacklist_LoadFromFile
        (Map.empty(''ads.list'' \<mapsto> host_lines [(''ads.example'', False), (''track.example'', True)]))
        ''ads.list'' (Blacklist_new ''ads''))) ''track.example'' \<and>
   Blacklist_LoadFromFile Map.empty ''ads.list'' (Blacklist_new ''ads'') = (Blacklist_new ''ads'', False)"
  using load_blocks_exactly_the_file
    [of "[(''ads.example'', False), (''track.example'', True)]"
      "Map.empty(''ads.list'' \<mapsto> host_lines [(''ads.example'', False), (''track.example'', True)])"
      "''ads.list''" "Blacklist_new ''ads''" "''track.example''"]
    load_blocks_exactly_the_file [of "[]" Map.empty "''ads.list''" "Blacklist_new ''ads''"]
  by (simp add: plain_host_def)

section \<open>The collection\<close>

lemma IsAllowedInList_first:
  "BlacklistList_IsAllowedInList bs name host =
     (case find_first (\<lambda>b. bl_name b = name) bs of
        None \<Rightarrow> False | Some b \<Rightarrow> host \<notin> bl_hosts b)"
  by (induction bs) (auto simp: Blacklist_IsHostAllowed_def)

lemma HasList_iff: "BlacklistList_HasList bs name \<longleftrightarrow> name \<in> bl_name ` set bs"
  by (induction bs) auto

lemma IsAllowedInList_HasList:
  "BlacklistList_IsAllowedInList bs name host \<Longrightarrow> BlacklistList_HasList bs name"
  by (induction bs) (auto split: if_splits)

end
