(* ===== verification/ConfigFile.thy ===== *)
theory ConfigFile
  imports Interfaces
begin

text \<open>
  \<open>ConfigFile.hpp\<close> and \<open>ConfigFile.cpp\<close>: attributes with several values, sections of
  attributes, the data of a file, and the parser. \<open>GetAttribute\<close>, \<open>AddSection\<close> and
  \<open>FindSection\<close> return a reference to an entry they create when it is missing: the caller's
  write through the reference is an argument of the model, and both lists interpret \<open>keyed\<close>.
\<close>

section \<open>Attributes\<close>

record attribute =
  at_name :: string
  at_values :: "string list"

definition MultiValueAttribute_new :: "string \<Rightarrow> attribute" where
  "MultiValueAttribute_new name = \<lparr>at_name = name, at_values = []\<rparr>"

text \<open>The getter of the name; simplification reads it as the field.\<close>

definition MultiValueAttribute_GetName :: "attribute \<Rightarrow> string" where [simp]:
  "MultiValueAttribute_GetName x = at_name x"

definition MultiValueAttribute_AddValue :: "string \<Rightarrow> attribute \<Rightarrow> attribute" where
  "MultiValueAttribute_AddValue value a = a\<lparr>at_values := at_values a @ [value]\<rparr>"

text \<open>The guard lets the index equal to the size through; the loop then finds nothing.\<close>

definition MultiValueAttribute_GetValueAt :: "attribute \<Rightarrow> int \<Rightarrow> string option" where
  "MultiValueAttribute_GetValueAt a index =
     (if int (length (at_values a)) < uint (word_of_int index :: u64) then None
      else nth_loop index 0 (at_values a))"

definition MultiValueAttribute_GetValue :: "attribute \<Rightarrow> string" where
  "MultiValueAttribute_GetValue a = (case at_values a of [] \<Rightarrow> [] | v # _ \<Rightarrow> v)"

definition MultiValueAttribute_GetCount :: "attribute \<Rightarrow> int" where
  "MultiValueAttribute_GetCount a = int (length (at_values a))"

section \<open>Sections\<close>

record config_section =
  cs_name :: string
  cs_attributes :: "attribute list"

definition ConfigSection_new :: "string \<Rightarrow> config_section" where
  "ConfigSection_new name = \<lparr>cs_name = name, cs_attributes = []\<rparr>"

text \<open>Likewise for a section.\<close>

definition ConfigSection_GetName :: "config_section \<Rightarrow> string" where [simp]:
  "ConfigSection_GetName x = cs_name x"

definition ConfigSection_GetAttribute ::
  "string \<Rightarrow> (attribute \<Rightarrow> attribute) \<Rightarrow> config_section \<Rightarrow> config_section" where
  "ConfigSection_GetAttribute name f s =
     s\<lparr>cs_attributes := upsert at_name MultiValueAttribute_new name f (cs_attributes s)\<rparr>"

text \<open>The same call where the caller only reads through the reference.\<close>

definition ConfigSection_ReadAttribute :: "string \<Rightarrow> config_section \<Rightarrow> attribute" where
  "ConfigSection_ReadAttribute name s =
     (case find_first (\<lambda>a. MultiValueAttribute_GetName a = name)
             (cs_attributes (ConfigSection_GetAttribute name (\<lambda>a. a) s)) of
        Some a \<Rightarrow> a | None \<Rightarrow> MultiValueAttribute_new name)"

definition ConfigSection_GetAttributeAt :: "config_section \<Rightarrow> int \<Rightarrow> attribute option" where
  "ConfigSection_GetAttributeAt s idx = nth_loop idx 0 (cs_attributes s)"

section \<open>Data\<close>

record config_data =
  cd_sections :: "config_section list"

definition ConfigData_new :: config_data where
  "ConfigData_new = \<lparr>cd_sections = []\<rparr>"

definition ConfigData_AddSection ::
  "string \<Rightarrow> (config_section \<Rightarrow> config_section) \<Rightarrow> config_data \<Rightarrow> config_data" where
  "ConfigData_AddSection name f d =
     d\<lparr>cd_sections := upsert cs_name ConfigSection_new name f (cd_sections d)\<rparr>"

definition ConfigData_FindSection ::
  "string \<Rightarrow> (config_section \<Rightarrow> config_section) \<Rightarrow> config_data \<Rightarrow> config_data" where
  "ConfigData_FindSection name f d =
     (case find_first (\<lambda>s. ConfigSection_GetName s = name) (cd_sections d) of
        Some _ \<Rightarrow> d\<lparr>cd_sections := update_first (\<lambda>s. ConfigSection_GetName s = name) f (cd_sections d)\<rparr>
      | None \<Rightarrow> ConfigData_AddSection name f d)"

text \<open>\<open>ConfigFile::GetSection\<close>, whose caller copies the section out of the reference.\<close>

definition ConfigFile_GetSection :: "string \<Rightarrow> config_data \<Rightarrow> config_section \<times> config_data" where
  "ConfigFile_GetSection name d =
     (let d' = ConfigData_FindSection name (\<lambda>s. s) d
      in (case find_first (\<lambda>s. ConfigSection_GetName s = name) (cd_sections d') of
            Some s \<Rightarrow> s | None \<Rightarrow> ConfigSection_new name, d'))"

interpretation attrs: keyed at_name MultiValueAttribute_new
  by unfold_locales (simp add: MultiValueAttribute_new_def)

interpretation sections: keyed cs_name ConfigSection_new
  by unfold_locales (simp add: ConfigSection_new_def)

lemma GetValueAt_nth:
  assumes "0 \<le> i"
  shows "MultiValueAttribute_GetValueAt a i =
    (if nat i < length (at_values a) then Some (at_values a ! nat i) else None)"
  using assms uint_word_of_int_le [OF assms]
  by (auto simp: MultiValueAttribute_GetValueAt_def nth_loop_eq)

interpretation attr_values: enumeration MultiValueAttribute_GetValueAt at_values
  by unfold_locales (rule GetValueAt_nth)

interpretation section_attrs: enumeration ConfigSection_GetAttributeAt cs_attributes
  by unfold_locales (auto simp: ConfigSection_GetAttributeAt_def nth_loop_eq)

lemma at_name_AddValue [simp]: "at_name (MultiValueAttribute_AddValue v a) = at_name a"
  by (simp add: MultiValueAttribute_AddValue_def)

lemma cs_name_GetAttribute [simp]: "cs_name (ConfigSection_GetAttribute n f s) = cs_name s"
  by (simp add: ConfigSection_GetAttribute_def)

lemma ReadAttribute_eq:
  "ConfigSection_ReadAttribute name s =
     (case find_first (\<lambda>a. at_name a = name) (cs_attributes s) of
        Some a \<Rightarrow> a | None \<Rightarrow> MultiValueAttribute_new name)"
  by (simp add: ConfigSection_ReadAttribute_def ConfigSection_GetAttribute_def
      attrs.lookup_upsert_same split: option.split)

lemma FindSection_upsert: "ConfigData_FindSection = ConfigData_AddSection"
proof (intro ext)
  fix name f d
  have "find_first (\<lambda>s. cs_name s = name) xs = Some s \<Longrightarrow>
      update_first (\<lambda>s. cs_name s = name) f xs = upsert cs_name ConfigSection_new name f xs" for xs s
    by (induction xs) (auto split: if_splits)
  then show "ConfigData_FindSection name f d = ConfigData_AddSection name f d"
    by (simp add: ConfigData_FindSection_def ConfigData_AddSection_def split: option.split)
qed

lemma GetSection_eq:
  "fst (ConfigFile_GetSection name d) =
     (case find_first (\<lambda>s. cs_name s = name) (cd_sections d) of
        Some s \<Rightarrow> s | None \<Rightarrow> ConfigSection_new name)"
  by (simp add: ConfigFile_GetSection_def Let_def FindSection_upsert ConfigData_AddSection_def
      sections.lookup_upsert_same split: option.split)

end
