(* ===== verification/ConfigParser.thy ===== *)
theory ConfigParser
  imports ConfigFile
begin

text \<open>
  \<open>ConfigFile::LoadData\<close>: the line parser of the configuration file, working in place on the
  line buffer as the code does (a store of NUL is a list update). \<open>keyName\<close> and \<open>value\<close> are
  uninitialised arrays of each line: what they hold on entry is the argument \<open>junk\<close>, by line
  number. The file system is the argument \<open>fs\<close>, as for the blacklists.
\<close>

section \<open>The parser\<close>

definition add_entry :: "string \<Rightarrow> string \<Rightarrow> string \<Rightarrow> config_data \<Rightarrow> config_data" where
  "add_entry sectionName keyName value d =
     ConfigData_FindSection sectionName
       (ConfigSection_GetAttribute keyName (MultiValueAttribute_AddValue value)) d"

text \<open>The loop over the comma-separated values; \<open>value\<close> keeps its contents between rounds.\<close>

function value_loop ::
  "string \<Rightarrow> string \<Rightarrow> string \<Rightarrow> string \<Rightarrow> config_data \<Rightarrow> config_data res" where
  "value_loop sectionName keyName value valuetmp d =
     (case strchr valuetmp (CHR '','') of
        None \<Rightarrow> bind_res (scan_word 1024 valuetmp value)
                  (\<lambda>(rc, v). Inr (add_entry sectionName keyName v d))
      | Some nextValue \<Rightarrow>
          bind_res (scan_word 1024 (valuetmp[nextValue := NUL]) value)
            (\<lambda>(rc, v). value_loop sectionName keyName v (drop (nextValue + 1) valuetmp)
                        (add_entry sectionName keyName v d)))"
  by pat_completeness auto
termination
  by (relation "measure (\<lambda>(_, _, _, valuetmp, _). length valuetmp)") (auto dest: strchr_Some)

declare value_loop.simps [simp del]

text \<open>One line: whether parsing stops, the section name buffer and the data.\<close>

definition load_line ::
  "string \<times> string \<Rightarrow> string \<Rightarrow> string \<Rightarrow> config_data \<Rightarrow> (bool \<times> string \<times> config_data) res" where
  "load_line junk line sectionName d =
     (let lineBuf = put_NUL (CHR ''#'') line in
      case (strchr lineBuf (CHR ''[''), strrchr lineBuf (CHR '']'')) of
        (Some sectionPtr, Some sectionEndPtr) \<Rightarrow>
          (let buf = lineBuf[sectionPtr := NUL, sectionEndPtr := NUL]
           in bind_res (scan_word 1024 (drop (sectionPtr + 1) buf) sectionName)
                (\<lambda>(nread, name).
                   if nread = 0 then Inr (True, name, d)
                   else Inr (False, name, ConfigData_AddSection name (\<lambda>s. s) d)))
      | _ \<Rightarrow>
          (case strchr lineBuf (CHR '':'') of
             None \<Rightarrow> bind_res (scan_word 1024 lineBuf (snd junk))
                       (\<lambda>(n, _). Inr (n = 1, sectionName, d))
           | Some valuePtr \<Rightarrow>
               bind_res (scan_word 1024 (lineBuf[valuePtr := NUL]) (fst junk))
                 (\<lambda>(_, keyName).
                    bind_res (value_loop sectionName keyName (snd junk)
                                (drop (valuePtr + 1) lineBuf) d)
                      (\<lambda>d'. Inr (False, sectionName, d')))))"

fun load_lines ::
  "(nat \<Rightarrow> string \<times> string) \<Rightarrow> nat \<Rightarrow> string list \<Rightarrow> string \<Rightarrow> config_data \<Rightarrow> config_data res" where
  "load_lines junk n [] sectionName d = Inr d"
| "load_lines junk n (l # ls) sectionName d =
     bind_res (load_line (junk n) l sectionName d)
       (\<lambda>(done, name, d'). if done then Inr d' else load_lines junk (Suc n) ls name d')"

definition ConfigFile_LoadData ::
  "(nat \<Rightarrow> string \<times> string) \<Rightarrow> (string \<Rightarrow> string option) \<Rightarrow> string \<Rightarrow> config_data \<Rightarrow>
   config_data res" where
  "ConfigFile_LoadData junk fs path d =
     (case fs path of
        None \<Rightarrow> Inr d
      | Some content \<Rightarrow> load_lines junk 0 (getlines content) [] d)"

section \<open>Lines of a well-formed file\<close>

text \<open>A name or value that can be written to a configuration file and read back.\<close>

definition plain_word :: "string \<Rightarrow> bool" where
  "plain_word s \<longleftrightarrow> is_token s \<and> length s < 1024 \<and> set s \<inter> set ''#[]:,'' = {}"

fun render_values :: "string list \<Rightarrow> string" where
  "render_values [] = []"
| "render_values [v] = v"
| "render_values (v # vs) = v @ CHR '','' # render_values vs"

definition render_attribute :: "attribute \<Rightarrow> string" where
  "render_attribute a = at_name a @ CHR '':'' # render_values (at_values a) @ [LF]"

definition render_section :: "config_section \<Rightarrow> string" where
  "render_section s =
     (CHR ''['' # cs_name s @ [CHR '']'', LF]) @ concat (map render_attribute (cs_attributes s))"

definition render_config :: "config_data \<Rightarrow> string" where
  "render_config d = concat (map render_section (cd_sections d))"

definition wf_attribute :: "attribute \<Rightarrow> bool" where
  "wf_attribute a \<longleftrightarrow>
     plain_word (at_name a) \<and> at_values a \<noteq> [] \<and> (\<forall>v\<in>set (at_values a). plain_word v)"

definition wf_section :: "config_section \<Rightarrow> bool" where
  "wf_section s \<longleftrightarrow> plain_word (cs_name s) \<and> distinct (map at_name (cs_attributes s)) \<and>
     (\<forall>a\<in>set (cs_attributes s). wf_attribute a)"

definition wf_config :: "config_data \<Rightarrow> bool" where
  "wf_config d \<longleftrightarrow> distinct (map cs_name (cd_sections d)) \<and> (\<forall>s\<in>set (cd_sections d). wf_section s)"

lemma plain_wordD:
  assumes "plain_word s"
  shows "is_token s" and "length s < 1024" and "NUL \<notin> set s" and "LF \<notin> set s"
    and "CHR ''#'' \<notin> set s" and "CHR ''['' \<notin> set s" and "CHR '']'' \<notin> set s"
    and "CHR '':'' \<notin> set s" and "CHR '','' \<notin> set s"
  using assms is_tokenD [of s] by (auto simp: plain_word_def isspace_def)

lemma render_values_chars:
  assumes "\<forall>v\<in>set vs. plain_word v" and "c \<in> {NUL, LF, CHR ''#'', CHR ''['', CHR '']''}"
  shows "c \<notin> set (render_values vs)"
  using assms by (induction vs rule: render_values.induct) (auto dest: plain_wordD)

lemma put_NUL_absent [clib]: "NUL \<notin> set s \<Longrightarrow> c \<notin> set s \<Longrightarrow> put_NUL c s = s"
  by (simp add: put_NUL_def strchr_None)

text \<open>The value loop on \<open>v1,...,vn\<close> and a newline adds the values in order.\<close>

lemma value_loop_values:
  assumes "vs \<noteq> []" and "\<forall>v\<in>set vs. plain_word v"
  shows "value_loop sec key old (render_values vs @ [LF]) d =
    Inr (fold (add_entry sec key) vs d)"
  using assms
proof (induction vs arbitrary: old d rule: render_values.induct)
  case (2 v)
  then have v: "plain_word v" by simp
  have "strchr (v @ [LF]) CHR '','' = None"
    using plain_wordD [OF v] by (intro strchr_None) auto
  then show ?case
    using plain_wordD [OF v] by (subst value_loop.simps) (simp add: scan_word_plain isspace_def)
next
  case (3 v w vs)
  then have v: "plain_word v" by simp
  let ?r = "render_values (w # vs) @ [LF]"
  have split: "render_values (v # w # vs) @ [LF] = v @ CHR '','' # ?r" by simp
  have "strchr (v @ CHR '','' # ?r) CHR '','' = Some (length v)"
    using plain_wordD [OF v] by (intro strchr_append) auto
  moreover have "(v @ CHR '','' # ?r)[length v := NUL] = v @ NUL # ?r"
    by (simp add: list_update_append)
  ultimately show ?case
    using 3 plain_wordD [OF v] unfolding split
    by (subst value_loop.simps) (simp add: scan_word_plain)
qed simp

lemma load_line_attribute:
  assumes "wf_attribute a"
  shows "load_line junk (render_attribute a) sec d =
    Inr (False, sec, fold (add_entry sec (at_name a)) (at_values a) d)"
proof -
  let ?k = "at_name a" and ?vs = "at_values a"
  let ?r = "render_values ?vs @ [LF]"
  note k = plain_wordD [of ?k]
  have vs: "?vs \<noteq> []" "\<forall>v\<in>set ?vs. plain_word v" and pk: "plain_word ?k"
    using assms by (simp_all add: wf_attribute_def)
  have r: "NUL \<notin> set ?r" "CHR ''#'' \<notin> set ?r" "CHR ''['' \<notin> set ?r"
    using render_values_chars [OF vs(2)] by auto
  have line: "put_NUL (CHR ''#'') (render_attribute a) = ?k @ CHR '':'' # ?r"
    using k [OF pk] r by (auto simp: render_attribute_def intro!: put_NUL_absent)
  have "strchr (?k @ CHR '':'' # ?r) CHR ''['' = None"
    using k [OF pk] r by (intro strchr_None) auto
  moreover have "strchr (?k @ CHR '':'' # ?r) CHR '':'' = Some (length ?k)"
    using k [OF pk] by (intro strchr_append) auto
  moreover have "(?k @ CHR '':'' # ?r)[length ?k := NUL] = ?k @ NUL # ?r"
    by (simp add: list_update_append)
  ultimately show ?thesis
    using k [OF pk] value_loop_values [OF vs]
    by (simp add: load_line_def line scan_word_plain)
qed

lemma load_line_section:
  assumes "plain_word n"
  shows "load_line junk (CHR ''['' # n @ [CHR '']'', LF]) sec d =
    Inr (False, n, ConfigData_AddSection n (\<lambda>s. s) d)"
proof -
  note n = plain_wordD [OF assms]
  let ?l = "CHR ''['' # n @ [CHR '']'', LF]"
  have line: "put_NUL (CHR ''#'') ?l = ?l"
    using n by (intro put_NUL_absent) auto
  have "strrchr (n @ CHR '']'' # [LF]) CHR '']'' = Some (length n)"
    using n by (intro strrchr_append) auto
  then have "strrchr ?l CHR '']'' = Some (Suc (length n))" by simp
  moreover have "?l[0 := NUL, Suc (length n) := NUL] = NUL # n @ [NUL, LF]"
    by (simp add: list_update_append)
  ultimately show ?thesis
    using n by (simp add: load_line_def line scan_word_plain)
qed

section \<open>Round trip\<close>

lemma add_entry_eq:
  "add_entry sec k v d =
     d\<lparr>cd_sections := upsert cs_name ConfigSection_new sec
        (ConfigSection_GetAttribute k (MultiValueAttribute_AddValue v)) (cd_sections d)\<rparr>"
  by (simp add: add_entry_def FindSection_upsert ConfigData_AddSection_def)

lemma add_entry_last:
  assumes "cd_sections d = D @ [s]" and "cs_name s \<notin> cs_name ` set D"
  shows "add_entry (cs_name s) k v d =
    d\<lparr>cd_sections := D @ [ConfigSection_GetAttribute k (MultiValueAttribute_AddValue v) s]\<rparr>"
  using assms by (simp add: add_entry_eq sections.upsert_last)

lemma fold_AddValue: "at_values (fold MultiValueAttribute_AddValue vs a) = at_values a @ vs"
  "at_name (fold MultiValueAttribute_AddValue vs a) = at_name a"
  by (induction vs arbitrary: a) (simp_all add: MultiValueAttribute_AddValue_def)

lemma GetAttribute_GetAttribute:
  assumes "\<And>a. at_name (f a) = at_name a"
  shows "ConfigSection_GetAttribute k g (ConfigSection_GetAttribute k f s) =
    ConfigSection_GetAttribute k (\<lambda>a. g (f a)) s"
  using assms by (simp add: ConfigSection_GetAttribute_def attrs.upsert_upsert)

lemma fold_add_entry:
  assumes "cd_sections d = D @ [s]" and "cs_name s \<notin> cs_name ` set D" and "vs \<noteq> []"
  shows "fold (add_entry (cs_name s) k) vs d =
    d\<lparr>cd_sections := D @ [ConfigSection_GetAttribute k (fold MultiValueAttribute_AddValue vs) s]\<rparr>"
  using assms(1,3)
proof (induction vs rule: rev_induct)
  case (snoc v vs)
  let ?add = MultiValueAttribute_AddValue
  show ?case
  proof (cases "vs = []")
    case True
    with snoc assms(2) show ?thesis by (simp add: add_entry_last)
  next
    case False
    let ?s = "ConfigSection_GetAttribute k (fold ?add vs) s"
    have "add_entry (cs_name ?s) k v (d\<lparr>cd_sections := D @ [?s]\<rparr>) =
        d\<lparr>cd_sections := D @ [ConfigSection_GetAttribute k (?add v) ?s]\<rparr>"
      using assms(2) by (subst add_entry_last [where D = D and s = ?s]) simp_all
    with snoc False show ?thesis
      by (simp add: GetAttribute_GetAttribute fold_AddValue comp_def)
  qed
qed simp

lemma GetAttribute_fresh:
  assumes "at_name a \<notin> at_name ` set (cs_attributes s)"
  shows "ConfigSection_GetAttribute (at_name a) (fold MultiValueAttribute_AddValue (at_values a)) s =
    s\<lparr>cs_attributes := cs_attributes s @ [a]\<rparr>"
proof -
  let ?new = "MultiValueAttribute_new (at_name a)"
  have "fold MultiValueAttribute_AddValue (at_values a) ?new = a"
    by (intro attribute.equality) (simp_all add: fold_AddValue MultiValueAttribute_new_def)
  with assms show ?thesis
    by (simp add: ConfigSection_GetAttribute_def attrs.upsert_fresh)
qed

lemma getlines_attribute:
  assumes "wf_attribute a"
  shows "getlines (render_attribute a @ r) = render_attribute a # getlines r"
proof -
  have "LF \<notin> set (at_name a @ CHR '':'' # render_values (at_values a))"
    using assms render_values_chars [of "at_values a" LF]
    by (auto simp: wf_attribute_def dest: plain_wordD)
  from getlines_line [OF this, of r] show ?thesis by (simp add: render_attribute_def)
qed

lemma load_lines_attributes:
  assumes "\<forall>a\<in>set as. wf_attribute a" and "cd_sections d = D @ [s]"
    and "cs_name s \<notin> cs_name ` set D" and "distinct (map at_name (cs_attributes s @ as))"
  shows "load_lines junk n (getlines (concat (map render_attribute as) @ r)) (cs_name s) d =
    load_lines junk (n + length as) (getlines r) (cs_name s)
      (d\<lparr>cd_sections := D @ [s\<lparr>cs_attributes := cs_attributes s @ as\<rparr>]\<rparr>)"
  using assms
proof (induction "as" arbitrary: n d s)
  case Nil
  have "d\<lparr>cd_sections := D @ [s]\<rparr> = d" unfolding Nil(2) [symmetric] by simp
  then show ?case by simp
next
  case (Cons a "as")
  let ?s = "s\<lparr>cs_attributes := cs_attributes s @ [a]\<rparr>"
  from Cons.prems have a: "wf_attribute a" "at_name a \<notin> at_name ` set (cs_attributes s)"
    "at_values a \<noteq> []"
    by (auto simp: wf_attribute_def)
  have "fold (add_entry (cs_name s) (at_name a)) (at_values a) d = d\<lparr>cd_sections := D @ [?s]\<rparr>"
    using Cons.prems a by (simp add: fold_add_entry GetAttribute_fresh)
  then have "load_lines junk n (getlines (concat (map render_attribute (a # as)) @ r)) (cs_name s) d =
      load_lines junk (Suc n) (getlines (concat (map render_attribute as) @ r)) (cs_name ?s)
        (d\<lparr>cd_sections := D @ [?s]\<rparr>)"
    using a by (simp add: getlines_attribute load_line_attribute)
  also have "\<dots> = load_lines junk (Suc n + length as) (getlines r) (cs_name ?s)
      (d\<lparr>cd_sections := D @ [s\<lparr>cs_attributes := cs_attributes s @ a # as\<rparr>]\<rparr>)"
    using Cons.prems by (subst Cons.IH) simp_all
  finally show ?case by simp
qed

lemma load_lines_section:
  assumes "wf_section s" and "cs_name s \<notin> cs_name ` set (cd_sections d)"
  shows "\<exists>n'. load_lines junk n (getlines (render_section s @ r)) sec d =
    load_lines junk n' (getlines r) (cs_name s) (d\<lparr>cd_sections := cd_sections d @ [s]\<rparr>)"
proof -
  let ?new = "ConfigSection_new (cs_name s)"
  have name: "plain_word (cs_name s)" using assms by (simp add: wf_section_def)
  have head: "getlines (CHR ''['' # cs_name s @ CHR '']'' # LF # t) =
      (CHR ''['' # cs_name s @ [CHR '']'', LF]) # getlines t" for t
    using getlines_line [of "CHR ''['' # cs_name s @ [CHR '']'']" t] plain_wordD [OF name] by simp
  have add: "ConfigData_AddSection (cs_name s) (\<lambda>s. s) d =
      d\<lparr>cd_sections := cd_sections d @ [?new]\<rparr>"
    using assms(2) by (simp add: ConfigData_AddSection_def sections.upsert_fresh)
  have new: "cs_name ?new = cs_name s" "cs_attributes ?new = []"
    by (simp_all add: ConfigSection_new_def)
  have whole: "?new\<lparr>cs_attributes := cs_attributes s\<rparr> = s"
    by (simp add: ConfigSection_new_def)
  have "load_lines junk m (getlines (concat (map render_attribute (cs_attributes s)) @ r))
        (cs_name s) (d\<lparr>cd_sections := cd_sections d @ [?new]\<rparr>) =
      load_lines junk (m + length (cs_attributes s)) (getlines r) (cs_name s)
        (d\<lparr>cd_sections := cd_sections d @ [s]\<rparr>)" for m
    using load_lines_attributes [of "cs_attributes s" "d\<lparr>cd_sections := cd_sections d @ [?new]\<rparr>"
        "cd_sections d" ?new junk m r] assms new by (simp add: wf_section_def whole)
  then show ?thesis
    using load_line_section [OF name] by (auto simp: render_section_def head add)
qed

lemma config_data_eta: "ConfigData_new\<lparr>cd_sections := cd_sections d\<rparr> = d"
  by (cases d) (simp add: ConfigData_new_def)

lemma load_lines_config:
  assumes "\<forall>s\<in>set ss. wf_section s" and "distinct (map cs_name (cd_sections d @ ss))"
  shows "\<exists>n' sec'. load_lines junk n (getlines (concat (map render_section ss) @ r)) sec d =
    load_lines junk n' (getlines r) sec' (d\<lparr>cd_sections := cd_sections d @ ss\<rparr>)"
  using assms
proof (induction ss arbitrary: n sec d)
  case Nil
  then show ?case by auto
next
  case (Cons s ss)
  have "cs_name s \<notin> cs_name ` set (cd_sections d)" and "wf_section s" using Cons.prems by auto
  from load_lines_section [OF this(2,1), of junk n "concat (map render_section ss) @ r" sec]
  obtain m where m: "load_lines junk n (getlines (concat (map render_section (s # ss)) @ r)) sec d =
      load_lines junk m (getlines (concat (map render_section ss) @ r)) (cs_name s)
        (d\<lparr>cd_sections := cd_sections d @ [s]\<rparr>)"
    by auto
  then show ?case
    using Cons.IH [of "d\<lparr>cd_sections := cd_sections d @ [s]\<rparr>" m "cs_name s"] Cons.prems
    by (auto simp: m)
qed

text \<open>
  C29: A configuration can be written to a file and loaded back. For data whose names and
  values are words of 1 to 1023 bytes without spaces, NUL and the syntax characters, whose section
  names differ, whose attribute names differ within a section and whose attributes each have at
  least one value, loading the printed file into an empty
  configuration gives exactly the data, with no fault and whatever the uninitialised buffers
  hold.
\<close>

theorem config_print_load:
  assumes "wf_config d" and "fs path = Some (render_config d)"
  shows "ConfigFile_LoadData junk fs path ConfigData_new = Inr d"
  using assms load_lines_config [of "cd_sections d" ConfigData_new junk 0 "[]" "[]"]
  by (auto simp: ConfigFile_LoadData_def render_config_def wf_config_def ConfigData_new_def)

theorem config_print_load_witness:
  "ConfigFile_LoadData (\<lambda>_. (''x'', ''y''))
     (Map.empty(''a.conf'' \<mapsto> render_config \<lparr>cd_sections =
        [\<lparr>cs_name = ''Proxy'', cs_attributes =
           [\<lparr>at_name = ''port'', at_values = [''10080'']\<rparr>,
            \<lparr>at_name = ''global_domains'', at_values = [''ads'', ''spam'']\<rparr>]\<rparr>]\<rparr>))
     ''a.conf'' ConfigData_new =
   Inr \<lparr>cd_sections =
        [\<lparr>cs_name = ''Proxy'', cs_attributes =
           [\<lparr>at_name = ''port'', at_values = [''10080'']\<rparr>,
            \<lparr>at_name = ''global_domains'', at_values = [''ads'', ''spam'']\<rparr>]\<rparr>]\<rparr>"
  by (rule config_print_load)
     (simp_all add: wf_config_def wf_section_def wf_attribute_def plain_word_def is_token_def
       isspace_def)

section \<open>Other lines\<close>

lemma load_line_word:
  assumes "plain_word w" and "length (snd junk) < 1024"
  shows "load_line junk (w @ [LF]) sec d = Inr (True, sec, d)"
proof -
  note w = plain_wordD [OF assms(1)]
  have "put_NUL (CHR ''#'') (w @ [LF]) = w @ [LF]"
    using w by (intro put_NUL_absent) auto
  moreover have "strchr (w @ [LF]) c = None" if "c \<in> {CHR ''['', CHR '':''}" for c
    using w that by (intro strchr_None) auto
  ultimately show ?thesis
    using w assms(2) by (simp add: load_line_def scan_word_plain isspace_def)
qed

text \<open>
  A line that holds a word but no colon ends the parsing: every section and attribute
  after it is ignored without an error.
\<close>

theorem config_stops_at_bare_word:
  assumes "wf_config d" and "plain_word w" and "\<And>n. length (snd (junk n)) < 1024"
    and "fs path = Some (render_config d @ w @ LF # rest)"
  shows "ConfigFile_LoadData junk fs path ConfigData_new = Inr d"
proof -
  have new: "cd_sections ConfigData_new = []" by (simp add: ConfigData_new_def)
  obtain n sec where "ConfigFile_LoadData junk fs path ConfigData_new =
      load_lines junk n (getlines (w @ LF # rest)) sec d"
    using assms(1,4) load_lines_config [of "cd_sections d" ConfigData_new junk 0 "w @ LF # rest" "[]"]
    by (auto simp: ConfigFile_LoadData_def render_config_def wf_config_def config_data_eta new)
  then show ?thesis
    using assms(2,3) plain_wordD [OF assms(2)]
    by (simp add: getlines_line load_line_word)
qed

theorem config_stops_at_bare_word_witness:
  "ConfigFile_LoadData (\<lambda>_. ([], []))
     (Map.empty(''a.conf'' \<mapsto> ''stray'' @ LF # ''[Proxy]'')) ''a.conf'' ConfigData_new =
   Inr ConfigData_new"
  using config_stops_at_bare_word [of ConfigData_new "''stray''" "\<lambda>_. ([], [])"
      "Map.empty(''a.conf'' \<mapsto> ''stray'' @ LF # ''[Proxy]'')" "''a.conf''" "''[Proxy]''"]
  by (simp add: wf_config_def ConfigData_new_def plain_word_def is_token_def isspace_def
      render_config_def)

text \<open>
  An attribute with no value is not read as empty: the entry gets whatever the
  uninitialised value buffer happens to hold.
\<close>

theorem config_empty_value_is_junk:
  assumes "plain_word k" and "length (snd junk) < 1024"
  shows "load_line junk (k @ [CHR '':'', LF]) sec d = Inr (False, sec, add_entry sec k (snd junk) d)"
proof -
  note k = plain_wordD [OF assms(1)]
  let ?l = "k @ [CHR '':'', LF]"
  have "put_NUL (CHR ''#'') ?l = ?l" using k by (intro put_NUL_absent) auto
  moreover have "strchr ?l CHR ''['' = None" using k by (intro strchr_None) auto
  moreover have "strchr ?l CHR '':'' = Some (length k)"
    using strchr_append [of k "CHR '':''" "[LF]"] k by simp
  moreover have "?l[length k := NUL] = k @ NUL # [LF]" by (simp add: list_update_append)
  moreover have "sscanf [LF] [DStr None] = (- 1, [])"
    by (rule sscanf_blank) (simp add: cstr_def isspace_def)
  then have "value_loop sec k (snd junk) [LF] d = Inr (add_entry sec k (snd junk) d)"
    using assms(2) by (subst value_loop.simps)
      (simp add: scan_word_def str_arg_def store_str_def)
  ultimately show ?thesis
    using k by (simp add: load_line_def scan_word_plain)
qed

theorem config_empty_value_is_junk_witness:
  "load_line ([], ''stale'') (''port'' @ [CHR '':'', LF]) ''Proxy'' ConfigData_new =
   Inr (False, ''Proxy'', add_entry ''Proxy'' ''port'' ''stale'' ConfigData_new)"
  using config_empty_value_is_junk [of "''port''" "([], ''stale'')"]
  by (simp add: plain_word_def is_token_def isspace_def)

end
