(* ===== verification/Base64.thy ===== *)
theory Base64
  imports CLib
begin

unbundle bit_operations_syntax

text \<open>
  \<open>AuthManager::Base64Decode\<close> of \<open>UserAuth.cpp\<close>: a 24-bit group is shifted together in a
  32-bit register and stored as three bytes. The stores are checked against the size of the
  array, and the decoder is related to an encoder in the style of RFC 4648.
\<close>

section \<open>The decoder\<close>

definition b64_value :: "char \<Rightarrow> u32 option" where
  "b64_value ch =
     (let n = (of_char ch :: nat) in
      if 65 \<le> n \<and> n \<le> 90 then Some (of_nat (n - 65))
      else if 97 \<le> n \<and> n \<le> 122 then Some (of_nat (n - 97) + 26)
      else if 48 \<le> n \<and> n \<le> 57 then Some (of_nat (n - 48) + 52)
      else if ch = CHR ''+'' then Some 62
      else if ch = CHR ''/'' then Some 63
      else None)"

text \<open>The conversion \<open>std::uint8_t(w)\<close>.\<close>

definition low_byte :: "u32 \<Rightarrow> char" where
  "low_byte w = char_of (unat (ucast w :: u8))"

text \<open>The register after one character, or \<^term>\<open>None\<close> for an invalid one.\<close>

definition b64_sextet :: "u32 \<Rightarrow> char \<Rightarrow> u32 option" where
  "b64_sextet tmp ch =
     (if ch = CHR ''='' then Some tmp
      else map_option (\<lambda>c. tmp OR (c AND 0x3F)) (b64_value ch))"

text \<open>
  The loop: \<open>cap\<close> is the size of the array behind \<open>rc\<close>, \<open>out\<close> what lies between \<open>rc\<close> and
  \<open>dst\<close>. The index is an \<open>int\<close> and overflows at the largest number. The result is \<^term>\<open>None\<close> at an
  invalid character.
\<close>

fun b64_loop ::
  "nat \<Rightarrow> string \<Rightarrow> nat \<Rightarrow> u32 \<Rightarrow> string \<Rightarrow> (nat \<times> string) option res" where
  "b64_loop cap [] idx tmp out = Inr (Some (idx, out))"
| "b64_loop cap (ch # rest) idx tmp out =
     (if ch = NUL then Inr (Some (idx, out))
      else if 2 ^ 31 - 1 \<le> idx then Inl IntOverflow
      else case b64_sextet tmp ch of
             None \<Rightarrow> Inr None
           | Some t \<Rightarrow>
               if Suc idx mod 4 = 0
               then if length out + 3 \<le> cap
                    then b64_loop cap rest (Suc idx) 0
                           (out @ [low_byte (drop_bit 16 t), low_byte (drop_bit 8 t),
                                   low_byte (t AND 0xFF)])
                    else Inl BufferOverflow
               else b64_loop cap rest (Suc idx) (push_bit 6 t) out)"

text \<open>
  The result is \<^term>\<open>None\<close> for a null pointer, otherwise the whole array, zeroed past the
  decoded bytes, and the decoded size. The size of the array is computed in 64 bits and cut to an
  \<open>int\<close>, to which three is added; the allocation throws for a negative number.
\<close>

definition Base64Decode :: "string \<Rightarrow> (string \<times> nat) option res" where
  "Base64Decode source =
     (let sz = sint (word_of_nat ((length source * 3 + 3) mod 2 ^ 64 div 4) :: u32) in
      if 2 ^ 31 \<le> sz + 3 then Inl IntOverflow
      else if sz + 3 < 0 then Inl Uncaught
      else
        let cap = nat (sz + 3) in
        bind_res (b64_loop cap source 0 0 [])
          (\<lambda>r. case r of
                 None \<Rightarrow> Inr None
               | Some (idx, out) \<Rightarrow>
                   if idx mod 4 \<noteq> 0 then Inr None
                   else Inr (Some (out @ replicate (cap - length out) NUL, length out))))"

text \<open>Below \<open>2^31\<close> characters nothing is cut.\<close>

lemma Base64Decode_small:
  assumes "length source < 2 ^ 31"
  shows "Base64Decode source = (let cap = (length source * 3 + 3) div 4 + 3 in
    bind_res (b64_loop cap source 0 0 [])
      (\<lambda>r. case r of
             None \<Rightarrow> Inr None
           | Some (idx, out) \<Rightarrow>
               if idx mod 4 \<noteq> 0 then Inr None
               else Inr (Some (out @ replicate (cap - length out) NUL, length out))))"
proof -
  let ?n = "(length source * 3 + 3) div 4"
  have n: "?n < 2 ^ 31 - 3" using assms by simp
  have m: "(length source * 3 + 3) mod 2 ^ 64 = length source * 3 + 3" using assms by simp
  have "signed_take_bit 31 (int ?n) = int ?n"
    using n by (intro signed_take_bit_int_eq_self) simp_all
  then have "sint (word_of_nat ?n :: u32) = int ?n" by (simp add: signed_of_nat)
  then show ?thesis unfolding Base64Decode_def m using n by (simp add: Let_def nat_add_distrib)
qed

section \<open>Stores stay in the array\<close>

lemma b64_loop_in_bounds:
  assumes "length out = 3 * (idx div 4)" and "4 * cap \<ge> 3 * (idx + length s)" and "idx + length s < 2 ^ 31"
  shows "b64_loop cap s idx tmp out \<noteq> Inl e"
  using assms
proof (induction cap s idx tmp out rule: b64_loop.induct)
  case (2 cap ch rest idx tmp out)
  show ?case
  proof (cases "Suc idx mod 4 = 0")
    case True
    then have d: "Suc idx div 4 = Suc (idx div 4)" and m: "4 * (Suc idx div 4) = Suc idx"
      by presburger+
    with "2.prems" have "length out + 3 \<le> cap" by simp
    then show ?thesis using 2 d True by (simp split: option.split)
  next
    case False
    then have "Suc idx div 4 = idx div 4" by presburger
    then show ?thesis using 2 False by (simp split: option.split)
  qed
qed simp

text \<open>
  C22: Decoding never stores outside the array it allocates, for any source of fewer than \<open>2^31\<close>
  characters, far more than the callers pass: neither the size nor the index, both \<open>int\<close>, is cut or
  overflows, and the call returns, with a null pointer or with the bytes.
\<close>

theorem Base64Decode_safe:
  assumes "length source < 2 ^ 31"
  shows "\<exists>r. Base64Decode source = Inr r"
proof -
  let ?cap = "(length source * 3 + 3) div 4 + 3"
  have "3 * length source \<le> 4 * ?cap" by presburger
  then have "b64_loop ?cap source 0 0 [] \<noteq> Inl e" for e
    using assms by (intro b64_loop_in_bounds) simp_all
  then obtain r where "b64_loop ?cap source 0 0 [] = Inr r"
    by (cases "b64_loop ?cap source 0 0 []") auto
  then show ?thesis by (auto simp: Base64Decode_small [OF assms] Let_def split: option.split)
qed

theorem Base64Decode_safe_witness: "\<exists>r. Base64Decode ''dTpw'' = Inr r"
  by (rule Base64Decode_safe) simp

section \<open>Decoding an encoding\<close>

definition b64_alphabet :: string where
  "b64_alphabet = ''ABCDEFGHIJKLMNOPQRSTUVWXYZabcdefghijklmnopqrstuvwxyz0123456789+/''"

definition b64_char :: "nat \<Rightarrow> char" where
  "b64_char n = b64_alphabet ! n"

fun b64_encode :: "string \<Rightarrow> string" where
  "b64_encode [] = []"
| "b64_encode [a] =
     (let x = of_char a in [b64_char (x div 4), b64_char (x mod 4 * 16), CHR ''='', CHR ''=''])"
| "b64_encode [a, b] =
     (let x = of_char a; y = of_char b
      in [b64_char (x div 4), b64_char (x mod 4 * 16 + y div 16), b64_char (y mod 16 * 4), CHR ''=''])"
| "b64_encode (a # b # c # r) =
     (let x = of_char a; y = of_char b; z = of_char c
      in [b64_char (x div 4), b64_char (x mod 4 * 16 + y div 16),
          b64_char (y mod 16 * 4 + z div 64), b64_char (z mod 64)] @ b64_encode r)"

definition b64_ok :: "nat \<Rightarrow> bool" where
  "b64_ok n \<longleftrightarrow> b64_value (b64_char n) = Some (of_nat n) \<and> b64_char n \<noteq> NUL \<and> b64_char n \<noteq> CHR ''=''"

lemma b64_ok_all: "list_all b64_ok [0..<64]"
  by code_simp

lemma b64_value_char:
  assumes "n < 64"
  shows "b64_value (b64_char n) = Some (of_nat n)" and "b64_char n \<noteq> NUL"
    and "b64_char n \<noteq> CHR ''=''"
proof -
  have "b64_ok n" using b64_ok_all assms by (simp add: list_all_iff)
  then show "b64_value (b64_char n) = Some (of_nat n)" and "b64_char n \<noteq> NUL"
    and "b64_char n \<noteq> CHR ''=''"
    by (simp_all add: b64_ok_def)
qed

text \<open>Shifting a sextet in is multiplying by 64 and adding, below 26 bits.\<close>

lemma or_sextet_nat:
  assumes "n < 64"
  shows "push_bit 6 t OR n = 64 * t + (n::nat)"
proof -
  have n: "take_bit 6 n = n" using assms by (simp add: take_bit_nat_eq_self_iff)
  have "push_bit 6 t AND take_bit 6 n = 0"
    by (rule bit_eqI) (auto simp: bit_simps)
  then have "push_bit 6 t + n = push_bit 6 t OR n"
    unfolding n by (rule disjunctive_add_eq_or)
  then show ?thesis by (simp add: push_bit_eq_mult)
qed

lemma unat_sextet:
  assumes "unat t < 2 ^ 26" and "n < 64"
  shows "unat (push_bit 6 t OR ((of_nat n :: u32) AND 0x3F)) = 64 * unat t + n"
proof -
  have n: "take_bit 6 n = n" using assms by (simp add: take_bit_nat_eq_self_iff)
  have m: "(0x3F :: nat) = mask 6" by (simp add: mask_eq_exp_minus_1)
  have "unat ((of_nat n :: u32) AND 0x3F) = n"
    using assms(2) n by (simp add: unsigned_and_eq m take_bit_eq_mask [symmetric] unat_of_nat)
  moreover have "unat (push_bit 6 t) = push_bit 6 (unat t)"
    unfolding unsigned_push_bit_eq
    using assms(1) by (simp add: take_bit_nat_eq_self_iff push_bit_eq_mult)
  ultimately show ?thesis
    using or_sextet_nat [OF assms(2)] by (simp add: unsigned_or_eq)
qed

text \<open>A character that stands for a sextet: one of the alphabet, or padding for zero.\<close>

definition sextet_char :: "char \<Rightarrow> nat \<Rightarrow> bool" where
  "sextet_char ch n \<longleftrightarrow> n < 64 \<and> ch \<noteq> NUL \<and>
     (\<forall>t. b64_sextet t ch = Some (t OR ((of_nat n :: u32) AND 0x3F)))"

lemma sextet_b64_char [intro]: "n < 64 \<Longrightarrow> sextet_char (b64_char n) n"
  using b64_value_char [of n] by (simp add: sextet_char_def b64_sextet_def)

lemma sextet_padding [intro, simp]: "sextet_char CHR ''='' 0"
  by (simp add: sextet_char_def b64_sextet_def)

lemma low_byte_eq: "low_byte w = char_of (unat w)"
  by (simp add: low_byte_def unsigned_ucast_eq take_bit_eq_mod)

lemma low_byte_parts:
  "low_byte (drop_bit 16 t) = char_of (unat t div 65536)"
  "low_byte (drop_bit 8 t) = char_of (unat t div 256)"
  "low_byte (t AND 0xFF) = char_of (unat t)"
proof -
  have m: "(0xFF :: u32) = mask 8" by (simp add: mask_eq_exp_minus_1)
  have t: "take_bit 32 (unat t) = unat t"
    using unsigned_less [of t] by (simp add: take_bit_nat_eq_self_iff)
  show "low_byte (drop_bit 16 t) = char_of (unat t div 65536)"
    and "low_byte (drop_bit 8 t) = char_of (unat t div 256)"
    unfolding low_byte_eq unsigned_drop_bit_eq by (simp_all add: drop_bit_eq_div t)
  have "unat (t AND 0xFF) = unat t mod 256"
    unfolding m take_bit_eq_mask [symmetric] unsigned_take_bit_eq by (simp add: take_bit_eq_mod)
  then show "low_byte (t AND 0xFF) = char_of (unat t)"
    by (simp add: low_byte_eq)
qed

lemma group_bytes:
  assumes "w1 < 64" and "w2 < 64" and "w3 < (64::nat)" and "N = 64 * (64 * (64 * w0 + w1) + w2) + w3"
  shows "N div 65536 = w0 * 4 + w1 div 16"
    and "N div 256 mod 256 = w1 mod 16 * 16 + w2 div 4"
    and "N mod 256 = w2 mod 4 * 64 + w3"
proof -
  define a b c where "a = w0 * 4 + w1 div 16" and "b = w1 mod 16 * 16 + w2 div 4"
    and "c = w2 mod 4 * 64 + w3"
  have split: "k * w = k * m * (w div m) + k * (w mod m)" for k m w :: nat
    by (metis distrib_left mult.assoc mult_div_mod_eq)
  have "4096 * w1 = 4096 * 16 * (w1 div 16) + 4096 * (w1 mod 16)"
    and "64 * w2 = 64 * 4 * (w2 div 4) + 64 * (w2 mod 4)"
    by (rule split)+
  then have N: "N = 65536 * a + (256 * b + c)"
    unfolding assms(4) a_def b_def c_def by simp
  have "w1 mod 16 < 16" and "w2 div 4 < 16" and "w2 mod 4 < 4"
    using assms(2) by auto
  then have b: "b < 256" and c: "c < 256"
    using assms(3) unfolding b_def c_def by simp_all
  have N': "N = 256 * (256 * a + b) + c" by (simp add: N)
  have "256 * b + c < 65536" using b c by simp
  then have "N div 65536 = a" by (simp add: N)
  moreover have "N div 256 = 256 * a + b" using c by (simp add: N' del: distrib_left_numeral)
  then have "N div 256 mod 256 = b" using b by simp
  moreover have "N mod 256 = c" using c by (simp add: N' del: distrib_left_numeral)
  ultimately show "N div 65536 = w0 * 4 + w1 div 16"
    and "N div 256 mod 256 = w1 mod 16 * 16 + w2 div 4" and "N mod 256 = w2 mod 4 * 64 + w3"
    using b by (simp_all add: a_def b_def c_def)
qed

lemma b64_loop_group:
  assumes "sextet_char c0 w0" and "sextet_char c1 w1" and "sextet_char c2 w2" and "sextet_char c3 w3"
    and "idx mod 4 = 0" and "length out + 3 \<le> cap" and "idx + 4 < 2 ^ 31"
  shows "b64_loop cap (c0 # c1 # c2 # c3 # r) idx 0 out =
    b64_loop cap r (idx + 4) 0
      (out @ [char_of (w0 * 4 + w1 div 16), char_of (w1 mod 16 * 16 + w2 div 4),
              char_of (w2 mod 4 * 64 + w3)])"
proof -
  let ?s = "\<lambda>w. (of_nat w :: u32) AND 0x3F"
  define t0 where "t0 = (0 :: u32) OR ?s w0"
  define t1 where "t1 = push_bit 6 t0 OR ?s w1"
  define t2 where "t2 = push_bit 6 t1 OR ?s w2"
  define t3 where "t3 = push_bit 6 t2 OR ?s w3"
  have w: "w0 < 64" "w1 < 64" "w2 < 64" "w3 < 64" using assms by (simp_all add: sextet_char_def)
  have "push_bit 6 (0 :: u32) = 0" by simp
  then have u0: "unat t0 = w0" using unat_sextet [of 0 w0] w by (simp add: t0_def)
  have u1: "unat t1 = 64 * w0 + w1" using unat_sextet [of t0 w1] w u0 by (simp add: t1_def)
  have u2: "unat t2 = 64 * (64 * w0 + w1) + w2"
    using unat_sextet [of t1 w2] w u1 by (simp add: t2_def)
  have u3: "unat t3 = 64 * (64 * (64 * w0 + w1) + w2) + w3"
    using unat_sextet [of t2 w3] w u2 by (simp add: t3_def)
  have g: "low_byte (drop_bit 16 t3) = char_of (w0 * 4 + w1 div 16)"
    "low_byte (drop_bit 8 t3) = char_of (w1 mod 16 * 16 + w2 div 4)"
    "low_byte (t3 AND 0xFF) = char_of (w2 mod 4 * 64 + w3)"
    using group_bytes [OF w(2-4) u3] char_of_mod_256 [of "unat t3 div 256"]
      char_of_mod_256 [of "unat t3"]
    by (simp_all only: low_byte_parts)
  have m: "Suc idx mod 4 \<noteq> 0" "Suc (Suc idx) mod 4 \<noteq> 0" "Suc (Suc (Suc idx)) mod 4 \<noteq> 0"
    "Suc (Suc (Suc (Suc idx))) mod 4 = 0"
    using assms(5) by presburger+
  have s: "b64_sextet 0 c0 = Some t0" "b64_sextet (push_bit 6 t0) c1 = Some t1"
    "b64_sextet (push_bit 6 t1) c2 = Some t2" "b64_sextet (push_bit 6 t2) c3 = Some t3"
    using assms(1-4) unfolding sextet_char_def t0_def t1_def t2_def t3_def by blast+
  have n: "c0 \<noteq> NUL" "c1 \<noteq> NUL" "c2 \<noteq> NUL" "c3 \<noteq> NUL" using assms by (simp_all add: sextet_char_def)
  have e: "idx + 4 = Suc (Suc (Suc (Suc idx)))" by simp
  have i: "\<not> 2 ^ 31 - 1 \<le> idx" "\<not> 2 ^ 31 - 1 \<le> Suc idx" "\<not> 2 ^ 31 - 1 \<le> Suc (Suc idx)" "\<not> 2 ^ 31 - 1 \<le> Suc (Suc (Suc idx))"
    using assms(7) by simp_all
  show ?thesis using assms(6) by (simp only: b64_loop.simps n s m g e i if_False if_True option.case simp_thms)
qed

lemma of_char_less: "(of_char c :: nat) < 256"
  by (rule nat_of_char_less_256)

declare b64_loop.simps(2) [simp del]

lemma char_of_0 [simp]: "char_of (0 :: nat) = NUL"
  by (simp add: char_of_def)

text \<open>The sextets of three bytes, and the bytes back from the sextets.\<close>

lemma sextets_of_bytes:
  fixes x y z :: nat
  assumes "x < 256" and "y < 256" and "z < 256"
  defines "w0 \<equiv> x div 4" and "w1 \<equiv> x mod 4 * 16 + y div 16"
    and "w2 \<equiv> y mod 16 * 4 + z div 64" and "w3 \<equiv> z mod 64"
  shows "w0 < 64" and "w1 < 64" and "w2 < 64" and "w3 < 64"
    and "w0 * 4 + w1 div 16 = x" and "w1 mod 16 * 16 + w2 div 4 = y"
    and "w2 mod 4 * 64 + w3 = z"
proof -
  have y: "y div 16 < 16" and z: "z div 64 < 4" and x: "x div 4 < 64" using assms(1-3) by auto
  have m: "x mod 4 < 4" "y mod 16 < 16" by simp_all
  show "w0 < 64" "w3 < 64" using x by (simp_all add: w0_def w3_def)
  show "w1 < 64" "w2 < 64" using y z m unfolding w1_def w2_def by linarith+
  have "w1 div 16 = x mod 4" "w1 mod 16 = y div 16" using y by (simp_all add: w1_def)
  moreover have "w2 div 4 = y mod 16" "w2 mod 4 = z div 64" using z by (simp_all add: w2_def)
  ultimately show "w0 * 4 + w1 div 16 = x" and "w1 mod 16 * 16 + w2 div 4 = y"
    and "w2 mod 4 * 64 + w3 = z"
    by (simp_all add: w0_def w3_def)
qed

lemma groups_Cons: "(length (a # b # c # r) + 2) div 3 = Suc ((length r + 2) div 3)"
  "(5 + length r) div 3 = Suc ((length r + 2) div 3)"
  by simp_all

lemma length_b64_encode: "length (b64_encode s) = 4 * ((length s + 2) div 3)"
proof (induction s rule: b64_encode.induct)
  case (4 a b c r)
  then show ?case by (simp add: Let_def groups_Cons)
qed (simp_all add: Let_def)

lemma b64_loop_encode:
  assumes "idx mod 4 = 0" and "length out + 3 * ((length s + 2) div 3) \<le> cap"
    and "idx + length (b64_encode s) < 2 ^ 31"
  shows "\<exists>n. b64_loop cap (b64_encode s) idx 0 out =
      Inr (Some (idx + length (b64_encode s), out @ s @ replicate n NUL)) \<and>
    length s + n = 3 * ((length s + 2) div 3)"
  using assms
proof (induction s arbitrary: idx out rule: b64_encode.induct)
  case 1
  then show ?case by simp
next
  case (2 a)
  note w = sextets_of_bytes [OF of_char_less [of a] of_char_less [of NUL] of_char_less [of NUL]]
  have "b64_loop cap (b64_encode [a]) idx 0 out = b64_loop cap [] (idx + 4) 0 (out @ [a, NUL, NUL])"
    using 2 w b64_loop_group [OF sextet_b64_char sextet_b64_char sextet_padding sextet_padding,
        of "of_char a div 4" "of_char a mod 4 * 16" idx out cap "[]"]
    by (simp add: Let_def)
  then show ?case by (intro exI [of _ 2]) (simp add: numeral_2_eq_2 Let_def)
next
  case (3 a b)
  note w = sextets_of_bytes [OF of_char_less [of a] of_char_less [of b] of_char_less [of NUL]]
  have "b64_loop cap (b64_encode [a, b]) idx 0 out = b64_loop cap [] (idx + 4) 0 (out @ [a, b, NUL])"
    using 3 w b64_loop_group [OF sextet_b64_char sextet_b64_char sextet_b64_char sextet_padding,
        of "of_char a div 4" "of_char a mod 4 * 16 + of_char b div 16" "of_char b mod 16 * 4" idx out cap "[]"]
    by (simp add: Let_def)
  then show ?case by (intro exI [of _ 1]) (simp add: Let_def)
next
  case (4 a b c r)
  note w = sextets_of_bytes [OF of_char_less [of a] of_char_less [of b] of_char_less [of c]]
  have room: "length out + 3 \<le> cap"
    "length (out @ [a, b, c]) + 3 * ((length r + 2) div 3) \<le> cap"
    using "4.prems" by (simp_all only: groups_Cons) simp_all
  have small: "idx + 4 + length (b64_encode r) < 2 ^ 31" using "4.prems"(3) by (simp add: Let_def)
  then have "idx + 4 < 2 ^ 31" by simp
  then have step: "b64_loop cap (b64_encode (a # b # c # r)) idx 0 out =
      b64_loop cap (b64_encode r) (idx + 4) 0 (out @ [a, b, c])"
    using "4.prems"(1) room(1) w
      b64_loop_group [OF sextet_b64_char [OF w(1)] sextet_b64_char [OF w(2)]
        sextet_b64_char [OF w(3)] sextet_b64_char [OF w(4)], of idx out cap "b64_encode r"]
    by (simp add: Let_def)
  have "(idx + 4) mod 4 = 0" using "4.prems" by simp
  from "4.IH" [OF refl refl refl this room(2) small] obtain n where
    "b64_loop cap (b64_encode r) (idx + 4) 0 (out @ [a, b, c]) =
      Inr (Some (idx + 4 + length (b64_encode r), (out @ [a, b, c]) @ r @ replicate n NUL))"
    "length r + n = 3 * ((length r + 2) div 3)"
    by blast
  then show ?case unfolding step by (intro exI [of _ n]) (simp add: Let_def groups_Cons(2))
qed

lemma Base64_decode_encode:
  assumes "length s < 2 ^ 30"
  shows "\<exists>n. Base64Decode (b64_encode s) =
     Inr (Some (s @ replicate n NUL, 3 * ((length s + 2) div 3)))"
proof -
  have small: "length (b64_encode s) < 2 ^ 31" using assms by (simp add: length_b64_encode)
  let ?k = "(length s + 2) div 3"
  have cap: "(length (b64_encode s) * 3 + 3) div 4 + 3 = 3 * ?k + 3"
    by (simp add: length_b64_encode)
  obtain n where n: "b64_loop (3 * ?k + 3) (b64_encode s) 0 0 [] =
      Inr (Some (length (b64_encode s), s @ replicate n NUL))" "length s + n = 3 * ?k"
    using b64_loop_encode [of 0 "[]" s "3 * ?k + 3"] small by auto
  have m: "length (b64_encode s) mod 4 = 0" by (simp add: length_b64_encode)
  show ?thesis
    using n m by (auto simp: Base64Decode_small [OF small] Let_def cap replicate_add [symmetric])
qed

text \<open>
  C21: Decoding undoes encoding. For a text without NUL the decoder returns an array that,
  read as a C string as the caller does, is the text; the reported size is that of the
  padded groups. The text has fewer than \<open>2^30\<close> characters, so that the \<open>int\<close> index cannot overflow.
\<close>

theorem Base64_roundtrip:
  assumes "NUL \<notin> set s" and "length s < 2 ^ 30"
  shows "\<exists>buf. Base64Decode (b64_encode s) = Inr (Some (buf, 3 * ((length s + 2) div 3))) \<and>
    cstr buf = s"
  using Base64_decode_encode [OF assms(2)] cstr_append_NULs [OF assms(1)] by blast

theorem Base64_roundtrip_witness:
  "\<exists>buf. Base64Decode (b64_encode ''user1:pass1'') = Inr (Some (buf, 12)) \<and> cstr buf = ''user1:pass1''"
  using Base64_roundtrip [of "''user1:pass1''"] by (simp del: b64_encode.simps)


text \<open>Encoded text is one token, so that a header can carry it.\<close>

definition b64_plain :: "nat \<Rightarrow> bool" where
  "b64_plain n \<longleftrightarrow> \<not> isspace (b64_char n)"

lemma b64_plain_all: "list_all b64_plain [0..<64]"
  by code_simp

lemma b64_char_plain: "n < 64 \<Longrightarrow> \<not> isspace (b64_char n) \<and> b64_char n \<noteq> NUL"
  using b64_plain_all b64_value_char(2) [of n] by (simp add: list_all_iff b64_plain_def)

lemma set_b64_encode: "ch \<in> set (b64_encode s) \<Longrightarrow> ch = CHR ''='' \<or> (\<exists>n<64. ch = b64_char n)"
proof (induction s rule: b64_encode.induct)
  case (2 a)
  then have "ch = b64_char (of_char a div 4) \<or> ch = b64_char (of_char a mod 4 * 16) \<or> ch = CHR ''=''"
    by (simp add: Let_def)
  moreover have "of_char a div 4 < (64 :: nat)"
    by (rule less_mult_imp_div_less) (use of_char_less [of a] in simp)
  moreover have "of_char a mod 4 * 16 < (64 :: nat)" by presburger
  ultimately show ?case by blast
next
  case (3 a b)
  then have "ch = b64_char (of_char a div 4) \<or> ch = b64_char (of_char a mod 4 * 16 + of_char b div 16) \<or>
      ch = b64_char (of_char b mod 16 * 4) \<or> ch = CHR ''=''"
    by (simp add: Let_def)
  moreover have "of_char b mod 16 * 4 < (64 :: nat)" by presburger
  ultimately show ?case
    using sextets_of_bytes(1,2) [OF of_char_less [of a] of_char_less [of b] of_char_less] by blast
next
  case (4 a b c r)
  then have "ch \<in> set (b64_encode r) \<or> ch = b64_char (of_char a div 4) \<or>
      ch = b64_char (of_char a mod 4 * 16 + of_char b div 16) \<or>
      ch = b64_char (of_char b mod 16 * 4 + of_char c div 64) \<or> ch = b64_char (of_char c mod 64)"
    by (auto simp: Let_def)
  with 4(1) show ?case
    using sextets_of_bytes [OF of_char_less [of a] of_char_less [of b] of_char_less [of c]] by blast
qed simp

lemma is_token_b64_encode: "s \<noteq> [] \<Longrightarrow> is_token (b64_encode s)"
proof -
  assume "s \<noteq> []"
  then have "length (b64_encode s) \<noteq> 0" by (cases s) (simp_all add: length_b64_encode)
  moreover have "\<not> isspace (CHR ''='')" by (simp add: isspace_def)
  ultimately show ?thesis
    by (auto simp: is_token_def dest!: set_b64_encode b64_char_plain)
qed

end
