(* ===== verification/UserAuth.thy ===== *)
theory UserAuth
  imports Base64 TimeMap
begin

text \<open>
  The users and the authentication manager of \<open>UserAuth.hpp\<close> and \<open>UserAuth.cpp\<close>. The list of
  users may hold a name twice, as \<open>AddUser\<close> does not check: each operation visits the first
  user of a name or all of them, as its loop does. The result of \<open>localtime\<close> is an argument
  (\<^term>\<open>None\<close> for a null pointer); an output reference is an argument and a result.
\<close>

section \<open>Users\<close>

record user =
  u_name :: string
  u_password :: string
  u_ipList :: "string list"
  u_weekly :: weekly_access
  u_audit :: bool

definition User_new :: "string \<Rightarrow> string \<Rightarrow> user" where
  "User_new name password =
     \<lparr>u_name = name, u_password = password, u_ipList = [], u_weekly = WeeklyAccess_new,
      u_audit = False\<rparr>"

text \<open>The getters; simplification reads them as the fields.\<close>

definition User_GetName :: "user \<Rightarrow> string" where [simp]:
  "User_GetName x = u_name x"

definition User_GetPassword :: "user \<Rightarrow> string" where [simp]:
  "User_GetPassword x = u_password x"

definition User_GetAudit :: "user \<Rightarrow> bool" where [simp]:
  "User_GetAudit x = u_audit x"

definition User_GetIpList :: "user \<Rightarrow> string list" where [simp]:
  "User_GetIpList x = u_ipList x"

definition User_GetWeeklyAccess :: "user \<Rightarrow> weekly_access" where [simp]:
  "User_GetWeeklyAccess x = u_weekly x"

definition User_AddIp :: "string \<Rightarrow> user \<Rightarrow> user" where
  "User_AddIp ipAddress u = u\<lparr>u_ipList := u_ipList u @ [ipAddress]\<rparr>"

definition User_SetAudit :: "bool \<Rightarrow> user \<Rightarrow> user" where
  "User_SetAudit audit u = u\<lparr>u_audit := audit\<rparr>"

definition User_HasIpList :: "user \<Rightarrow> bool" where
  "User_HasIpList u = (if length (u_ipList u) \<noteq> 0 then True else False)"

section \<open>The manager\<close>

record auth_manager =
  am_users :: "user list"
  am_enabled :: bool

definition AuthManager_new :: auth_manager where
  "AuthManager_new = \<lparr>am_users = [], am_enabled = False\<rparr>"

definition AuthManager_SetEnabled :: "bool \<Rightarrow> auth_manager \<Rightarrow> auth_manager" where
  "AuthManager_SetEnabled enable am = am\<lparr>am_enabled := enable\<rparr>"

definition AuthManager_IsEnabled :: "auth_manager \<Rightarrow> bool" where
  "AuthManager_IsEnabled am = am_enabled am"

definition AuthManager_IsAuditEnabled :: "auth_manager \<Rightarrow> string \<Rightarrow> bool" where
  "AuthManager_IsAuditEnabled am username =
     (case find_first (\<lambda>u. User_GetName u = username) (am_users am) of
        Some u \<Rightarrow> User_GetAudit u | None \<Rightarrow> False)"

text \<open>These two loops do not stop at the first match.\<close>

definition for_user :: "string \<Rightarrow> (user \<Rightarrow> user) \<Rightarrow> auth_manager \<Rightarrow> auth_manager" where
  "for_user username f am =
     am\<lparr>am_users := map (\<lambda>u. if User_GetName u = username then f u else u) (am_users am)\<rparr>"

definition AuthManager_SetAudit :: "string \<Rightarrow> bool \<Rightarrow> auth_manager \<Rightarrow> auth_manager" where
  "AuthManager_SetAudit username audit am = for_user username (User_SetAudit audit) am"

definition AuthManager_AddUser :: "string \<Rightarrow> string \<Rightarrow> auth_manager \<Rightarrow> auth_manager" where
  "AuthManager_AddUser username password am =
     am\<lparr>am_users := am_users am @ [User_new username password]\<rparr>"

definition AuthManager_AddUserIp :: "string \<Rightarrow> string \<Rightarrow> auth_manager \<Rightarrow> auth_manager" where
  "AuthManager_AddUserIp username ipAddress am = for_user username (User_AddIp ipAddress) am"

fun ip_in_list :: "string \<Rightarrow> string list \<Rightarrow> bool" where
  "ip_in_list ipAddress [] = False"
| "ip_in_list ipAddress (ip # ips) = (if ip = ipAddress then True else ip_in_list ipAddress ips)"

fun authenticate_ip_loop :: "string \<Rightarrow> string \<Rightarrow> user list \<Rightarrow> bool \<times> string" where
  "authenticate_ip_loop ipAddress username [] = (False, username)"
| "authenticate_ip_loop ipAddress username (u # us) =
     (if User_HasIpList u \<and> ip_in_list ipAddress (User_GetIpList u) then (True, User_GetName u)
      else authenticate_ip_loop ipAddress username us)"

definition AuthManager_AuthenticateIp ::
  "auth_manager \<Rightarrow> string \<Rightarrow> string \<Rightarrow> bool \<times> string" where
  "AuthManager_AuthenticateIp am ipAddress username =
     authenticate_ip_loop ipAddress username (am_users am)"

definition AuthManager_Authenticate_i :: "auth_manager \<Rightarrow> string \<Rightarrow> string \<Rightarrow> bool" where
  "AuthManager_Authenticate_i am userName password =
     (find_first (\<lambda>u. User_GetName u = userName \<and> User_GetPassword u = password) (am_users am) \<noteq> None)"

text \<open>
  The decoded credentials: the first colon becomes a space, then two words are scanned into
  two zeroed arrays of 128 bytes.
\<close>

definition scan_credentials :: "string \<Rightarrow> (string \<times> string) res" where
  "scan_credentials credString =
     (let buf = (case strchr credString (CHR '':'') of
                   Some delim \<Rightarrow> credString[delim := CHR '' ''] | None \<Rightarrow> credString);
          (parsed, vs) = sscanf buf [DStr None, DWs, DStr None]
      in bind_res (store_str 128 (str_arg vs 0 []))
           (\<lambda>user. bind_res (store_str 128 (str_arg vs 1 [])) (\<lambda>pass. Inr (user, pass))))"

definition AuthManager_Authenticate ::
  "auth_manager \<Rightarrow> string \<Rightarrow> string \<Rightarrow> (bool \<times> string) res" where
  "AuthManager_Authenticate am base64Creds username =
     bind_res (Base64Decode base64Creds)
       (\<lambda>r. case r of
              None \<Rightarrow> Inr (False, username)
            | Some (credString, sz) \<Rightarrow>
                bind_res (scan_credentials credString)
                  (\<lambda>(user, pass).
                     Inr (True, if AuthManager_Authenticate_i am user pass then user
                                else username)))"

fun access_loop :: "(int \<times> int \<times> int) option \<Rightarrow> string \<Rightarrow> user list \<Rightarrow> bool res" where
  "access_loop localTime username [] = Inr False"
| "access_loop localTime username (u # us) =
     (if User_GetName u = username
      then case localTime of
             Some (wday, hour, mn) \<Rightarrow> WeeklyAccess_PermittedAtTime (User_GetWeeklyAccess u) wday hour mn
           | None \<Rightarrow> access_loop localTime username us
      else access_loop localTime username us)"

definition AuthManager_AccessAllowedAtTime ::
  "(int \<times> int \<times> int) option \<Rightarrow> auth_manager \<Rightarrow> string \<Rightarrow> bool res" where
  "AuthManager_AccessAllowedAtTime localTime am username =
     access_loop localTime username (am_users am)"

definition day_index :: "string \<Rightarrow> int option" where
  "day_index day =
     (if day = ''sun'' then Some 0 else if day = ''mon'' then Some 1
      else if day = ''tue'' then Some 2 else if day = ''wed'' then Some 3
      else if day = ''thr'' then Some 4 else if day = ''fri'' then Some 5
      else if day = ''sat'' then Some 6 else None)"

fun weekly_loop :: "string \<Rightarrow> string \<Rightarrow> string \<Rightarrow> user list \<Rightarrow> (user list \<times> bool) res" where
  "weekly_loop userName day initString [] = Inr ([], False)"
| "weekly_loop userName day initString (u # us) =
     (if User_GetName u = userName
      then case day_index day of
             None \<Rightarrow> Inr (u # us, False)
           | Some dayIdx \<Rightarrow>
               bind_res (WeeklyAccess_InitDayFromString dayIdx initString (User_GetWeeklyAccess u))
                 (\<lambda>(w, ok). Inr (u\<lparr>u_weekly := w\<rparr> # us, ok))
      else bind_res (weekly_loop userName day initString us)
             (\<lambda>(us', ok). Inr (u # us', ok)))"

definition AuthManager_SetWeeklyAccess ::
  "string \<Rightarrow> string \<Rightarrow> string \<Rightarrow> auth_manager \<Rightarrow> (auth_manager \<times> bool) res" where
  "AuthManager_SetWeeklyAccess userName day initString am =
     bind_res (weekly_loop userName day initString (am_users am))
       (\<lambda>(us, ok). Inr (am\<lparr>am_users := us\<rparr>, ok))"

section \<open>Well-formed managers\<close>

definition wf_auth :: "auth_manager \<Rightarrow> bool" where
  "wf_auth am \<longleftrightarrow> (\<forall>u\<in>set (am_users am). wf_weekly (u_weekly u))"

lemma day_index_range: "day_index day = Some i \<Longrightarrow> 0 \<le> i \<and> i < 7"
  by (auto simp: day_index_def split: if_splits)

section \<open>Authentication by credentials\<close>

text \<open>Credentials that one request can carry: words that fit the arrays.\<close>

definition valid_credentials :: "string \<Rightarrow> string \<Rightarrow> bool" where
  "valid_credentials u p \<longleftrightarrow> is_token u \<and> is_token p \<and> CHR '':'' \<notin> set u \<and>
     length u < 128 \<and> length p < 128"

definition registered :: "auth_manager \<Rightarrow> string \<Rightarrow> string \<Rightarrow> bool" where
  "registered am u p \<longleftrightarrow> (\<exists>x\<in>set (am_users am). u_name x = u \<and> u_password x = p)"

lemma Authenticate_i_registered: "AuthManager_Authenticate_i am u p \<longleftrightarrow> registered am u p"
  by (auto simp: AuthManager_Authenticate_i_def registered_def find_first_None)

lemma scan_two_words:
  assumes "is_token u" and "is_token p"
  shows "sscanf (u @ CHR '' '' # p @ replicate n NUL) [DStr None, DWs, DStr None] =
    (2, [SStr u, SStr p])"
proof -
  have "cstr ((u @ CHR '' '' # p) @ replicate n NUL) = u @ CHR '' '' # p"
    using is_tokenD(2) [OF assms(1)] is_tokenD(2) [OF assms(2)] by (intro cstr_append_NULs) auto
  moreover have sp: "isspace CHR '' ''" by (simp add: isspace_def)
  moreover have "dropWhile isspace p = p"
    using dropWhile_space_token [OF assms(2), of "[]"] by simp
  moreover have "scan [DStr None] p acc = (int (length acc) + 1, acc @ [SStr p])" for acc
    using scan_token [OF assms(2), of "[]" "[]"] by simp
  moreover have "scan [DStr None, DWs, DStr None] (u @ CHR '' '' # p) [] =
      scan [DWs, DStr None] (CHR '' '' # p) [SStr u]"
    using scan_token [OF assms(1), of "CHR '' '' # p" "[DWs, DStr None]" "[]"] sp by simp
  ultimately show ?thesis by (simp add: sscanf_def)
qed

lemma scan_credentials_ok:
  assumes "valid_credentials u p"
  shows "scan_credentials (u @ CHR '':'' # p @ replicate n NUL) = Inr (u, p)"
proof -
  have "strchr (u @ CHR '':'' # p @ replicate n NUL) CHR '':'' = Some (length u)"
    using assms by (intro strchr_append) (auto simp: valid_credentials_def dest: is_tokenD)
  moreover have "(u @ CHR '':'' # p @ replicate n NUL)[length u := CHR '' ''] =
      u @ CHR '' '' # p @ replicate n NUL"
    by (simp add: list_update_append)
  ultimately show ?thesis
    using assms scan_two_words [of u p n]
    by (simp add: scan_credentials_def valid_credentials_def store_str_def str_arg_def)
qed

lemma Authenticate_encoded:
  assumes "valid_credentials u p"
  shows "AuthManager_Authenticate am (b64_encode (u @ CHR '':'' # p)) username =
    Inr (True, if registered am u p then u else username)"
proof -
  obtain n where "Base64Decode (b64_encode (u @ CHR '':'' # p)) =
      Inr (Some ((u @ CHR '':'' # p) @ replicate n NUL, 3 * ((length (u @ CHR '':'' # p) + 2) div 3)))"
    using Base64_decode_encode [of "u @ CHR '':'' # p"] assms by (auto simp: valid_credentials_def)
  then show ?thesis
    using scan_credentials_ok [OF assms, of n]
    by (simp add: AuthManager_Authenticate_def Authenticate_i_registered)
qed

text \<open>A name other than the one passed in comes with decoded, registered credentials.\<close>

lemma Authenticate_named:
  assumes "AuthManager_Authenticate am creds username = Inr (ok, name)" and "name \<noteq> username"
  shows "ok \<and> (\<exists>buf sz p. Base64Decode creds = Inr (Some (buf, sz)) \<and>
    scan_credentials buf = Inr (name, p) \<and> registered am name p)"
  using assms
  by (auto simp: AuthManager_Authenticate_def bind_res_eq_Inr Authenticate_i_registered
      split: option.splits if_splits)

text \<open>
  C19: Authentication by user name and password, end to end. For credentials of the usual form,
  encoded as a client encodes them, the manager names the user exactly when the pair is
  registered; it returns true either way, so the name is the only answer.
\<close>

theorem authenticate_encoded_credentials:
  assumes "valid_credentials u p"
  shows "AuthManager_Authenticate am (b64_encode (u @ CHR '':'' # p)) username =
    Inr (True, if registered am u p then u else username)"
  by (rule Authenticate_encoded [OF assms])

theorem authenticate_encoded_credentials_witness:
  "AuthManager_Authenticate (AuthManager_AddUser ''user1'' ''pass1'' AuthManager_new)
     (b64_encode ''user1:pass1'') [] = Inr (True, ''user1'') \<and>
   AuthManager_Authenticate (AuthManager_AddUser ''user1'' ''pass1'' AuthManager_new)
     (b64_encode ''user1:guess'') [] = Inr (True, [])"
  using authenticate_encoded_credentials [of "''user1''" "''pass1''"
      "AuthManager_AddUser ''user1'' ''pass1'' AuthManager_new" "[]"]
    authenticate_encoded_credentials [of "''user1''" "''guess''"
      "AuthManager_AddUser ''user1'' ''pass1'' AuthManager_new" "[]"]
  by (simp add: valid_credentials_def is_token_def isspace_def registered_def
      AuthManager_AddUser_def AuthManager_new_def User_new_def del: b64_encode.simps)

text \<open>
  C20: A name comes out of authentication only for registered credentials: whatever the request
  carries, when the name changes some user is registered under the new name with the scanned
  password.
\<close>

theorem authenticate_sound:
  assumes "AuthManager_Authenticate am creds username = Inr (ok, name)" and "name \<noteq> username"
  shows "ok \<and> (\<exists>buf sz p. Base64Decode creds = Inr (Some (buf, sz)) \<and>
    scan_credentials buf = Inr (name, p) \<and> registered am name p)"
  using assms by (rule Authenticate_named)

theorem authenticate_sound_witness:
  "registered (AuthManager_AddUser ''u'' ''p'' AuthManager_new) ''u'' ''p''"
proof -
  let ?am = "AuthManager_AddUser ''u'' ''p'' AuthManager_new"
  have "map b64_value ''dTpw'' = [Some 29, Some 19, Some 41, Some 48]"
    "map low_byte [117, 30010, 112] = ''u:p''" by code_simp+
  then have loop: "b64_loop 6 ''dTpw'' 0 0 [] = Inr (Some (4, ''u:p''))"
    by (simp add: b64_loop.simps b64_sextet_def)
  have d: "Base64Decode ''dTpw'' = Inr (Some (''u:p'' @ replicate 3 NUL, 3))"
    by (subst Base64Decode_small) (simp_all add: loop)
  moreover have s: "scan_credentials (''u:p'' @ replicate 3 NUL) = Inr (''u'', ''p'')" by code_simp
  moreover have "AuthManager_Authenticate_i ?am ''u'' ''p''" by code_simp
  ultimately have "AuthManager_Authenticate ?am ''dTpw'' [] = Inr (True, ''u'')"
    by (simp add: AuthManager_Authenticate_def)
  from authenticate_sound [OF this] show ?thesis using d s by auto
qed

text \<open>
  C39: The arrays for the name and the password are written without a bound. A word of 128
  bytes or more (and fewer than \<open>2^30\<close>, which the decoder can index), which any client can send before
  it is authenticated, overflows the stack.
\<close>

theorem authenticate_overflow:
  assumes "is_token w" and "CHR '':'' \<notin> set w" and "128 \<le> length w" and "length w < 2 ^ 30"
  shows "AuthManager_Authenticate am (b64_encode w) username = Inl BufferOverflow"
proof -
  obtain n where d: "Base64Decode (b64_encode w) =
      Inr (Some (w @ replicate n NUL, 3 * ((length w + 2) div 3)))"
    using Base64_decode_encode [OF assms(4)] by blast
  have "NUL \<notin> set w" using assms(1) by (rule is_tokenD)
  then have c: "cstr (w @ replicate n NUL) = w" by (rule cstr_append_NULs)
  have nul: "strchr (w @ replicate n NUL) CHR '':'' = None"
    using \<open>NUL \<notin> set w\<close> assms(2) by (induction w) (auto, cases n, auto)
  have "scan [DStr None, DWs, DStr None] w [] = scan [DWs, DStr None] [] [SStr w]"
    using scan_token [OF assms(1), of "[]" "[DWs, DStr None]" "[]"] by simp
  then have "scan_credentials (w @ replicate n NUL) = Inl BufferOverflow"
    using assms(3) nul c
    by (simp add: scan_credentials_def sscanf_def input_failure_def store_str_def str_arg_def)
  then show ?thesis by (simp add: AuthManager_Authenticate_def d)
qed

theorem authenticate_overflow_witness:
  "AuthManager_Authenticate AuthManager_new (b64_encode (replicate 128 CHR ''A'')) [] =
     Inl BufferOverflow"
  using authenticate_overflow [of "replicate 128 CHR ''A''" AuthManager_new "[]"]
  by (simp add: is_token_def isspace_def)

section \<open>Authentication by address\<close>

lemma ip_in_list_iff: "ip_in_list ip ips \<longleftrightarrow> ip \<in> set ips"
  by (induction ips) auto

lemma authenticate_ip_loop_first:
  "authenticate_ip_loop ip username us =
     (case find_first (\<lambda>u. ip \<in> set (u_ipList u)) us of
        Some u \<Rightarrow> (True, u_name u) | None \<Rightarrow> (False, username))"
  by (induction us) (auto simp: User_HasIpList_def ip_in_list_iff)

lemma find_first_map_update:
  assumes "\<And>u. Q u \<Longrightarrow> P (f u)" and "\<And>u. u \<in> set us \<Longrightarrow> \<not> P u" and "\<exists>u\<in>set us. Q u"
  shows "\<exists>u\<in>set us. Q u \<and> find_first P (map (\<lambda>u. if Q u then f u else u) us) = Some (f u)"
  using assms(2,3) by (induction us) (auto simp: assms(1))

lemma find_first_map_other:
  assumes "\<And>u. P (f u) = P u"
  shows "find_first P (map (\<lambda>u. if Q u then f u else u) us) =
    map_option (\<lambda>u. if Q u then f u else u) (find_first P us)"
  by (induction us) (auto simp: assms)

text \<open>
  Assigning an address that no user has to a registered name makes the address
  authenticate as that name, and changes no other address; an address nobody has does not
  authenticate.
\<close>

theorem authenticate_assigned_ip:
  assumes "n \<in> u_name ` set (am_users am)"
    and "\<forall>u\<in>set (am_users am). ip \<notin> set (u_ipList u)"
  shows "AuthManager_AuthenticateIp am ip name = (False, name) \<and>
    AuthManager_AuthenticateIp (AuthManager_AddUserIp n ip am) ip name = (True, n) \<and>
    (ip' \<noteq> ip \<longrightarrow> AuthManager_AuthenticateIp (AuthManager_AddUserIp n ip am) ip' name =
       AuthManager_AuthenticateIp am ip' name)"
proof -
  let ?us = "am_users am"
  have none: "find_first (\<lambda>u. ip \<in> set (u_ipList u)) ?us = None"
    using assms(2) by (simp add: find_first_None)
  obtain u where u: "u_name u = n" "find_first (\<lambda>u. ip \<in> set (u_ipList u))
      (map (\<lambda>u. if u_name u = n then User_AddIp ip u else u) ?us) = Some (User_AddIp ip u)"
    using find_first_map_update [of "\<lambda>u. u_name u = n" "\<lambda>u. ip \<in> set (u_ipList u)" "User_AddIp ip" ?us]
      assms by (auto simp: User_AddIp_def)
  have "find_first (\<lambda>u. ip' \<in> set (u_ipList u))
      (map (\<lambda>u. if u_name u = n then User_AddIp ip u else u) ?us) =
      map_option (\<lambda>u. if u_name u = n then User_AddIp ip u else u)
        (find_first (\<lambda>u. ip' \<in> set (u_ipList u)) ?us)" if "ip' \<noteq> ip"
    using that by (intro find_first_map_other) (simp add: User_AddIp_def)
  with none u show ?thesis
    by (auto simp: AuthManager_AuthenticateIp_def authenticate_ip_loop_first
        AuthManager_AddUserIp_def for_user_def User_AddIp_def split: option.split)
qed

theorem authenticate_assigned_ip_witness:
  "AuthManager_AuthenticateIp
     (AuthManager_AddUserIp ''kid'' ''192.168.0.108'' (AuthManager_AddUser ''kid'' ''pw'' AuthManager_new))
     ''192.168.0.108'' [] = (True, ''kid'')"
  using authenticate_assigned_ip [of "''kid''" "AuthManager_AddUser ''kid'' ''pw'' AuthManager_new"
      "''192.168.0.108''" "[]" "[]"]
  by (simp add: AuthManager_AddUser_def AuthManager_new_def User_new_def)

section \<open>Access by time\<close>

definition valid_localtime :: "int \<times> int \<times> int \<Rightarrow> bool" where
  "valid_localtime t \<longleftrightarrow>
     (case t of (wday, hour, mn) \<Rightarrow> 0 \<le> wday \<and> wday < 7 \<and> valid_time hour mn)"

lemma access_loop_first:
  "access_loop (Some (wday, hour, mn)) username us =
     (case find_first (\<lambda>u. u_name u = username) us of
        Some u \<Rightarrow> WeeklyAccess_PermittedAtTime (u_weekly u) wday hour mn | None \<Rightarrow> Inr False)"
  by (induction us) auto

lemma access_loop_no_time: "access_loop None username us = Inr False"
  by (induction us) auto

lemma access_unregistered:
  "username \<notin> u_name ` set us \<Longrightarrow> access_loop t username us = Inr False"
  by (induction us) auto

lemma access_no_fault:
  assumes "\<forall>t. lt = Some t \<longrightarrow> valid_localtime t"
  shows "\<exists>b. AuthManager_AccessAllowedAtTime lt am username = Inr b \<and>
    (b \<longrightarrow> username \<in> u_name ` set (am_users am))"
proof (cases lt)
  case None
  then show ?thesis by (auto simp: AuthManager_AccessAllowedAtTime_def access_loop_no_time)
next
  case (Some t)
  obtain d h m where t: "t = (d, h, m)" by (cases t)
  with assms Some have v: "0 \<le> d" "d < 7" "valid_time h m" by (simp_all add: valid_localtime_def)
  then have "\<exists>b. WeeklyAccess_PermittedAtTime w d h m = Inr b" for w
    by (simp add: Weekly_Permitted_valid Permitted_no_fault)
  then show ?thesis
    by (auto simp: AuthManager_AccessAllowedAtTime_def Some t access_loop_first
        split: option.split dest: find_first_Some)
qed

lemma weekly_loop_hit:
  assumes "find_first (\<lambda>u. u_name u = n) us = Some u" and "day_index day = Some i"
    and "WeeklyAccess_InitDayFromString i s (u_weekly u) = Inr (w, ok)"
  shows "weekly_loop n day s us =
    Inr (update_first (\<lambda>u. u_name u = n) (\<lambda>u. u\<lparr>u_weekly := w\<rparr>) us, ok)"
  using assms by (induction us) (auto split: if_splits)

text \<open>
  C23: The time policy. Setting a day of a registered user from a schedule string of 48
  characters makes access at a time of that day follow the string, leaves the other days of
  the week as they were, and never gives access to a name nobody registered.
\<close>

theorem access_follows_schedule:
  assumes "wf_auth am" and "find_first (\<lambda>u. u_name u = n) (am_users am) = Some u"
    and "day_index day = Some i" and "length s = 48" and "valid_localtime (d, h, m)"
  shows "\<exists>am'. AuthManager_SetWeeklyAccess n day s am = Inr (am', True) \<and>
    AuthManager_AccessAllowedAtTime (Some (d, h, m)) am' n =
      (if d = i then Inr (s ! nat (h * 2 + m div 30) \<notin> {CHR ''x'', CHR ''X''})
       else AuthManager_AccessAllowedAtTime (Some (d, h, m)) am n) \<and>
    (k \<notin> u_name ` set (am_users am) \<longrightarrow>
       AuthManager_AccessAllowedAtTime (Some (d, h, m)) am' k = Inr False)"
proof -
  have wf: "wf_weekly (u_weekly u)" and i: "0 \<le> i" "i < 7"
    using assms by (auto simp: wf_auth_def dest: find_first_Some day_index_range)
  have t: "0 \<le> d" "d < 7" "valid_time h m" using assms(5) by (simp_all add: valid_localtime_def)
  let ?m = "accessMap (u_weekly u) ! nat i"
  let ?w = "(u_weekly u)\<lparr>accessMap := (accessMap (u_weekly u))[nat i := fst (TimeMap_InitFromString s ?m)]\<rparr>"
  have wm: "wf_time_map ?m" using wf i by (simp add: wf_weekly_nth)
  have init: "WeeklyAccess_InitDayFromString i s (u_weekly u) = Inr (?w, True)"
    using i assms(4) wm by (simp add: InitDay_valid InitFromString_ok)
  let ?us' = "update_first (\<lambda>u. u_name u = n) (\<lambda>u. u\<lparr>u_weekly := ?w\<rparr>) (am_users am)"
  have set': "AuthManager_SetWeeklyAccess n day s am = Inr (am\<lparr>am_users := ?us'\<rparr>, True)"
    using weekly_loop_hit [OF assms(2,3) init] by (simp add: AuthManager_SetWeeklyAccess_def)
  have len: "nat i < length (accessMap (u_weekly u))" using wf i by (simp add: wf_weekly_def)
  have "nat d = nat i \<longleftrightarrow> d = i" using i t by auto
  then have day: "WeeklyAccess_PermittedAtTime ?w d h m =
      (if d = i then Inr (s ! nat (h * 2 + m div 30) \<notin> {CHR ''x'', CHR ''X''})
       else WeeklyAccess_PermittedAtTime (u_weekly u) d h m)"
    using t wm assms(4) len
    by (auto simp: Weekly_Permitted_valid Permitted_after_Init nth_list_update)
  have "find_first (\<lambda>u. u_name u = n) ?us' = Some (u\<lparr>u_weekly := ?w\<rparr>)"
    by (subst find_first_update_first_same) (simp_all add: assms(2))
  moreover have "find_first (\<lambda>u. u_name u = k) ?us' = None" if "k \<notin> u_name ` set (am_users am)"
    using that set_update_first [of "\<lambda>u. u_name u = n" "\<lambda>u. u\<lparr>u_weekly := ?w\<rparr>" "am_users am"]
    by (auto simp: find_first_None)
  ultimately show ?thesis
    using set' day assms(2)
    by (auto simp: AuthManager_AccessAllowedAtTime_def access_loop_first access_unregistered)
qed

theorem access_follows_schedule_witness:
  "\<exists>am'. AuthManager_SetWeeklyAccess ''kid'' ''mon'' (replicate 48 CHR ''X'')
      (AuthManager_AddUser ''kid'' ''pw'' AuthManager_new) = Inr (am', True) \<and>
    AuthManager_AccessAllowedAtTime (Some (1, 20, 15)) am' ''kid'' = Inr False"
  using access_follows_schedule [of "AuthManager_AddUser ''kid'' ''pw'' AuthManager_new" "''kid''"
      "User_new ''kid'' ''pw''" "''mon''" 1 "replicate 48 CHR ''X''" 1 20 15 "''kid''"]
  by (auto simp: wf_auth_def AuthManager_AddUser_def AuthManager_new_def User_new_def day_index_def
      valid_localtime_def valid_time_def)

end
