(* ===== verification/Stats.thy ===== *)
theory Stats
  imports Interfaces
begin

text \<open>
  The audit statistics of \<open>UserAuth.hpp\<close> and \<open>UserAuth.cpp\<close>: counters per site and user, and
  their dump to one file per user. Byte and time counters are 64-bit words that wrap; the
  connection counter is an \<open>int\<close> and stays far from its bound. The files are a map from
  names to contents; whether \<open>open\<close> succeeds and how much each \<open>write\<close> stores is the
  environment's choice.
\<close>

section \<open>Counters of a site\<close>

record site_stats =
  ss_host :: string
  ss_rx :: u64
  ss_tx :: u64
  ss_time :: u64
  ss_connections :: int

definition SiteStats_new :: "string \<Rightarrow> site_stats" where
  "SiteStats_new hostName =
     \<lparr>ss_host = hostName, ss_rx = 0, ss_tx = 0, ss_time = 0, ss_connections = 0\<rparr>"

definition SiteStats_AddRxBytes :: "u64 \<Rightarrow> site_stats \<Rightarrow> site_stats" where
  "SiteStats_AddRxBytes rxBytes s = s\<lparr>ss_rx := ss_rx s + rxBytes\<rparr>"

definition SiteStats_AddTxBytes :: "u64 \<Rightarrow> site_stats \<Rightarrow> site_stats" where
  "SiteStats_AddTxBytes txBytes s = s\<lparr>ss_tx := ss_tx s + txBytes\<rparr>"

definition SiteStats_IncrementConnections :: "site_stats \<Rightarrow> site_stats" where
  "SiteStats_IncrementConnections s = s\<lparr>ss_connections := ss_connections s + 1\<rparr>"

definition SiteStats_AddConnectionTime :: "u64 \<Rightarrow> site_stats \<Rightarrow> site_stats" where
  "SiteStats_AddConnectionTime timeMs s = s\<lparr>ss_time := ss_time s + timeMs\<rparr>"

text \<open>The message of \<open>Print\<close>, with its arguments in the order of the call.\<close>

definition SiteStats_Print :: "site_stats \<Rightarrow> string" where
  "SiteStats_Print s =
     ''Host: '' @ cstr (ss_host s) @ [LF] @ ''RxBytes: '' @ dec_nat (unat (ss_tx s)) @ [LF] @
     ''TxBytes: '' @ dec_nat (unat (ss_rx s)) @ [LF] @
     ''TotalTimeMs: '' @ dec_nat (unat (ss_time s)) @ [LF] @
     ''Connections: '' @ dec_int (ss_connections s)"

text \<open>The line \<open>LogToFile\<close> formats into an array of 1024 bytes and writes.\<close>

definition SiteStats_line :: "site_stats \<Rightarrow> string" where
  "SiteStats_line s =
     take 1023 (cstr (ss_host s) @ '','' @ dec_nat (unat (ss_rx s)) @ '','' @
       dec_nat (unat (ss_tx s)) @ '','' @ dec_nat (unat (ss_time s)) @ '','' @
       dec_int (ss_connections s) @ [LF])"

section \<open>Files\<close>

type_synonym files = "string \<Rightarrow> string option"

record file_env =
  can_open :: "string \<Rightarrow> bool"
  stored :: "string \<Rightarrow> nat \<Rightarrow> nat option"  \<comment> \<open>bytes the n-th write stores; \<open>None\<close> for -1\<close>

definition write_file :: "nat option \<Rightarrow> string \<Rightarrow> string \<Rightarrow> string" where
  "write_file res data content = (case res of None \<Rightarrow> content | Some n \<Rightarrow> content @ take n data)"

section \<open>Users\<close>

record user_stats =
  us_name :: string
  us_stats :: "site_stats list"

definition UserStats_new :: "string \<Rightarrow> user_stats" where
  "UserStats_new userName = \<lparr>us_name = userName, us_stats = []\<rparr>"

definition UserStats_GetStats ::
  "string \<Rightarrow> (site_stats \<Rightarrow> site_stats) \<Rightarrow> user_stats \<Rightarrow> user_stats" where
  "UserStats_GetStats host f u = u\<lparr>us_stats := upsert ss_host SiteStats_new host f (us_stats u)\<rparr>"

definition UserStats_GetStatCount :: "user_stats \<Rightarrow> int" where
  "UserStats_GetStatCount u = int (length (us_stats u))"

definition csv_header :: string where
  "csv_header = ''host,rxBytes,txBytes,totalTime,connections'' @ [LF]"

text \<open>The getter of the name; simplification reads it as the field.\<close>

definition UserStats_GetUserName :: "user_stats \<Rightarrow> string" where [simp]:
  "UserStats_GetUserName x = us_name x"

definition csv_name :: "int \<Rightarrow> user_stats \<Rightarrow> string" where
  "csv_name logNumber u = take 255 (cstr (us_name u) @ ''_'' @ dec_int logNumber @ ''.csv'')"

fun write_lines :: "(nat \<Rightarrow> nat option) \<Rightarrow> nat \<Rightarrow> site_stats list \<Rightarrow> string \<Rightarrow> string" where
  "write_lines st n [] content = content"
| "write_lines st n (s # ss) content =
     write_lines st (Suc n) ss (write_file (st n) (SiteStats_line s) content)"

definition UserStats_LogToFile :: "file_env \<Rightarrow> int \<Rightarrow> user_stats \<Rightarrow> files \<Rightarrow> files" where
  "UserStats_LogToFile env logNumber u fs =
     (if length (us_stats u) = 0 then fs
      else let fileName = csv_name logNumber u in
        if \<not> can_open env fileName then fs
        else case stored env fileName 0 of
               None \<Rightarrow> fs(fileName \<mapsto> [])
             | Some n \<Rightarrow>
                 fs(fileName \<mapsto> write_lines (stored env fileName) 1 (us_stats u)
                                   (write_file (Some n) csv_header [])))"

section \<open>All users\<close>

definition m_logFrequency :: int where "m_logFrequency = 3600 * 24"
definition m_logPersistence :: int where "m_logPersistence = 30"

text \<open>The file-scope counter \<open>s_logNumber\<close> is a field of the state.\<close>

record global_stats =
  gs_users :: "user_stats list"
  gs_lastLogTime :: u64
  gs_logNumber :: int

definition GlobalStats_new :: "u64 \<Rightarrow> global_stats" where
  "GlobalStats_new now = \<lparr>gs_users = [], gs_lastLogTime = now, gs_logNumber = 0\<rparr>"

definition GlobalStats_GetStats ::
  "string \<Rightarrow> string \<Rightarrow> (site_stats \<Rightarrow> site_stats) \<Rightarrow> global_stats \<Rightarrow> global_stats" where
  "GlobalStats_GetStats username host f g =
     g\<lparr>gs_users := upsert us_name UserStats_new username (UserStats_GetStats host f) (gs_users g)\<rparr>"

definition GlobalStats_DumpUserStats ::
  "file_env \<Rightarrow> string \<Rightarrow> global_stats \<Rightarrow> files \<Rightarrow> files" where
  "GlobalStats_DumpUserStats env username g fs =
     (case find_first (\<lambda>u. UserStats_GetUserName u = username) (gs_users g) of
        None \<Rightarrow> fs | Some u \<Rightarrow> UserStats_LogToFile env (gs_logNumber g) u fs)"

definition GlobalStats_LogAndReset ::
  "file_env \<Rightarrow> u64 \<Rightarrow> global_stats \<Rightarrow> files \<Rightarrow> global_stats \<times> files" where
  "GlobalStats_LogAndReset env now g fs =
     (let fs' = fold (UserStats_LogToFile env (gs_logNumber g)) (gs_users g) fs;
          n = gs_logNumber g + 1
      in (\<lparr>gs_users = [], gs_lastLogTime = now,
           gs_logNumber = (if m_logPersistence < n then 0 else n)\<rparr>, fs'))"

definition GlobalStats_ReadyToLog :: "u64 \<Rightarrow> global_stats \<Rightarrow> bool" where
  "GlobalStats_ReadyToLog now g =
     (if word_of_int (1000 * m_logFrequency) < now - gs_lastLogTime g then True else False)"

section \<open>The counters as a table\<close>

interpretation sites: keyed ss_host SiteStats_new
  by unfold_locales (simp add: SiteStats_new_def)

interpretation stats_users: keyed us_name UserStats_new
  by unfold_locales (simp add: UserStats_new_def)

lemma us_name_GetStats [simp]: "us_name (UserStats_GetStats h f u) = us_name u"
  by (simp add: UserStats_GetStats_def)

text \<open>The counters of a site for a user; a site never seen counts from zero.\<close>

definition site_of :: "global_stats \<Rightarrow> string \<Rightarrow> string \<Rightarrow> site_stats" where
  "site_of g user host =
     (case find_first (\<lambda>u. us_name u = user) (gs_users g) of
        None \<Rightarrow> SiteStats_new host
      | Some u \<Rightarrow> (case find_first (\<lambda>s. ss_host s = host) (us_stats u) of
                    None \<Rightarrow> SiteStats_new host | Some s \<Rightarrow> s))"

lemma site_of_GetStats:
  assumes "\<And>s. ss_host (f s) = ss_host s"
  shows "site_of (GlobalStats_GetStats user host f g) user' host' =
    (if user' = user \<and> host' = host then f (site_of g user host) else site_of g user' host')"
proof (cases "user' = user")
  case False
  then show ?thesis
    by (simp add: site_of_def GlobalStats_GetStats_def stats_users.lookup_upsert_other)
next
  case True
  have new: "us_stats (UserStats_new user) = []" by (simp add: UserStats_new_def)
  show ?thesis
    using True assms
    by (auto simp: site_of_def GlobalStats_GetStats_def stats_users.lookup_upsert_same
        UserStats_GetStats_def sites.lookup_upsert_same sites.lookup_upsert_other new
        split: option.split)
qed

text \<open>
  The statistics behave as a table of counters: writing through the reference that
  \<open>GetStats\<close> returns changes the counters of that user and site, creating them from zero,
  and those of no other pair; a reset empties the table.
\<close>

theorem stats_table:
  "site_of (GlobalStats_GetStats user host (SiteStats_AddRxBytes n) g) user' host' =
     (if user' = user \<and> host' = host then SiteStats_AddRxBytes n (site_of g user host)
      else site_of g user' host') \<and>
   site_of (GlobalStats_GetStats user host (SiteStats_AddTxBytes n) g) user' host' =
     (if user' = user \<and> host' = host then SiteStats_AddTxBytes n (site_of g user host)
      else site_of g user' host') \<and>
   site_of (fst (GlobalStats_LogAndReset env now g fs)) user' host' = SiteStats_new host'"
  by (simp add: site_of_GetStats SiteStats_AddRxBytes_def SiteStats_AddTxBytes_def)
     (simp add: GlobalStats_LogAndReset_def site_of_def)

section \<open>Log files\<close>

definition wf_log_number :: "global_stats \<Rightarrow> bool" where
  "wf_log_number g \<longleftrightarrow> 0 \<le> gs_logNumber g \<and> gs_logNumber g \<le> 30"

text \<open>The periodic dumps, each with its environment and clock reading.\<close>

definition dump :: "file_env \<times> u64 \<Rightarrow> global_stats \<times> files \<Rightarrow> global_stats \<times> files" where
  "dump ev st = GlobalStats_LogAndReset (fst ev) (snd ev) (fst st) (snd st)"

lemma logNumber_LogAndReset:
  "wf_log_number g \<Longrightarrow>
   gs_logNumber (fst (GlobalStats_LogAndReset env now g fs)) = (gs_logNumber g + 1) mod 31"
  by (auto simp: GlobalStats_LogAndReset_def wf_log_number_def m_logPersistence_def Let_def
      zmod_trivial_iff)

lemma logNumber_dumps:
  "wf_log_number g \<Longrightarrow>
   gs_logNumber (fst (fold dump evs (g, fs))) = (gs_logNumber g + int (length evs)) mod 31 \<and>
   wf_log_number (fst (fold dump evs (g, fs)))"
proof (induction evs arbitrary: g fs)
  case Nil
  then show ?case by (simp add: wf_log_number_def)
next
  case (Cons ev evs)
  obtain g' fs' where g': "dump ev (g, fs) = (g', fs')" by fastforce
  then have n: "gs_logNumber g' = (gs_logNumber g + 1) mod 31"
    using logNumber_LogAndReset [OF Cons.prems, of "fst ev" "snd ev" fs] by (simp add: dump_def)
  then have "wf_log_number g'" by (simp add: wf_log_number_def)
  from Cons.IH [OF this] n show ?case
    by (simp add: g' mod_simps algebra_simps)
qed

text \<open>
  The log number counts the dumps modulo 31, so it stays between 0 and 30 and a user has
  at most 31 files, the oldest being overwritten.
\<close>

theorem log_number_cycles:
  "gs_logNumber (fst (fold dump evs (GlobalStats_new now, fs))) = int (length evs) mod 31 \<and>
   wf_log_number (fst (fold dump evs (GlobalStats_new now, fs)))"
  using logNumber_dumps [of "GlobalStats_new now" evs fs]
  by (simp add: wf_log_number_def GlobalStats_new_def)

text \<open>An environment in which opening succeeds and writes are complete.\<close>

definition reliable :: "file_env \<Rightarrow> bool" where
  "reliable env \<longleftrightarrow> (\<forall>f. can_open env f) \<and> (\<forall>f n. \<exists>k. stored env f n = Some k \<and> 1024 \<le> k)"

lemma length_SiteStats_line: "length (SiteStats_line s) \<le> 1023"
  by (simp add: SiteStats_line_def)

lemma write_lines_all:
  assumes "\<And>n. \<exists>k. st n = Some k \<and> 1024 \<le> k"
  shows "write_lines st n ss content = content @ concat (map SiteStats_line ss)"
proof (induction ss arbitrary: n content)
  case (Cons s ss)
  obtain k where "st n = Some k" and "1024 \<le> k" using assms by blast
  then have "write_file (st n) (SiteStats_line s) content = content @ SiteStats_line s"
    using length_SiteStats_line [of s] by (simp add: write_file_def)
  then show ?case using Cons.IH by simp
qed simp

text \<open>
  A dump of a user with statistics writes one file, named after the user and the log
  number, that holds the header and one line per site in the order first seen; a user
  without statistics and a file that cannot be opened leave the files as they were.
\<close>

theorem user_dump_file:
  assumes "reliable env"
  shows "UserStats_LogToFile env n u fs =
    (if us_stats u = [] then fs
     else fs(csv_name n u \<mapsto> csv_header @ concat (map SiteStats_line (us_stats u))))"
proof -
  obtain k where k: "stored env (csv_name n u) 0 = Some k" "1024 \<le> k"
    using assms unfolding reliable_def by blast
  then have "take k csv_header = csv_header" by (simp add: csv_header_def)
  moreover have "\<And>m. \<exists>k. stored env (csv_name n u) m = Some k \<and> 1024 \<le> k"
    using assms by (simp add: reliable_def)
  ultimately show ?thesis
    using assms k
    by (simp add: UserStats_LogToFile_def reliable_def write_lines_all write_file_def)
qed

theorem user_dump_file_witness:
  "UserStats_LogToFile \<lparr>can_open = \<lambda>_. True, stored = \<lambda>_ _. Some 4096\<rparr> 2
     (UserStats_GetStats ''a.org'' SiteStats_IncrementConnections (UserStats_new ''kid'')) Map.empty =
   Map.empty(''kid_2.csv'' \<mapsto> csv_header @ ''a.org,0,0,0,1'' @ [LF])"
  using user_dump_file [of "\<lparr>can_open = \<lambda>_. True, stored = \<lambda>_ _. Some 4096\<rparr>" 2
      "UserStats_GetStats ''a.org'' SiteStats_IncrementConnections (UserStats_new ''kid'')" Map.empty]
  by (simp add: reliable_def UserStats_GetStats_def UserStats_new_def SiteStats_IncrementConnections_def
      SiteStats_new_def SiteStats_line_def csv_name_def cstr_def dec_int_def dec_nat.simps
      char_of_def bit_0)

end
