(* ===== verification/Sessions.thy ===== *)
theory Sessions
  imports UserAuth Stats
begin

text \<open>
  \<open>Session.hpp\<close> and \<open>Session.cpp\<close>: one proxied connection, and the manager of the active
  ones. A \<open>Session*\<close> is the number of the session; a setter called through it is
  \<open>upd_session\<close>. The constructor leaves five members uninitialised: what they hold is read
  from the argument \<open>junk\<close>. Every method of the manager holds the lock for its whole body,
  but for \<open>CreateSession\<close>, which releases it before it looks the new session up.
\<close>

section \<open>A session\<close>

record session =
  s_sessionId :: int
  s_clientFd :: int
  s_proxyFd :: int
  s_transparent :: bool
  s_rx :: u64
  s_tx :: u64
  s_host :: string
  s_port :: u16
  s_request :: string
  s_clientIp :: string
  s_userName :: string
  s_timestamp :: u64

definition Session_new :: "session \<Rightarrow> int \<Rightarrow> int \<Rightarrow> u64 \<Rightarrow> session" where
  "Session_new junk clientFd sessionId now =
     \<lparr>s_sessionId = sessionId, s_clientFd = clientFd, s_proxyFd = s_proxyFd junk,
      s_transparent = s_transparent junk, s_rx = s_rx junk, s_tx = s_tx junk, s_host = [],
      s_port = s_port junk, s_request = [], s_clientIp = [], s_userName = [],
      s_timestamp = now\<rparr>"

definition Session_SetRequest :: "string \<Rightarrow> session \<Rightarrow> session" where
  "Session_SetRequest request s = s\<lparr>s_request := request\<rparr>"

definition Session_SetHost :: "string \<Rightarrow> session \<Rightarrow> session" where
  "Session_SetHost host s = s\<lparr>s_host := host\<rparr>"

text \<open>The port arrives as an \<open>int\<close> and is converted to 16 bits.\<close>

definition Session_SetPort :: "int \<Rightarrow> session \<Rightarrow> session" where
  "Session_SetPort port s = s\<lparr>s_port := word_of_int port\<rparr>"

definition Session_SetTransparent :: "bool \<Rightarrow> session \<Rightarrow> session" where
  "Session_SetTransparent transparent s = s\<lparr>s_transparent := transparent\<rparr>"

definition Session_SetClientAddress :: "string \<Rightarrow> session \<Rightarrow> session" where
  "Session_SetClientAddress ipAddress s = s\<lparr>s_clientIp := ipAddress\<rparr>"

definition Session_SetUserName :: "string \<Rightarrow> session \<Rightarrow> session" where
  "Session_SetUserName userName s = s\<lparr>s_userName := userName\<rparr>"

definition Session_AddRxBytes :: "u64 \<Rightarrow> session \<Rightarrow> session" where
  "Session_AddRxBytes bytes s = s\<lparr>s_rx := s_rx s + bytes\<rparr>"

definition Session_AddTxBytes :: "u64 \<Rightarrow> session \<Rightarrow> session" where
  "Session_AddTxBytes bytes s = s\<lparr>s_tx := s_tx s + bytes\<rparr>"

text \<open>The getters; simplification reads them as the fields.\<close>

definition Session_GetSessionId :: "session \<Rightarrow> int" where [simp]:
  "Session_GetSessionId x = s_sessionId x"

definition Session_GetClientFd :: "session \<Rightarrow> int" where [simp]:
  "Session_GetClientFd x = s_clientFd x"

definition Session_GetRequest :: "session \<Rightarrow> string" where [simp]:
  "Session_GetRequest x = s_request x"

definition Session_GetHost :: "session \<Rightarrow> string" where [simp]:
  "Session_GetHost x = s_host x"

definition Session_GetPort :: "session \<Rightarrow> u16" where [simp]:
  "Session_GetPort x = s_port x"

definition Session_GetTransparent :: "session \<Rightarrow> bool" where [simp]:
  "Session_GetTransparent x = s_transparent x"

definition Session_GetClientAddress :: "session \<Rightarrow> string" where [simp]:
  "Session_GetClientAddress x = s_clientIp x"

definition Session_GetUserName :: "session \<Rightarrow> string" where [simp]:
  "Session_GetUserName x = s_userName x"

definition Session_GetRxBytes :: "session \<Rightarrow> u64" where [simp]:
  "Session_GetRxBytes x = s_rx x"

definition Session_GetTxBytes :: "session \<Rightarrow> u64" where [simp]:
  "Session_GetTxBytes x = s_tx x"

definition Session_GetTimestamp :: "session \<Rightarrow> u64" where [simp]:
  "Session_GetTimestamp x = s_timestamp x"

named_theorems session_ops \<open>the setters of a session\<close>

lemmas session_setters [session_ops] =
  Session_SetRequest_def Session_SetHost_def Session_SetPort_def Session_SetTransparent_def
  Session_SetClientAddress_def Session_SetUserName_def Session_AddRxBytes_def
  Session_AddTxBytes_def

text \<open>A session with nothing in it, for examples: the content of uninitialised memory.\<close>

definition blank_session :: session where
  "blank_session = \<lparr>s_sessionId = 0, s_clientFd = 0, s_proxyFd = 0, s_transparent = False, s_rx = 0,
     s_tx = 0, s_host = [], s_port = 0, s_request = [], s_clientIp = [], s_userName = [], s_timestamp = 0\<rparr>"

section \<open>The manager\<close>

record session_manager =
  sm_sessionId :: int
  sm_list :: "session list"

definition SessionManager_new :: session_manager where
  "SessionManager_new = \<lparr>sm_sessionId = 0, sm_list = []\<rparr>"

definition SessionManager_GetSessionForClient :: "session_manager \<Rightarrow> int \<Rightarrow> session option" where
  "SessionManager_GetSessionForClient sm clientFd =
     find_first (\<lambda>s. Session_GetClientFd s = clientFd) (sm_list sm)"

definition SessionManager_GetSession :: "session_manager \<Rightarrow> int \<Rightarrow> session option" where
  "SessionManager_GetSession sm sessionId =
     find_first (\<lambda>s. Session_GetSessionId s = sessionId) (sm_list sm)"

text \<open>The counter is an \<open>int\<close>: its increment overflows at the largest number.\<close>

definition SessionManager_CreateSession ::
  "session \<Rightarrow> u64 \<Rightarrow> int \<Rightarrow> session_manager \<Rightarrow> (session_manager \<times> session option) res" where
  "SessionManager_CreateSession junk now clientFd sm =
     (if 2 ^ 31 - 1 \<le> sm_sessionId sm then Inl IntOverflow
      else
        let sm' = \<lparr>sm_sessionId = sm_sessionId sm + 1,
                   sm_list = sm_list sm @ [Session_new junk clientFd (sm_sessionId sm) now]\<rparr>
        in Inr (sm', SessionManager_GetSessionForClient sm' clientFd))"

definition upd_session :: "int \<Rightarrow> (session \<Rightarrow> session) \<Rightarrow> session_manager \<Rightarrow> session_manager" where
  "upd_session sessionId f sm =
     sm\<lparr>sm_list := update_first (\<lambda>s. s_sessionId s = sessionId) f (sm_list sm)\<rparr>"

text \<open>The counters of a session are added to the statistics in four calls, in this order.\<close>

definition account_session :: "u64 \<Rightarrow> session \<Rightarrow> site_stats \<Rightarrow> site_stats" where
  "account_session now s st =
     SiteStats_IncrementConnections
       (SiteStats_AddTxBytes (Session_GetTxBytes s)
         (SiteStats_AddRxBytes (Session_GetRxBytes s)
           (SiteStats_AddConnectionTime (now - Session_GetTimestamp s) st)))"

definition erase_session :: "int \<Rightarrow> session_manager \<Rightarrow> session_manager" where
  "erase_session sessionId sm =
     sm\<lparr>sm_list := erase_first (\<lambda>s. s_sessionId s = sessionId) (sm_list sm)\<rparr>"

definition SessionManager_EndSession ::
  "auth_manager \<Rightarrow> u64 \<Rightarrow> int \<Rightarrow> session_manager \<Rightarrow> global_stats \<Rightarrow> session_manager \<times> global_stats"
where
  "SessionManager_EndSession am now sessionId sm g =
     (case find_first (\<lambda>s. Session_GetSessionId s = sessionId) (sm_list sm) of
        None \<Rightarrow> (sm, g)
      | Some it \<Rightarrow>
          (erase_session sessionId sm,
           if Session_GetHost it \<noteq> [] \<and> AuthManager_IsEnabled am \<and>
              AuthManager_IsAuditEnabled am (Session_GetUserName it)
           then GlobalStats_GetStats (Session_GetUserName it) (Session_GetHost it) (account_session now it) g
           else g))"

section \<open>The manager as a store of sessions\<close>

text \<open>Session numbers are handed out once, in order.\<close>

definition wf_sessions :: "session_manager \<Rightarrow> bool" where
  "wf_sessions sm \<longleftrightarrow> distinct (map s_sessionId (sm_list sm)) \<and>
     (\<forall>s\<in>set (sm_list sm). s_sessionId s < sm_sessionId sm)"

lemma wf_SessionManager_new [simp]: "wf_sessions SessionManager_new"
  by (simp add: wf_sessions_def SessionManager_new_def)

lemma wf_CreateSession:
  "SessionManager_CreateSession junk now fd sm = Inr (sm', r) \<Longrightarrow> wf_sessions sm \<Longrightarrow> wf_sessions sm'"
  by (fastforce simp: wf_sessions_def SessionManager_CreateSession_def Session_new_def Let_def split: if_splits)

lemma wf_upd_session:
  assumes "wf_sessions sm" and "\<And>s. s_sessionId (f s) = s_sessionId s"
  shows "wf_sessions (upd_session i f sm)"
  using assms set_update_first [of "\<lambda>s. s_sessionId s = i" f "sm_list sm"]
  by (auto simp: wf_sessions_def upd_session_def map_update_first)

lemma wf_erase_session: "wf_sessions sm \<Longrightarrow> wf_sessions (erase_session i sm)"
  using set_erase_first [of "\<lambda>s. s_sessionId s = i" "sm_list sm"]
  by (auto simp: wf_sessions_def erase_session_def distinct_map_erase_first)

lemma GetSession_upd:
  assumes "\<And>s. s_sessionId (f s) = s_sessionId s"
  shows "SessionManager_GetSession (upd_session i f sm) j =
    (if j = i then map_option f (SessionManager_GetSession sm i)
     else SessionManager_GetSession sm j)"
proof (cases "j = i")
  case True
  with assms show ?thesis
    by (simp add: SessionManager_GetSession_def upd_session_def find_first_update_first_same)
next
  case False
  then have "find_first (\<lambda>s. s_sessionId s = j)
      (update_first (\<lambda>s. s_sessionId s = i) f (sm_list sm)) =
      find_first (\<lambda>s. s_sessionId s = j) (sm_list sm)"
    using assms by (intro find_first_update_first_other) auto
  with False show ?thesis by (simp add: SessionManager_GetSession_def upd_session_def)
qed

lemma GetSession_erase:
  assumes "wf_sessions sm"
  shows "SessionManager_GetSession (erase_session i sm) j =
    (if j = i then None else SessionManager_GetSession sm j)"
proof (cases "j = i")
  case True
  with assms show ?thesis
    by (simp add: SessionManager_GetSession_def erase_session_def wf_sessions_def
        erase_first_filter find_first_None)
next
  case False
  then have "find_first (\<lambda>s. s_sessionId s = j)
      (erase_first (\<lambda>s. s_sessionId s = i) (sm_list sm)) =
      find_first (\<lambda>s. s_sessionId s = j) (sm_list sm)"
    by (intro find_first_erase_first_other) auto
  with False show ?thesis by (simp add: SessionManager_GetSession_def erase_session_def)
qed

interpretation sess: object_store SessionManager_GetSession upd_session erase_session
    s_sessionId wf_sessions
proof unfold_locales
  show "SessionManager_GetSession m i = Some x \<Longrightarrow> s_sessionId x = i" for m i x
    by (auto simp: SessionManager_GetSession_def dest: find_first_Some)
qed (simp_all add: GetSession_upd GetSession_erase wf_upd_session wf_erase_session)

lemma GetSession_EndSession:
  assumes "wf_sessions sm"
  shows "SessionManager_GetSession (fst (SessionManager_EndSession am now i sm g)) j =
    (if j = i then None else SessionManager_GetSession sm j)"
  using sess.get_drp [OF assms, of i j]
  by (auto simp: SessionManager_EndSession_def SessionManager_GetSession_def split: option.split)

lemma wf_EndSession:
  "wf_sessions sm \<Longrightarrow> wf_sessions (fst (SessionManager_EndSession am now i sm g))"
  by (simp add: SessionManager_EndSession_def wf_erase_session split: option.split)

section \<open>Creating and ending\<close>

lemma GetSession_Create:
  assumes "wf_sessions sm" and "SessionManager_CreateSession junk now fd sm = Inr (sm', r)"
  shows "SessionManager_GetSession sm' j =
    (if j = sm_sessionId sm then Some (Session_new junk fd j now)
     else SessionManager_GetSession sm j)"
proof -
  have "find_first (\<lambda>s. s_sessionId s = sm_sessionId sm) (sm_list sm) = None"
    using assms(1) by (auto simp: find_first_None wf_sessions_def)
  then show ?thesis
    using assms(2)
    by (auto simp: SessionManager_GetSession_def SessionManager_CreateSession_def Let_def
        find_first_append Session_new_def split: option.split if_splits)
qed

lemma CreateSession_result:
  assumes "SessionManager_CreateSession junk now fd sm = Inr (sm', r)"
  shows "r = (case SessionManager_GetSessionForClient sm fd of
       Some old \<Rightarrow> Some old
     | None \<Rightarrow> Some (Session_new junk fd (sm_sessionId sm) now))"
    and "sm_sessionId sm' = sm_sessionId sm + 1" and "sm_sessionId sm < 2 ^ 31 - 1"
  using assms
  by (auto simp: SessionManager_CreateSession_def SessionManager_GetSessionForClient_def Let_def
      find_first_append Session_new_def split: option.split if_splits)

lemma CreateSession_ok:
  "sm_sessionId sm < 2 ^ 31 - 1 \<Longrightarrow> \<exists>sm' r. SessionManager_CreateSession junk now fd sm = Inr (sm', r)"
  by (simp add: SessionManager_CreateSession_def Let_def)

text \<open>
  C31: Creating a session. While the counter has not reached the largest \<open>int\<close>, the manager stays well
  formed; the new session has a number nobody had, and every other session is untouched. When no
  active session has the descriptor, the returned pointer is the new session; when one has, the
  pointer is the old session and the new one is never handed out. At the largest \<open>int\<close> the
  increment overflows.
\<close>

theorem create_session:
  assumes "wf_sessions sm"
  shows "if sm_sessionId sm < 2147483647
    then \<exists>sm' r. SessionManager_CreateSession junk now fd sm = Inr (sm', r) \<and> wf_sessions sm' \<and>
      SessionManager_GetSession sm (sm_sessionId sm) = None \<and>
      (\<forall>j. SessionManager_GetSession sm' j =
        (if j = sm_sessionId sm then Some (Session_new junk fd j now) else SessionManager_GetSession sm j)) \<and>
      r = (case SessionManager_GetSessionForClient sm fd of
         Some old \<Rightarrow> Some old
       | None \<Rightarrow> Some (Session_new junk fd (sm_sessionId sm) now))
    else SessionManager_CreateSession junk now fd sm = Inl IntOverflow"
proof (cases "sm_sessionId sm < 2147483647")
  case True
  then obtain sm' r where c: "SessionManager_CreateSession junk now fd sm = Inr (sm', r)"
    using CreateSession_ok [of sm junk now fd] by auto
  have "SessionManager_GetSession sm (sm_sessionId sm) = None"
    using assms by (auto simp: SessionManager_GetSession_def find_first_None wf_sessions_def)
  with True c wf_CreateSession [OF c assms] GetSession_Create [OF assms c] CreateSession_result(1) [OF c]
  show ?thesis by simp
qed (simp add: SessionManager_CreateSession_def)

theorem create_session_witness:
  "(\<forall>junk. \<exists>sm'. SessionManager_CreateSession junk 0 7 SessionManager_new = Inr (sm', Some (Session_new junk 7 0 0))) \<and>
   (\<forall>junk. SessionManager_CreateSession junk 0 7 \<lparr>sm_sessionId = 2147483647, sm_list = []\<rparr> = Inl IntOverflow)"
proof -
  have "wf_sessions \<lparr>sm_sessionId = 2147483647, sm_list = []\<rparr>" by (simp add: wf_sessions_def)
  from create_session [OF this, of _ 0 7] create_session [OF wf_SessionManager_new, of _ 0 7]
  show ?thesis by (simp add: SessionManager_new_def SessionManager_GetSessionForClient_def) blast
qed

text \<open>
  C30: Ending a session removes exactly that session, and adds its byte counts, its duration
  and one connection to the statistics of its user and host when authentication is on, its
  user is audited and a host was detected, and to nothing else.
\<close>

theorem end_session_accounting:
  assumes "wf_sessions sm" and "SessionManager_GetSession sm i = Some s"
    and "SessionManager_EndSession am now i sm g = (sm', g')"
  shows "wf_sessions sm' \<and>
    SessionManager_GetSession sm' j = (if j = i then None else SessionManager_GetSession sm j) \<and>
    site_of g' user host =
      (if s_host s \<noteq> [] \<and> am_enabled am \<and> AuthManager_IsAuditEnabled am (s_userName s) \<and>
          user = s_userName s \<and> host = s_host s
       then let st = site_of g user host in
         \<lparr>ss_host = ss_host st, ss_rx = ss_rx st + s_rx s, ss_tx = ss_tx st + s_tx s,
           ss_time = ss_time st + (now - s_timestamp s), ss_connections = ss_connections st + 1\<rparr>
       else site_of g user host)"
proof -
  have account: "account_session now s st = \<lparr>ss_host = ss_host st, ss_rx = ss_rx st + s_rx s, ss_tx = ss_tx st + s_tx s,
      ss_time = ss_time st + (now - s_timestamp s), ss_connections = ss_connections st + 1\<rparr>" for st
    by (cases st) (simp add: account_session_def SiteStats_IncrementConnections_def SiteStats_AddTxBytes_def
        SiteStats_AddRxBytes_def SiteStats_AddConnectionTime_def)
  then have host: "ss_host (account_session now s st) = ss_host st" for st by simp
  have f: "find_first (\<lambda>s. s_sessionId s = i) (sm_list sm) = Some s"
    using assms(2) by (simp add: SessionManager_GetSession_def)
  then have "g' = (if s_host s \<noteq> [] \<and> am_enabled am \<and> AuthManager_IsAuditEnabled am (s_userName s)
      then GlobalStats_GetStats (s_userName s) (s_host s) (account_session now s) g else g)"
    using assms(3) by (simp add: SessionManager_EndSession_def AuthManager_IsEnabled_def cong: if_cong)
  moreover have "sm' = fst (SessionManager_EndSession am now i sm g)" using assms(3) by simp
  ultimately show ?thesis
    by (auto simp: wf_EndSession GetSession_EndSession assms(1) site_of_GetStats host account Let_def)
qed

theorem end_session_accounting_witness:
  "\<exists>junk sm' g'. s_rx junk = 5 \<and>
     SessionManager_EndSession
       (AuthManager_SetAudit ''kid'' True (AuthManager_SetEnabled True
         (AuthManager_AddUser ''kid'' ''pw'' AuthManager_new))) 100 0
       \<lparr>sm_sessionId = 1, sm_list = [Session_SetUserName ''kid''
          (Session_SetHost ''a.org'' (Session_new junk 7 0 40))]\<rparr> (GlobalStats_new 0) = (sm', g') \<and>
     site_of g' ''kid'' ''a.org'' =
       \<lparr>ss_host = ''a.org'', ss_rx = 5, ss_tx = s_tx junk, ss_time = 60, ss_connections = 1\<rparr>"
proof -
  define junk where "junk = \<lparr>s_sessionId = 0, s_clientFd = 0, s_proxyFd = 0, s_transparent = False,
    s_rx = 5, s_tx = 6, s_host = [], s_port = 0, s_request = [], s_clientIp = [],
    s_userName = [], s_timestamp = 0\<rparr>"
  define s where "s = Session_SetUserName ''kid'' (Session_SetHost ''a.org'' (Session_new junk 7 0 40))"
  define am where "am = AuthManager_SetAudit ''kid'' True (AuthManager_SetEnabled True
    (AuthManager_AddUser ''kid'' ''pw'' AuthManager_new))"
  define sm where "sm = \<lparr>sm_sessionId = 1, sm_list = [s]\<rparr>"
  obtain sm' g' where e: "SessionManager_EndSession am 100 0 sm (GlobalStats_new 0) = (sm', g')"
    by fastforce
  have fields: "s_host s = ''a.org''" "s_userName s = ''kid''" "s_rx s = 5" "s_tx s = s_tx junk"
    "s_timestamp s = 40" "s_sessionId s = 0" "s_rx junk = 5"
    by (simp_all add: s_def junk_def Session_new_def session_ops)
  have audit: "am_enabled am" "AuthManager_IsAuditEnabled am ''kid''"
    by (simp_all add: am_def AuthManager_SetAudit_def AuthManager_SetEnabled_def for_user_def
        AuthManager_AddUser_def AuthManager_new_def User_new_def User_SetAudit_def
        AuthManager_IsAuditEnabled_def)
  have "site_of g' ''kid'' ''a.org'' =
      \<lparr>ss_host = ''a.org'', ss_rx = 5, ss_tx = s_tx junk, ss_time = 60, ss_connections = 1\<rparr>"
    using end_session_accounting [OF _ _ e, of s 0 "''kid''" "''a.org''"] fields audit
    by (simp add: sm_def wf_sessions_def SessionManager_GetSession_def site_of_def GlobalStats_new_def SiteStats_new_def)
  then show ?thesis using e fields unfolding am_def sm_def s_def by blast
qed

text \<open>
  The byte counters of a session start from whatever the uninitialised members hold: the
  counts it reports are too large by exactly that, modulo the word size.
\<close>

theorem session_counts_from_junk:
  "s_rx (fold Session_AddRxBytes ns (Session_new junk fd i now)) = s_rx junk + sum_list ns \<and>
   s_tx (fold Session_AddTxBytes ns (Session_new junk fd i now)) = s_tx junk + sum_list ns"
proof -
  have "s_rx (fold Session_AddRxBytes ns s) = s_rx s + sum_list ns" for s
    by (induction ns arbitrary: s) (simp_all add: Session_AddRxBytes_def)
  moreover have "s_tx (fold Session_AddTxBytes ns s) = s_tx s + sum_list ns" for s
    by (induction ns arbitrary: s) (simp_all add: Session_AddTxBytes_def)
  ultimately show ?thesis by (simp add: Session_new_def)
qed

end
