(* ===== verification/Logging.thy ===== *)
theory Logging
  imports CLib
begin

text \<open>
  \<open>Log.cpp\<close>: the severity filter, the layout of a line and the two sinks. The message is
  the text \<open>vsprintf\<close> makes of the format and its arguments; the reading of the clock and
  whether \<open>fopen("logs.txt", "w")\<close> succeeds are arguments. Other components call \<open>Log\<close> for its output only,
  so that their definitions leave the calls out.
\<close>

datatype LogSeverity = Error | Warn | Info | Debug | Verbose

text \<open>The casts of \<open>Log\<close>: the enumerators count from 0, the most severe first.\<close>

primrec severity_code :: "LogSeverity \<Rightarrow> int" where
  "severity_code Error = 0"
| "severity_code Warn = 1"
| "severity_code Info = 2"
| "severity_code Debug = 3"
| "severity_code Verbose = 4"

text \<open>The order of the severities, by the value the code compares.\<close>

instantiation LogSeverity :: linorder
begin

definition less_eq_LogSeverity :: "LogSeverity \<Rightarrow> LogSeverity \<Rightarrow> bool" where
  "a \<le> b \<longleftrightarrow> severity_code a \<le> severity_code b"

definition less_LogSeverity :: "LogSeverity \<Rightarrow> LogSeverity \<Rightarrow> bool" where
  "a < b \<longleftrightarrow> severity_code a < severity_code b"

instance
proof
  fix a b :: LogSeverity
  show "a \<le> b \<Longrightarrow> b \<le> a \<Longrightarrow> a = b"
    by (cases a; cases b) (simp_all add: less_eq_LogSeverity_def)
qed (auto simp: less_eq_LogSeverity_def less_LogSeverity_def)

end

record log_state =
  m_verbosity :: LogSeverity
  m_toFile :: bool
  logFile :: bool           \<comment> \<open>the static \<open>FILE*\<close> is no longer null\<close>
  console :: "string list"
  logs_txt :: "string list" \<comment> \<open>the lines of the file\<close>

definition log_init :: "string list \<Rightarrow> log_state" where
  "log_init old = \<lparr>m_verbosity = Debug, m_toFile = False, logFile = False,
    console = [], logs_txt = old\<rparr>"

definition pad0 :: "nat \<Rightarrow> nat \<Rightarrow> string" where
  "pad0 w n = replicate (w - length (dec_nat n)) (CHR ''0'') @ dec_nat n"

primrec severity_tag :: "LogSeverity \<Rightarrow> string" where
  "severity_tag Error = [CHR 0x09] @ ''ERR'' @ [CHR 0x09]"
| "severity_tag Warn = [CHR 0x09] @ ''WRN'' @ [CHR 0x09]"
| "severity_tag Info = [CHR 0x09] @ ''NFO'' @ [CHR 0x09]"
| "severity_tag Debug = [CHR 0x09] @ ''DBG'' @ [CHR 0x09]"
| "severity_tag Verbose = []"

text \<open>What the \<open>sprintf\<close> calls leave in \<open>buf\<close>, before the terminator.\<close>

definition log_line :: "u64 \<Rightarrow> LogSeverity \<Rightarrow> string \<Rightarrow> string" where
  "log_line ts severity msg =
     ''['' @ pad0 4 (unat (ts div 1000)) @ ''.'' @ pad0 3 (unat (ts mod 1000)) @ '']'' @
     severity_tag severity @ msg"

definition Log :: "bool \<Rightarrow> u64 \<Rightarrow> LogSeverity \<Rightarrow> string \<Rightarrow> log_state \<Rightarrow> log_state res" where
  "Log fopen_ok ts severity msg st =
     (if severity_code (m_verbosity st) < severity_code severity then Inr st
      else
        let line = log_line ts severity msg in
        if 1024 \<le> length line then Inl BufferOverflow
        else
          let st = st\<lparr>console := console st @ [cstr line]\<rparr> in
          if m_toFile st then
            if \<not> logFile st then
              if fopen_ok then Inr (st\<lparr>logFile := True, logs_txt := [cstr line]\<rparr>)
              else Inl NullDeref
            else Inr (st\<lparr>logs_txt := logs_txt st @ [cstr line]\<rparr>)
          else Inr st)"

definition LogSetVerbosity :: "LogSeverity \<Rightarrow> log_state \<Rightarrow> log_state" where
  "LogSetVerbosity verbosity st = st\<lparr>m_verbosity := verbosity\<rparr>"

definition LogStoreToDisk :: "bool \<Rightarrow> log_state \<Rightarrow> log_state" where
  "LogStoreToDisk enable st = st\<lparr>m_toFile := True\<rparr>"

section \<open>Histories\<close>

type_synonym log_call = "u64 \<times> LogSeverity \<times> string"

fun log_run :: "bool \<Rightarrow> log_call list \<Rightarrow> log_state \<Rightarrow> log_state res" where
  "log_run ok [] st = Inr st"
| "log_run ok ((ts, sev, msg) # cs) st = bind_res (Log ok ts sev msg st) (log_run ok cs)"

definition emitted :: "LogSeverity \<Rightarrow> log_call list \<Rightarrow> string list" where
  "emitted v cs = map (\<lambda>(ts, sev, msg). cstr (log_line ts sev msg)) (filter (\<lambda>(ts, sev, msg). sev \<le> v) cs)"

definition fits :: "log_call \<Rightarrow> bool" where
  "fits c = (case c of (ts, sev, msg) \<Rightarrow> length (log_line ts sev msg) < 1024)"

lemma emitted_simps [simp]:
  "emitted v [] = []"
  "emitted v ((ts, sev, msg) # cs) =
     (if sev \<le> v then cstr (log_line ts sev msg) # emitted v cs else emitted v cs)"
  by (simp_all add: emitted_def)

lemma log_run_console:
  assumes "\<forall>c\<in>set cs. fits c" and "\<not> m_toFile st"
  shows "log_run ok cs st = Inr (st\<lparr>console := console st @ emitted (m_verbosity st) cs\<rparr>)"
  using assms
proof (induction cs arbitrary: st)
  case (Cons c cs)
  then show ?case
    by (cases c) (auto simp: Log_def Let_def fits_def less_eq_LogSeverity_def)
qed simp

lemma log_run_open:
  assumes "\<forall>c\<in>set cs. fits c" and "m_toFile st" and "logFile st"
  shows "log_run ok cs st = Inr (st\<lparr>console := console st @ emitted (m_verbosity st) cs,
    logs_txt := logs_txt st @ emitted (m_verbosity st) cs\<rparr>)"
  using assms
proof (induction cs arbitrary: st)
  case (Cons c cs)
  then show ?case
    by (cases c) (auto simp: Log_def Let_def fits_def less_eq_LogSeverity_def)
qed simp

lemma log_run_unopened:
  assumes "\<forall>c\<in>set cs. fits c" and "m_toFile st" and "\<not> logFile st"
  shows "log_run True cs st = Inr (
    let out = emitted (m_verbosity st) cs in
    st\<lparr>logFile := (out \<noteq> []), console := console st @ out,
       logs_txt := (if out = [] then logs_txt st else out)\<rparr>)"
  using assms
proof (induction cs arbitrary: st)
  case Nil
  then show ?case by simp
next
  case (Cons c cs)
  obtain ts sev msg where c: "c = (ts, sev, msg)" by (cases c)
  show ?case
  proof (cases "sev \<le> m_verbosity st")
    case True
    with Cons.prems show ?thesis
      by (auto simp: c Log_def Let_def fits_def less_eq_LogSeverity_def log_run_open)
  next
    case False
    with Cons show ?thesis
      by (auto simp: c Log_def Let_def less_eq_LogSeverity_def)
  qed
qed

text \<open>
  Messages that fit the line buffer are printed in order, exactly those at least as
  severe as the verbosity set, and nothing is written to disk while storing is off.
\<close>

theorem log_history:
  assumes "\<forall>c\<in>set cs. fits c"
  shows "log_run ok cs (LogSetVerbosity v (log_init old)) = Inr
    \<lparr>m_verbosity = v, m_toFile = False, logFile = False,
     console = emitted v cs, logs_txt = old\<rparr>"
  using assms by (simp add: log_run_console LogSetVerbosity_def log_init_def)

theorem log_history_witness:
  "map_sum id console (log_run True
     [(1234, Info, ''one''), (2000, Verbose, ''two''), (2000, Error, ''three'')]
     (LogSetVerbosity Warn (log_init [''old'']))) =
   Inr [''[0002.000]'' @ [CHR 0x09] @ ''ERR'' @ [CHR 0x09] @ ''three'']"
proof -
  let ?cs = "[(1234, Info, ''one''), (2000, Verbose, ''two''), (2000, Error, ''three'')] :: log_call list"
  have "\<forall>c\<in>set ?cs. fits c"
    by (simp add: fits_def log_line_def pad0_def dec_nat.simps)
  moreover have "cstr (log_line 2000 Error ''three'') =
      ''[0002.000]'' @ [CHR 0x09] @ ''ERR'' @ [CHR 0x09] @ ''three''"
    by code_simp
  ultimately show ?thesis using log_history [of ?cs True Warn "[''old'']"]
    by (simp add: less_eq_LogSeverity_def)
qed

text \<open>
  Once \<open>LogStoreToDisk\<close> has been called, with \<open>false\<close> as well as with \<open>true\<close>, every
  line printed is stored too, and the first one replaces what \<open>logs.txt\<close> held before.
\<close>

theorem log_store_ignores_argument:
  assumes "\<forall>c\<in>set cs. fits c" and "emitted v cs \<noteq> []"
  shows "log_run True cs (LogStoreToDisk enable (LogSetVerbosity v (log_init old))) = Inr
    \<lparr>m_verbosity = v, m_toFile = True, logFile = True,
     console = emitted v cs, logs_txt = emitted v cs\<rparr>"
  using assms by (simp add: log_run_unopened LogSetVerbosity_def LogStoreToDisk_def log_init_def Let_def)

theorem log_store_ignores_argument_witness:
  "map_sum id logs_txt (log_run True [(2000, Error, ''x'')]
     (LogStoreToDisk False (LogSetVerbosity Warn (log_init [''old''])))) =
   Inr [''[0002.000]'' @ [CHR 0x09] @ ''ERR'' @ [CHR 0x09] @ ''x'']"
proof -
  let ?cs = "[(2000, Error, ''x'')] :: log_call list"
  have "\<forall>c\<in>set ?cs. fits c"
    by (simp add: fits_def log_line_def pad0_def dec_nat.simps)
  moreover have "emitted Warn ?cs \<noteq> []" by (simp add: less_eq_LogSeverity_def)
  moreover have "cstr (log_line 2000 Error ''x'') =
      ''[0002.000]'' @ [CHR 0x09] @ ''ERR'' @ [CHR 0x09] @ ''x''"
    by code_simp
  ultimately show ?thesis using log_store_ignores_argument [of ?cs Warn False "[''old'']"]
    by (simp add: less_eq_LogSeverity_def)
qed

end
