(* ===== verification/HostCache.thy ===== *)
theory HostCache
  imports CLib
begin

text \<open>
  The cache of resolved addresses (\<open>HostInfoManager.hpp\<close>, \<open>HostInfoManager.cpp\<close>) and the
  resolver in front of it (\<open>IHostResolver.hpp\<close>, \<open>HostResolver.hpp\<close>, \<open>HostResolver.cpp\<close>). Each
  method of the cache holds its lock throughout, so that it is one step. The scan reads the clock
  once per entry it visits: the readings are a sequence. \<open>getaddrinfo\<close> with \<open>inet_ntop\<close> is
  a parameter.
\<close>

section \<open>The cache\<close>

record host_info =
  hi_url :: string
  hi_address :: string
  hi_ipVersion :: u8
  hi_Timestamp :: u64

type_synonym host_cache = "host_info list"

definition maxCacheSize :: nat where "maxCacheSize = 2048"

definition maxAge :: u64 where "maxAge = 1800 * 1000"

text \<open>
  The loops erase with \<open>erase(it++)\<close> and then run the \<open>it++\<close> of the \<open>for\<close>: the entry behind an
  erased one is stepped over, and there must be one.
\<close>

fun cached_loop ::
  "(nat \<Rightarrow> u64) \<Rightarrow> nat \<Rightarrow> string \<Rightarrow> host_cache \<Rightarrow> (host_cache \<times> host_info list) res" where
  "cached_loop now n url [] = Inr ([], [])"
| "cached_loop now n url (x # xs) =
     (if maxAge < now n - hi_Timestamp x
      then case xs of
             [] \<Rightarrow> Inl PastEnd
           | y # ys \<Rightarrow> bind_res (cached_loop now (Suc n) url ys) (\<lambda>(c, r). Inr (y # c, r))
      else if hi_url x = url
      then bind_res (cached_loop now (Suc n) url xs) (\<lambda>(c, r). Inr (x # c, x # r))
      else bind_res (cached_loop now (Suc n) url xs) (\<lambda>(c, r). Inr (x # c, r)))"

definition HostInfoCache_GetCachedResults ::
  "(nat \<Rightarrow> u64) \<Rightarrow> string \<Rightarrow> host_cache \<Rightarrow> (host_cache \<times> host_info list) res" where
  "HostInfoCache_GetCachedResults now url c = cached_loop now 0 url c"

fun clear_loop :: "string \<Rightarrow> host_cache \<Rightarrow> host_cache res" where
  "clear_loop url [] = Inr []"
| "clear_loop url (x # xs) =
     (if hi_url x = url
      then case xs of
             [] \<Rightarrow> Inl PastEnd
           | y # ys \<Rightarrow> bind_res (clear_loop url ys) (\<lambda>c. Inr (y # c))
      else bind_res (clear_loop url xs) (\<lambda>c. Inr (x # c)))"

definition HostInfoCache_ClearCacheForHost :: "string \<Rightarrow> host_cache \<Rightarrow> host_cache res" where
  "HostInfoCache_ClearCacheForHost url c = clear_loop url c"

definition HostInfoCache_AddResult :: "host_info \<Rightarrow> host_cache \<Rightarrow> host_cache" where
  "HostInfoCache_AddResult hostInfo c =
     (let c = c @ [hostInfo] in if maxCacheSize < length c then tl c else c)"

section \<open>The resolver\<close>

datatype ai_family = AF_INET | AF_INET6 | AF_other

text \<open>
  \<open>getaddrinfo\<close>: for a node and a service the addresses in order, each with its text form, or
  \<^term>\<open>None\<close> when it fails.
\<close>

type_synonym addrinfo = "string \<Rightarrow> string \<Rightarrow> (ai_family \<times> string) list option"

fun first_ipv4 :: "(ai_family \<times> string) list \<Rightarrow> string option" where
  "first_ipv4 [] = None"
| "first_ipv4 ((fam, ipString) # rs) = (if fam = AF_INET then Some ipString else first_ipv4 rs)"

text \<open>
  What one call reads from outside: the clock during the scan of the cache, the addresses and the
  clock when the answer is stored.
\<close>

record lookup_env =
  le_scan :: "nat \<Rightarrow> u64"
  le_getaddrinfo :: addrinfo
  le_now :: u64

definition HostResolver_GetAddressesForHost ::
  "lookup_env \<Rightarrow> string \<Rightarrow> u16 \<Rightarrow> bool \<Rightarrow> host_cache \<Rightarrow> (host_info list \<times> bool \<times> host_cache) res"
where
  "HostResolver_GetAddressesForHost env host port cached c =
     bind_res (HostInfoCache_GetCachedResults (le_scan env) host c)
       (\<lambda>(c, resultVector).
          if 0 < length resultVector then Inr (resultVector, True, c)
          else case le_getaddrinfo env (cstr host) (dec_nat (unat port)) of
                 None \<Rightarrow> Inr ([], cached, c)
               | Some results \<Rightarrow>
                   (case first_ipv4 results of
                      None \<Rightarrow> Inr (resultVector, cached, c)
                    | Some ipString \<Rightarrow>
                        let hostInfo = \<lparr>hi_url = host, hi_address = ipString, hi_ipVersion = 4,
                                        hi_Timestamp = le_now env\<rparr>
                        in Inr (resultVector @ [hostInfo], cached, HostInfoCache_AddResult hostInfo c)))"

definition HostResolver_ClearCacheForHost :: "string \<Rightarrow> host_cache \<Rightarrow> host_cache res" where
  "HostResolver_ClearCacheForHost host c = HostInfoCache_ClearCacheForHost host c"

section \<open>What the loops keep\<close>

lemma cached_loop_result:
  "cached_loop now n url xs = Inr (c, r) \<Longrightarrow>
   set c \<subseteq> set xs \<and> length c \<le> length xs \<and> set r \<subseteq> set c \<and>
   (\<forall>x\<in>set r. hi_url x = url \<and> (\<exists>k. now k - hi_Timestamp x \<le> maxAge))"
proof (induction now n url xs arbitrary: c r rule: cached_loop.induct)
  case (2 now n url x xs)
  show ?case
  proof (cases "maxAge < now n - hi_Timestamp x")
    case True
    with "2.prems" obtain y ys c' where xs: "xs = y # ys" and c: "c = y # c'"
      and rec: "cached_loop now (Suc n) url ys = Inr (c', r)"
      by (auto simp: bind_res_eq_Inr split: list.splits)
    from "2.IH"(1) [OF True xs rec] show ?thesis by (auto simp: xs c)
  next
    case False
    then have fresh: "now n - hi_Timestamp x \<le> maxAge" by (simp add: not_less)
    show ?thesis
    proof (cases "hi_url x = url")
      case True
      with False "2.prems" obtain c' r' where "c = x # c'" and "r = x # r'"
        and rec: "cached_loop now (Suc n) url xs = Inr (c', r')"
        by (auto simp: bind_res_eq_Inr)
      with "2.IH"(2) [OF False True rec] fresh True show ?thesis by auto
    next
      case other: False
      with False "2.prems" obtain c' where "c = x # c'"
        and rec: "cached_loop now (Suc n) url xs = Inr (c', r)"
        by (auto simp: bind_res_eq_Inr)
      with "2.IH"(3) [OF False other rec] show ?thesis by auto
    qed
  qed
qed simp

lemma cached_loop_fresh:
  "(\<And>x k. x \<in> set xs \<Longrightarrow> now k - hi_Timestamp x \<le> maxAge) \<Longrightarrow>
   cached_loop now n url xs = Inr (xs, filter (\<lambda>x. hi_url x = url) xs)"
proof (induction xs arbitrary: n)
  case (Cons x xs)
  then have "\<not> maxAge < now n - hi_Timestamp x" by (simp add: not_less)
  with Cons show ?case by simp
qed simp

lemma clear_loop_result:
  "clear_loop url xs = Inr c \<Longrightarrow> set c \<subseteq> set xs \<and> length c \<le> length xs \<and>
     filter (\<lambda>x. hi_url x \<noteq> url) c = filter (\<lambda>x. hi_url x \<noteq> url) xs"
proof (induction url xs arbitrary: c rule: clear_loop.induct)
  case (2 url x xs)
  then show ?case
    by (cases xs) (fastforce simp: bind_res_eq_Inr split: if_splits)+
qed simp

text \<open>Both loops run past the end when the number of doomed entries at the end is odd.\<close>

definition doomed_tail :: "('a \<Rightarrow> bool) \<Rightarrow> 'a list \<Rightarrow> nat" where
  "doomed_tail P xs = length (takeWhile P (rev xs))"

lemma doomed_tail_simps [simp]:
  "doomed_tail P [] = 0"
  "doomed_tail P (x # xs) =
     (if P x \<and> doomed_tail P xs = length xs then Suc (length xs) else doomed_tail P xs)"
proof -
  have "length (takeWhile P (rev xs)) = length xs \<longleftrightarrow> (\<forall>y\<in>set xs. P y)"
    by (metis length_rev order_refl set_rev takeWhile_eq_all_conv takeWhile_eq_take take_all)
  then show "doomed_tail P (x # xs) =
     (if P x \<and> doomed_tail P xs = length xs then Suc (length xs) else doomed_tail P xs)"
    by (auto simp: doomed_tail_def takeWhile_append takeWhile_eq_all_conv)
qed (simp add: doomed_tail_def)

lemma doomed_tail_le: "doomed_tail P xs \<le> length xs"
  unfolding doomed_tail_def by (metis length_rev length_takeWhile_le)


lemma doomed_tail_not_more [simp]: "doomed_tail P xs \<noteq> Suc (length xs)"
  using doomed_tail_le [of P xs] by simp

lemma cached_loop_fault:
  "cached_loop (\<lambda>_. t) n url xs = Inl e \<longleftrightarrow>
     e = PastEnd \<and> odd (doomed_tail (\<lambda>x. maxAge < t - hi_Timestamp x) xs)"
proof (induction "\<lambda>_::nat. t" n url xs rule: cached_loop.induct)
  case (2 n url x xs)
  show ?case
  proof (cases "maxAge < t - hi_Timestamp x")
    case True
    with 2 show ?thesis by (cases xs) (auto simp: bind_res_eq_Inl)
  next
    case False
    with 2 show ?thesis by (auto simp: bind_res_eq_Inl)
  qed
qed simp

lemma clear_loop_fault:
  "clear_loop url xs = Inl e \<longleftrightarrow> e = PastEnd \<and> odd (doomed_tail (\<lambda>x. hi_url x = url) xs)"
proof (induction url xs rule: clear_loop.induct)
  case (2 url x xs)
  then show ?case by (cases xs) (auto simp: bind_res_eq_Inl)
qed simp


section \<open>Properties of the cache\<close>

text \<open>
  A lookup that returns gives only entries of the wanted host that were in the cache and
  were not expired at some reading of the clock during the scan, and it never adds an entry.
\<close>

theorem cached_results_fresh:
  assumes "HostInfoCache_GetCachedResults now url c = Inr (c', r)"
  shows "set c' \<subseteq> set c \<and> length c' \<le> length c \<and> set r \<subseteq> set c' \<and>
    (\<forall>x\<in>set r. hi_url x = url \<and> (\<exists>k. now k - hi_Timestamp x \<le> 1800000))"
  using cached_loop_result [of now 0 url c c' r] assms
  by (simp add: HostInfoCache_GetCachedResults_def maxAge_def)

theorem cached_results_fresh_witness:
  "HostInfoCache_GetCachedResults (\<lambda>k. 2000000 + of_nat k) ''a.org''
     [\<lparr>hi_url = ''a.org'', hi_address = ''10.0.0.1'', hi_ipVersion = 4, hi_Timestamp = 0\<rparr>,
      \<lparr>hi_url = ''a.org'', hi_address = ''10.0.0.2'', hi_ipVersion = 4, hi_Timestamp = 500000\<rparr>,
      \<lparr>hi_url = ''a.org'', hi_address = ''10.0.0.3'', hi_ipVersion = 4, hi_Timestamp = 600000\<rparr>] =
   Inr ([\<lparr>hi_url = ''a.org'', hi_address = ''10.0.0.2'', hi_ipVersion = 4, hi_Timestamp = 500000\<rparr>,
      \<lparr>hi_url = ''a.org'', hi_address = ''10.0.0.3'', hi_ipVersion = 4, hi_Timestamp = 600000\<rparr>],
     [\<lparr>hi_url = ''a.org'', hi_address = ''10.0.0.3'', hi_ipVersion = 4, hi_Timestamp = 600000\<rparr>]) \<and>
   (\<exists>k. 2000000 + of_nat k - 600000 \<le> (1800000 :: u64))"
proof -
  let ?x = "\<lambda>a t. \<lparr>hi_url = ''a.org'', hi_address = a, hi_ipVersion = 4, hi_Timestamp = t\<rparr>"
  have "HostInfoCache_GetCachedResults (\<lambda>k. 2000000 + of_nat k) ''a.org''
     [?x ''10.0.0.1'' 0, ?x ''10.0.0.2'' 500000, ?x ''10.0.0.3'' 600000] =
    Inr ([?x ''10.0.0.2'' 500000, ?x ''10.0.0.3'' 600000], [?x ''10.0.0.3'' 600000])"
    by (simp add: HostInfoCache_GetCachedResults_def maxAge_def)
  from cached_results_fresh [OF this] this show ?thesis by auto
qed

text \<open>
  The erasing loop runs past the end of the list exactly when an odd number of entries at
  the end have expired; in particular when a single cached entry has.
\<close>

theorem cached_results_past_end:
  "HostInfoCache_GetCachedResults (\<lambda>_. t) url c = Inl e \<longleftrightarrow>
     e = PastEnd \<and> odd (length (takeWhile (\<lambda>x. 1800000 < t - hi_Timestamp x) (rev c)))"
  by (simp add: HostInfoCache_GetCachedResults_def cached_loop_fault doomed_tail_def maxAge_def)

text \<open>
  C36: Purging a host never touches the entries of other hosts, and runs past the end exactly
  when the number of entries of the host at the end of the list is odd.
\<close>

theorem clear_cache_for_host:
  "(HostInfoCache_ClearCacheForHost url c = Inl e \<longleftrightarrow>
      e = PastEnd \<and> odd (length (takeWhile (\<lambda>x. hi_url x = url) (rev c)))) \<and>
   (case HostInfoCache_ClearCacheForHost url c of
      Inl _ \<Rightarrow> True
    | Inr c' \<Rightarrow> filter (\<lambda>x. hi_url x \<noteq> url) c' = filter (\<lambda>x. hi_url x \<noteq> url) c)"
  using clear_loop_result [of url c]
  by (auto simp: HostInfoCache_ClearCacheForHost_def clear_loop_fault doomed_tail_def
      split: sum.splits)

section \<open>The resolver as clients see it\<close>

text \<open>
  The contract of \<open>IHostResolver\<close>: answers are for the host asked about, and both operations
  keep the resolver in shape.
\<close>

locale resolver =
  fixes resolve :: "'e \<Rightarrow> string \<Rightarrow> u16 \<Rightarrow> bool \<Rightarrow> 'r \<Rightarrow> (host_info list \<times> bool \<times> 'r) res"
    and forget :: "string \<Rightarrow> 'r \<Rightarrow> 'r res"
    and shape :: "'r \<Rightarrow> bool"
  assumes resolve_answer: "shape r \<Longrightarrow> resolve e host port b r = Inr (xs, b', r') \<Longrightarrow>
      shape r' \<and> (\<forall>x\<in>set xs. hi_url x = host \<and> hi_ipVersion x = 4)"
    and forget_shape: "shape r \<Longrightarrow> forget host r = Inr r' \<Longrightarrow> shape r'"
begin

text \<open>A client that skips the addresses of one host name skips all of an answer or nothing.\<close>

lemma skip_all_or_nothing:
  assumes "shape r" and "resolve e host port b r = Inr (xs, b', r')"
  shows "filter (\<lambda>x. hi_url x \<noteq> bad) xs = (if host = bad then [] else xs)"
  using resolve_answer [OF assms] by (auto simp: filter_id_conv)

end

definition wf_cache :: "host_cache \<Rightarrow> bool" where
  "wf_cache c \<longleftrightarrow> length c \<le> 2048 \<and> (\<forall>x\<in>set c. hi_ipVersion x = 4)"

lemma AddResult_mem: "set (HostInfoCache_AddResult x c) \<subseteq> insert x (set c)"
  using set_take_subset
  by (cases c) (auto simp: HostInfoCache_AddResult_def Let_def)

lemma AddResult_last:
  "\<exists>ys. HostInfoCache_AddResult x c = ys @ [x] \<and> set ys \<subseteq> set c"
  by (cases c) (auto simp: HostInfoCache_AddResult_def Let_def maxCacheSize_def)

lemma length_AddResult: "length c \<le> 2048 \<Longrightarrow> length (HostInfoCache_AddResult x c) \<le> 2048"
  by (auto simp: HostInfoCache_AddResult_def Let_def maxCacheSize_def)

lemma GetAddresses_answer:
  assumes "wf_cache c" and "HostResolver_GetAddressesForHost env host port b c = Inr (xs, b', c')"
  shows "wf_cache c' \<and> (\<forall>x\<in>set xs. hi_url x = host \<and> hi_ipVersion x = 4)"
proof -
  obtain c1 r where scan: "cached_loop (le_scan env) 0 host c = Inr (c1, r)"
    using assms(2)
    by (auto simp: HostResolver_GetAddressesForHost_def HostInfoCache_GetCachedResults_def bind_res_eq_Inr)
  from cached_loop_result [OF scan] assms(1)
  have c1: "wf_cache c1" and r: "\<forall>x\<in>set r. hi_url x = host \<and> hi_ipVersion x = 4"
    by (auto simp: wf_cache_def)
  have "wf_cache (HostInfoCache_AddResult x c1)" if "hi_ipVersion x = 4" for x
    using c1 that AddResult_mem [of x c1] length_AddResult [of c1 x] by (auto simp: wf_cache_def)
  with assms(2) c1 r show ?thesis
    by (auto simp: HostResolver_GetAddressesForHost_def HostInfoCache_GetCachedResults_def scan
        Let_def split: if_splits option.splits)
qed

lemma ClearCache_shape:
  "wf_cache c \<Longrightarrow> HostResolver_ClearCacheForHost host c = Inr c' \<Longrightarrow> wf_cache c'"
  using clear_loop_result [of host c c']
  by (auto simp: wf_cache_def HostResolver_ClearCacheForHost_def HostInfoCache_ClearCacheForHost_def)

interpretation rs: resolver HostResolver_GetAddressesForHost HostResolver_ClearCacheForHost wf_cache
  by unfold_locales (auto dest: GetAddresses_answer ClearCache_shape)


text \<open>The caches the proxy can come to, lookup by lookup and purge by purge.\<close>

inductive cache_reach :: "host_cache \<Rightarrow> bool" where
  start: "cache_reach []"
| asked: "cache_reach c \<Longrightarrow>
    HostResolver_GetAddressesForHost env host port b c = Inr (xs, b', c') \<Longrightarrow> cache_reach c'"
| purged: "cache_reach c \<Longrightarrow> HostResolver_ClearCacheForHost host c = Inr c' \<Longrightarrow> cache_reach c'"

lemma cache_reach_wf: "cache_reach c \<Longrightarrow> wf_cache c"
proof (induction rule: cache_reach.induct)
  case start
  then show ?case by (simp add: wf_cache_def)
qed (auto dest: rs.resolve_answer rs.forget_shape)

text \<open>
  C35: Whatever sequence of lookups and purges the proxy makes from the empty cache, the cache
  never holds more than 2048 entries, and all of them are IPv4 addresses.
\<close>

theorem cache_stays_bounded:
  assumes "cache_reach c"
  shows "length c \<le> 2048 \<and> (\<forall>x\<in>set c. hi_ipVersion x = 4)"
  using cache_reach_wf [OF assms] by (simp add: wf_cache_def)

definition one_address :: "u64 \<Rightarrow> lookup_env" where
  "one_address t = \<lparr>le_scan = \<lambda>_. t,
     le_getaddrinfo = (\<lambda>_ _. Some [(AF_INET6, ''fe80::1''), (AF_INET, ''10.0.0.1'')]), le_now = t\<rparr>"

theorem cache_stays_bounded_witness:
  "\<exists>c. cache_reach c \<and> c \<noteq> [] \<and> length c \<le> 2048"
proof -
  have "HostResolver_GetAddressesForHost (one_address 5) ''a.org'' 80 False [] =
      Inr ([\<lparr>hi_url = ''a.org'', hi_address = ''10.0.0.1'', hi_ipVersion = 4, hi_Timestamp = 5\<rparr>], False,
        [\<lparr>hi_url = ''a.org'', hi_address = ''10.0.0.1'', hi_ipVersion = 4, hi_Timestamp = 5\<rparr>])"
    by (simp add: HostResolver_GetAddressesForHost_def HostInfoCache_GetCachedResults_def
        one_address_def HostInfoCache_AddResult_def Let_def maxCacheSize_def)
  then have "cache_reach [\<lparr>hi_url = ''a.org'', hi_address = ''10.0.0.1'', hi_ipVersion = 4, hi_Timestamp = 5\<rparr>]"
    using cache_reach.asked [OF cache_reach.start] by blast
  from this cache_stays_bounded [OF this] show ?thesis by blast
qed

definition all_fresh :: "lookup_env \<Rightarrow> host_cache \<Rightarrow> bool" where
  "all_fresh env c \<longleftrightarrow> (\<forall>x\<in>set c. \<forall>k. le_scan env k - hi_Timestamp x \<le> maxAge)"

lemma resolve_fresh:
  assumes "all_fresh env c"
  shows "HostInfoCache_GetCachedResults (le_scan env) host c =
    Inr (c, filter (\<lambda>x. hi_url x = host) c)"
  using assms cached_loop_fresh [of c "le_scan env" 0 host]
  by (simp add: all_fresh_def HostInfoCache_GetCachedResults_def)

lemma filter_AddResult:
  assumes "P x" and "filter P c = []"
  shows "filter P (HostInfoCache_AddResult x c) = [x]"
  using assms by (cases c) (auto simp: HostInfoCache_AddResult_def Let_def maxCacheSize_def filter_empty_conv)

text \<open>
  Lookup, store, lookup again. A host that is not in the cache is resolved to the first IPv4
  address \<open>getaddrinfo\<close> lists; until the entries expire, the next lookup is answered with
  the same address from the cache, whatever \<open>getaddrinfo\<close> would say by then, and leaves
  the cache as it is.
\<close>

theorem resolve_then_hit:
  assumes "all_fresh env c" and "\<forall>x\<in>set c. hi_url x \<noteq> host"
    and "le_getaddrinfo env (cstr host) (dec_nat (unat port)) = Some results"
    and "first_ipv4 results = Some ip"
    and "HostResolver_GetAddressesForHost env host port False c = Inr (xs, cached, c')"
    and "all_fresh env' c'"
  shows "xs = [\<lparr>hi_url = host, hi_address = ip, hi_ipVersion = 4, hi_Timestamp = le_now env\<rparr>] \<and>
    \<not> cached \<and> HostResolver_GetAddressesForHost env' host port' False c' = Inr (xs, True, c')"
proof -
  let ?x = "\<lparr>hi_url = host, hi_address = ip, hi_ipVersion = 4, hi_Timestamp = le_now env\<rparr> :: host_info"
  have none: "filter (\<lambda>x. hi_url x = host) c = []" using assms(2) by (simp add: filter_empty_conv)
  with assms(1,3,4,5) have r: "xs = [?x]" "\<not> cached" "c' = HostInfoCache_AddResult ?x c"
    by (simp_all add: HostResolver_GetAddressesForHost_def resolve_fresh Let_def)
  from none have "filter (\<lambda>x. hi_url x = host) c' = [?x]"
    unfolding r(3) by (intro filter_AddResult) simp_all
  with assms(6) r(1,2) show ?thesis
    by (simp add: HostResolver_GetAddressesForHost_def resolve_fresh)
qed

theorem resolve_then_hit_witness:
  "HostResolver_GetAddressesForHost
     \<lparr>le_scan = \<lambda>_. 900000, le_getaddrinfo = (\<lambda>_ _. None), le_now = 900000\<rparr> ''a.org'' 443 False
     [\<lparr>hi_url = ''a.org'', hi_address = ''10.0.0.1'', hi_ipVersion = 4, hi_Timestamp = 5\<rparr>] =
   Inr ([\<lparr>hi_url = ''a.org'', hi_address = ''10.0.0.1'', hi_ipVersion = 4, hi_Timestamp = 5\<rparr>], True,
     [\<lparr>hi_url = ''a.org'', hi_address = ''10.0.0.1'', hi_ipVersion = 4, hi_Timestamp = 5\<rparr>])"
proof -
  let ?x = "\<lparr>hi_url = ''a.org'', hi_address = ''10.0.0.1'', hi_ipVersion = 4, hi_Timestamp = 5\<rparr> :: host_info"
  let ?env' = "\<lparr>le_scan = \<lambda>_. 900000, le_getaddrinfo = (\<lambda>_ _. None), le_now = 900000\<rparr>"
  have "HostResolver_GetAddressesForHost (one_address 5) ''a.org'' 80 False [] = Inr ([?x], False, [?x])"
    by (simp add: HostResolver_GetAddressesForHost_def HostInfoCache_GetCachedResults_def
        one_address_def HostInfoCache_AddResult_def Let_def maxCacheSize_def)
  moreover have "all_fresh ?env' [?x]" by (simp add: all_fresh_def maxAge_def)
  ultimately show ?thesis
    using resolve_then_hit [of "one_address 5" "[]" "''a.org''" 80 _ "''10.0.0.1''" "[?x]" False "[?x]"
        ?env' 443]
    by (simp add: one_address_def all_fresh_def)
qed

text \<open>
  An expired entry hides its neighbour: the entry behind it is not returned although it is
  fresh and of the right host, so that the host is resolved again and cached twice.
\<close>

theorem expired_entry_hides_next:
  assumes "1800000 < t - hi_Timestamp x" and "t - hi_Timestamp y \<le> 1800000" and "hi_url y = url"
  shows "HostInfoCache_GetCachedResults (\<lambda>_. t) url [x, y] = Inr ([y], []) \<and>
    HostInfoCache_GetCachedResults (\<lambda>_. t) url [y] = Inr ([y], [y])"
  using assms by (simp add: HostInfoCache_GetCachedResults_def maxAge_def not_less)

theorem expired_entry_hides_next_witness:
  "HostInfoCache_GetCachedResults (\<lambda>_. 1800010) ''b.org''
     [\<lparr>hi_url = ''a.org'', hi_address = ''10.0.0.1'', hi_ipVersion = 4, hi_Timestamp = 0\<rparr>,
      \<lparr>hi_url = ''b.org'', hi_address = ''10.0.0.2'', hi_ipVersion = 4, hi_Timestamp = 1800000\<rparr>] =
   Inr ([\<lparr>hi_url = ''b.org'', hi_address = ''10.0.0.2'', hi_ipVersion = 4, hi_Timestamp = 1800000\<rparr>], [])"
  using expired_entry_hides_next [of 1800010
      "\<lparr>hi_url = ''a.org'', hi_address = ''10.0.0.1'', hi_ipVersion = 4, hi_Timestamp = 0\<rparr>"
      "\<lparr>hi_url = ''b.org'', hi_address = ''10.0.0.2'', hi_ipVersion = 4, hi_Timestamp = 1800000\<rparr>"]
  by simp

end
