(* ===== verification/Messenger.thy ===== *)
theory Messenger
  imports Interfaces
begin

text \<open>
  \<open>AsyncMessenger.hpp\<close> and \<open>AsyncMessenger.cpp\<close>: the messages the worker threads send the
  main loop through a pipe. A message is its 16 bytes in memory: a 4-byte enumerator, then a
  union of two packed structures that both begin with the number of the session, then padding.
  The pipe is the bytes in it; a write of a message is atomic, as it is shorter than
  \<open>PIPE_BUF\<close> and the writers hold a lock.
\<close>

section \<open>Messages in memory\<close>

type_synonym bytes = "u8 list"

datatype AsyncMessageId = HOST_DETECT_RESULT | HOST_CONNECT_RESULT | Other_message int

definition msg_size :: nat where "msg_size = 16"

definition int_bytes :: "int \<Rightarrow> bytes" where
  "int_bytes i = map (\<lambda>k. word_of_int (i div 256 ^ k)) [0, 1, 2, 3]"

definition bytes_int :: "bytes \<Rightarrow> int" where
  "bytes_int bs = signed_take_bit 31
     (uint (bs ! 0) + 256 * uint (bs ! 1) + 65536 * uint (bs ! 2) + 16777216 * uint (bs ! 3))"

definition store :: "nat \<Rightarrow> bytes \<Rightarrow> bytes \<Rightarrow> bytes" where
  "store off bs m = take off m @ bs @ drop (off + length bs) m"

definition load :: "nat \<Rightarrow> nat \<Rightarrow> bytes \<Rightarrow> bytes" where
  "load off n m = take n (drop off m)"

definition AsyncMessage_zero :: bytes where
  "AsyncMessage_zero = replicate msg_size 0"

text \<open>The members, by offset: \<open>hostDetectResult\<close> and \<open>hostConnectResult\<close> overlap.\<close>

definition set_msgId :: "AsyncMessageId \<Rightarrow> bytes \<Rightarrow> bytes" where
  "set_msgId i = store 0 (int_bytes (case i of HOST_DETECT_RESULT \<Rightarrow> 0 | HOST_CONNECT_RESULT \<Rightarrow> 1
     | Other_message n \<Rightarrow> n))"

definition get_msgId :: "bytes \<Rightarrow> AsyncMessageId" where
  "get_msgId m = (let i = bytes_int (load 0 4 m) in
     if i = 0 then HOST_DETECT_RESULT else if i = 1 then HOST_CONNECT_RESULT else Other_message i)"

definition detect_set_sessionId :: "int \<Rightarrow> bytes \<Rightarrow> bytes" where
  "detect_set_sessionId i = store 4 (int_bytes i)"

definition detect_sessionId :: "bytes \<Rightarrow> int" where
  "detect_sessionId m = bytes_int (load 4 4 m)"

definition detect_set_success :: "bool \<Rightarrow> bytes \<Rightarrow> bytes" where
  "detect_set_success b = store 8 [of_bool b]"

definition detect_success :: "bytes \<Rightarrow> bool" where
  "detect_success m = (m ! 8 \<noteq> 0)"

definition connect_set_sessionId :: "int \<Rightarrow> bytes \<Rightarrow> bytes" where
  "connect_set_sessionId i = store 4 (int_bytes i)"

definition connect_sessionId :: "bytes \<Rightarrow> int" where
  "connect_sessionId m = bytes_int (load 4 4 m)"

definition connect_set_proxyFd :: "int \<Rightarrow> bytes \<Rightarrow> bytes" where
  "connect_set_proxyFd fd = store 8 (int_bytes fd)"

definition connect_proxyFd :: "bytes \<Rightarrow> int" where
  "connect_proxyFd m = bytes_int (load 8 4 m)"

definition connect_set_success :: "bool \<Rightarrow> bytes \<Rightarrow> bytes" where
  "connect_set_success b = store 12 [of_bool b]"

definition connect_success :: "bytes \<Rightarrow> bool" where
  "connect_success m = (m ! 12 \<noteq> 0)"

section \<open>The pipe\<close>

record messenger =
  readPipe :: int
  writePipe :: int
  m_pipe :: bytes

text \<open>\<open>pipe\<close> gives two descriptors or fails, and then the process exits.\<close>

definition AsyncMessenger_new :: "(int \<times> int) option \<Rightarrow> messenger option" where
  "AsyncMessenger_new fds =
     (case fds of None \<Rightarrow> None
      | Some (r, w) \<Rightarrow> Some \<lparr>readPipe = r, writePipe = w, m_pipe = []\<rparr>)"

definition AsyncMessenger_GetReadFd :: "messenger \<Rightarrow> int" where
  "AsyncMessenger_GetReadFd am = readPipe am"

text \<open>The number of bytes \<open>write\<close> wrote: all of them, or -1 and none.\<close>

definition AsyncMessenger_WriteMessage :: "bool \<Rightarrow> bytes \<Rightarrow> messenger \<Rightarrow> bool \<times> messenger" where
  "AsyncMessenger_WriteMessage wrote message am =
     (let numWritten = (if wrote then int msg_size else - 1);
          am' = (if wrote then am\<lparr>m_pipe := m_pipe am @ message\<rparr> else am)
      in if numWritten = int msg_size then (True, am') else (False, am'))"

text \<open>
  \<open>read\<close> fails and leaves the message as it is, or blocks (\<^term>\<open>None\<close>), or fills in
  as many bytes as there are.
\<close>

definition AsyncMessenger_ReadMessage ::
  "bool \<Rightarrow> bytes \<Rightarrow> messenger \<Rightarrow> (bytes \<times> messenger) option" where
  "AsyncMessenger_ReadMessage failed message am =
     (if failed then Some (message, am)
      else if m_pipe am = [] then None
      else Some (store 0 (take msg_size (m_pipe am)) message,
                 am\<lparr>m_pipe := drop msg_size (m_pipe am)\<rparr>))"

text \<open>The two senders' messages.\<close>

definition connect_message :: "int \<Rightarrow> int \<Rightarrow> bool \<Rightarrow> bytes" where
  "connect_message fd sessionId success =
     connect_set_success success
       (connect_set_sessionId sessionId
         (connect_set_proxyFd fd
           (set_msgId HOST_CONNECT_RESULT AsyncMessage_zero)))"

definition detect_message :: "int \<Rightarrow> bool \<Rightarrow> bytes" where
  "detect_message sessionId success =
     detect_set_success success
       (detect_set_sessionId sessionId
         (set_msgId HOST_DETECT_RESULT AsyncMessage_zero))"

section \<open>Members\<close>

lemma bytes_int_bytes:
  assumes "- (2 ^ 31) \<le> i" and "i < 2 ^ 31"
  shows "bytes_int (int_bytes i) = i"
proof -
  have u: "uint (word_of_int x :: 8 word) = x mod 256" for x
    by (simp add: unsigned_of_int take_bit_eq_mod)
  have sum: "i mod 256 + 256 * (i div 256 mod 256) + 65536 * (i div 65536 mod 256) +
      16777216 * (i div 16777216 mod 256) = take_bit 32 i"
    using zmod_zmult2_eq [of 256 i 256] zmod_zmult2_eq [of 256 i 65536]
      zmod_zmult2_eq [of 256 i 16777216] zmod_zmult2_eq [of 65536 i 256]
      zmod_zmult2_eq [of 16777216 i 256]
    by (simp add: take_bit_eq_mod)
  have "bytes_int (int_bytes i) = signed_take_bit 31 (i mod 256 + 256 * (i div 256 mod 256) +
      65536 * (i div 65536 mod 256) + 16777216 * (i div 16777216 mod 256))"
    by (simp add: bytes_int_def int_bytes_def u)
  also have "\<dots> = signed_take_bit 31 (take_bit 32 i)" by (simp only: sum)
  also have "\<dots> = signed_take_bit 31 i" by (simp add: signed_take_bit_take_bit)
  also have "\<dots> = i" using assms by (intro signed_take_bit_int_eq_self) auto
  finally show ?thesis .
qed


lemma length_int_bytes [simp]: "length (int_bytes i) = 4"
  by (simp add: int_bytes_def)

lemma length_store [simp]: "off + length bs \<le> length m \<Longrightarrow> length (store off bs m) = length m"
  by (simp add: store_def)

text \<open>Reading back what was stored, and what a store elsewhere leaves alone.\<close>

lemma load_store_same: "off + length bs \<le> length m \<Longrightarrow> load off (length bs) (store off bs m) = bs"
  by (simp add: load_def store_def)

lemma load_store_before: "off' + n \<le> off \<Longrightarrow> off \<le> length m \<Longrightarrow> load off' n (store off bs m) = load off' n m"
  by (simp add: load_def store_def drop_take)

lemma load_store_after:
  "off + length bs \<le> off' \<Longrightarrow> off + length bs \<le> length m \<Longrightarrow>
   load off' n (store off bs m) = load off' n m"
  by (simp add: load_def store_def)

lemma nth_store:
  "off + length bs \<le> length m \<Longrightarrow>
   store off bs m ! k = (if off \<le> k \<and> k < off + length bs then bs ! (k - off) else m ! k)"
  by (auto simp: store_def nth_append)

lemmas message_defs =
  connect_message_def detect_message_def set_msgId_def get_msgId_def detect_set_sessionId_def
  detect_sessionId_def detect_set_success_def detect_success_def connect_set_sessionId_def
  connect_sessionId_def connect_set_proxyFd_def connect_proxyFd_def connect_set_success_def
  connect_success_def AsyncMessage_zero_def msg_size_def

lemma load_int_same: "off + 4 \<le> length m \<Longrightarrow> load off 4 (store off (int_bytes i) m) = int_bytes i"
  using load_store_same [of off "int_bytes i" m] by simp

lemmas message_ops =
  load_int_same load_store_before load_store_after nth_store bytes_int_bytes

definition int32 :: "int \<Rightarrow> bool" where
  "int32 i \<longleftrightarrow> - (2 ^ 31) \<le> i \<and> i < 2 ^ 31"

lemma length_messages [simp]:
  "length (connect_message fd i b) = 16" "length (detect_message i b) = 16"
  by (simp_all add: message_defs)

lemma connect_message_fields:
  assumes "int32 fd" and "int32 i"
  shows "get_msgId (connect_message fd i b) = HOST_CONNECT_RESULT"
    and "connect_sessionId (connect_message fd i b) = i"
    and "detect_sessionId (connect_message fd i b) = i"
    and "connect_proxyFd (connect_message fd i b) = fd"
    and "connect_success (connect_message fd i b) = b"
  using assms by (simp_all add: message_defs message_ops int32_def)

lemma detect_message_fields:
  assumes "int32 i"
  shows "get_msgId (detect_message i b) = HOST_DETECT_RESULT"
    and "detect_sessionId (detect_message i b) = i"
    and "detect_success (detect_message i b) = b"
  using assms by (simp_all add: message_defs message_ops int32_def)

section \<open>The pipe as a queue of messages\<close>

definition wf_pipe :: "messenger \<Rightarrow> bool" where
  "wf_pipe am \<longleftrightarrow> length (m_pipe am) mod 16 = 0"

fun chunks :: "bytes \<Rightarrow> bytes list" where
  "chunks bs = (if bs = [] then [] else take 16 bs # chunks (drop 16 bs))"

declare chunks.simps [simp del]

definition pipe_messages :: "messenger \<Rightarrow> bytes list" where
  "pipe_messages am = chunks (m_pipe am)"

definition pipe_deq :: "messenger \<Rightarrow> (bytes \<times> messenger) option" where
  "pipe_deq = AsyncMessenger_ReadMessage False AsyncMessage_zero"

definition is_message :: "bytes \<Rightarrow> bool" where
  "is_message m \<longleftrightarrow> length m = 16"

lemma chunks_Nil_iff [simp]: "chunks bs = [] \<longleftrightarrow> bs = []"
  by (subst chunks.simps) simp

lemma chunks_append:
  "length bs mod 16 = 0 \<Longrightarrow> length m = 16 \<Longrightarrow> chunks (bs @ m) = chunks bs @ [m]"
proof (induction bs rule: chunks.induct)
  case (1 bs)
  show ?case
  proof (cases "bs = []")
    case True
    with 1(3) show ?thesis by (subst chunks.simps) (auto simp: chunks.simps)
  next
    case False
    with 1(2) have len: "16 \<le> length bs" by (cases "length bs < 16") auto
    with 1(2) have "length (drop 16 bs) mod 16 = 0" by (simp add: le_mod_geq)
    with 1(1) [OF False] 1(3) have "chunks (drop 16 bs @ m) = chunks (drop 16 bs) @ [m]" by blast
    with False len show ?thesis
      by (subst chunks.simps, subst (2) chunks.simps) simp
  qed
qed

lemma wf_pipe_16: "wf_pipe am \<Longrightarrow> m_pipe am \<noteq> [] \<Longrightarrow> 16 \<le> length (m_pipe am)"
  unfolding wf_pipe_def by (cases "length (m_pipe am) < 16") auto

interpretation pipe: fifo "\<lambda>m am. snd (AsyncMessenger_WriteMessage True m am)" pipe_deq
    pipe_messages is_message wf_pipe
proof unfold_locales
  fix m am
  assume m: "is_message m" and wf: "wf_pipe am"
  then show "pipe_messages (snd (AsyncMessenger_WriteMessage True m am)) = pipe_messages am @ [m]"
    and "wf_pipe (snd (AsyncMessenger_WriteMessage True m am))"
    by (simp_all add: pipe_messages_def wf_pipe_def AsyncMessenger_WriteMessage_def chunks_append
        is_message_def)
next
  fix am
  assume "wf_pipe am" and "pipe_messages am = []"
  then show "pipe_deq am = None"
    by (simp add: pipe_deq_def pipe_messages_def AsyncMessenger_ReadMessage_def)
next
  fix am x xs
  assume wf: "wf_pipe am" and q: "pipe_messages am = x # xs"
  then have ne: "m_pipe am \<noteq> []" by (auto simp: pipe_messages_def chunks.simps)
  with q have "x = take 16 (m_pipe am)" and "xs = chunks (drop 16 (m_pipe am))"
    by (simp_all add: pipe_messages_def chunks.simps [of "m_pipe am"])
  moreover have "length (drop 16 (m_pipe am)) mod 16 = 0"
    using wf wf_pipe_16 [OF wf ne] by (simp add: wf_pipe_def le_mod_geq)
  moreover have "store 0 (take 16 (m_pipe am)) AsyncMessage_zero = take 16 (m_pipe am)"
    using wf_pipe_16 [OF wf ne] by (simp add: store_def AsyncMessage_zero_def msg_size_def)
  ultimately show "\<exists>am'. pipe_deq am = Some (x, am') \<and> pipe_messages am' = xs \<and> wf_pipe am'"
    using ne
    by (auto simp: pipe_deq_def AsyncMessenger_ReadMessage_def msg_size_def pipe_messages_def
        wf_pipe_def intro!: exI [of _ "am\<lparr>m_pipe := drop 16 (m_pipe am)\<rparr>"])
qed


section \<open>What the main loop gets\<close>

text \<open>A report as the sender means it, and as the fields the receiver looks at give it.\<close>

datatype report = Detected int bool | Connected int int bool | Garbled

fun encode :: "report \<Rightarrow> bytes" where
  "encode (Detected i b) = detect_message i b"
| "encode (Connected fd i b) = connect_message fd i b"
| "encode Garbled = AsyncMessage_zero"

definition decode :: "bytes \<Rightarrow> report" where
  "decode m = (case get_msgId m of
     HOST_DETECT_RESULT \<Rightarrow> Detected (detect_sessionId m) (detect_success m)
   | HOST_CONNECT_RESULT \<Rightarrow> Connected (connect_proxyFd m) (detect_sessionId m) (connect_success m)
   | Other_message _ \<Rightarrow> Garbled)"

fun proper :: "report \<Rightarrow> bool" where
  "proper (Detected i b) = int32 i"
| "proper (Connected fd i b) = (int32 fd \<and> int32 i)"
| "proper Garbled = False"

lemma decode_encode: "proper r \<Longrightarrow> decode (encode r) = r"
  by (cases r) (auto simp: decode_def connect_message_fields detect_message_fields)

lemma is_message_encode: "is_message (encode r)"
  by (cases r) (auto simp: is_message_def AsyncMessage_zero_def msg_size_def)

definition send_report :: "report \<Rightarrow> messenger \<Rightarrow> messenger" where
  "send_report r am = snd (AsyncMessenger_WriteMessage True (encode r) am)"

text \<open>
  C18: Reports of the worker threads reach the main loop complete, once each and in the order
  of the writes: reading as many messages as were written decodes to exactly the reports sent,
  and leaves the pipe empty, although the two kinds of message share the bytes of a union.
\<close>

theorem reports_arrive_in_order:
  assumes "AsyncMessenger_new (Some fds) = Some am" and "list_all proper rs"
  shows "\<exists>ms am'. drain pipe_deq (length rs) (fold send_report rs am) = Some (ms, am') \<and>
    map decode ms = rs \<and> m_pipe am' = []"
proof -
  have wf: "wf_pipe am" and e: "pipe_messages am = []"
    using assms(1) by (auto simp: AsyncMessenger_new_def wf_pipe_def pipe_messages_def split: prod.splits)
  have f: "fold send_report rs am =
      fold (\<lambda>m am. snd (AsyncMessenger_WriteMessage True m am)) (map encode rs) am"
    unfolding fold_map by (rule arg_cong [of _ _ "\<lambda>f. fold f rs am"]) (simp add: send_report_def fun_eq_iff)
  have "list_all is_message (map encode rs)" by (simp add: list_all_iff is_message_encode)
  from pipe.elems_fold_enq [OF this wf] e
  have q: "pipe_messages (fold send_report rs am) = map encode rs @ []"
    and wf': "wf_pipe (fold send_report rs am)"
    by (simp_all add: f)
  obtain am' where "drain pipe_deq (length rs) (fold send_report rs am) = Some (map encode rs, am')"
    and "pipe_messages am' = []"
    using pipe.drain_all [OF wf' q] by auto
  moreover have "map decode (map encode rs) = rs"
    using assms(2) by (induction rs) (auto simp: decode_encode)
  ultimately show ?thesis by (auto simp: pipe_messages_def)
qed

theorem reports_arrive_in_order_witness:
  "\<exists>ms am'. drain pipe_deq (Suc (Suc 0)) (fold send_report [Detected 3 True, Connected 9 3 True]
      \<lparr>readPipe = 4, writePipe = 5, m_pipe = []\<rparr>) = Some (ms, am') \<and>
    map decode ms = [Detected 3 True, Connected 9 3 True] \<and> m_pipe am' = []"
  using reports_arrive_in_order [of "(4, 5)" "\<lparr>readPipe = 4, writePipe = 5, m_pipe = []\<rparr>"
      "[Detected 3 True, Connected 9 3 True]"]
  by (simp add: AsyncMessenger_new_def int32_def del: drain.simps)

text \<open>
  When the read of the pipe fails, the zeroed message is taken for a report that the
  detection of session 0 failed.
\<close>

theorem failed_read_blames_session_zero:
  "AsyncMessenger_ReadMessage True AsyncMessage_zero am = Some (AsyncMessage_zero, am) \<and>
   decode AsyncMessage_zero = Detected 0 False"
proof -
  have "decode AsyncMessage_zero = Detected 0 False"
    by code_simp
  then show ?thesis by (simp add: AsyncMessenger_ReadMessage_def)
qed

end
