(* ===== verification/ThreadPool.thy ===== *)
theory ThreadPool
  imports Interfaces "HOL-Library.Multiset"
begin

text \<open>
  The thread pool of \<open>ProxyConnector.cpp\<close>: 20 detached workers and the main thread, which
  dispatches. The state is what they share (the semaphore, the mutex, the list of work) and the
  program point of every thread; a step is one operation on the shared state, taken by any
  thread that can take it. Three histories are kept beside the state: what was dispatched, what
  was taken off the list and what was run to its end.
\<close>

section \<open>The state\<close>

datatype ThreadFunc = asyncDetector_fn | asyncConnector_fn

record WorkPackage =
  wp_handler :: "ThreadFunc option"
  wp_context :: int   \<comment> \<open>the session number in \<open>proxyDeets\<close> or \<open>connectDeets\<close>\<close>

type_synonym work_list = "WorkPackage list"

definition work_push :: "WorkPackage \<Rightarrow> work_list \<Rightarrow> work_list" where
  "work_push package work = work @ [package]"

text \<open>\<open>front\<close> and \<open>pop_front\<close>; on an empty list they are undefined.\<close>

definition work_take :: "work_list \<Rightarrow> (WorkPackage \<times> work_list) option" where
  "work_take work = (case work of [] \<Rightarrow> None | w # ws \<Rightarrow> Some (w, ws))"

datatype worker =
    Waiting               \<comment> \<open>in \<open>sem_wait\<close>\<close>
  | Woken                 \<comment> \<open>behind \<open>sem_wait\<close>, about to lock\<close>
  | Locked                \<comment> \<open>holding the mutex\<close>
  | Running WorkPackage   \<comment> \<open>the mutex released, in the handler\<close>

datatype dispatcher =
    Outside
  | Entered WorkPackage   \<comment> \<open>in \<open>Dispatch\<close>, holding the mutex\<close>
  | Pushed                \<comment> \<open>behind \<open>push_back\<close>\<close>
  | Posted                \<comment> \<open>behind \<open>sem_post\<close>, about to unlock\<close>

record pool =
  m_poolSem :: nat
  m_workMutex :: bool
  m_work :: work_list
  workers :: "worker list"
  main :: dispatcher
  popped_empty :: bool    \<comment> \<open>\<open>front\<close> was called on an empty list\<close>
  sent :: work_list
  taken :: work_list
  finished :: work_list

definition threadPoolSize :: nat where "threadPoolSize = 20"

definition ThreadPool_new :: pool where
  "ThreadPool_new = \<lparr>m_poolSem = 0, m_workMutex = False, m_work = [],
     workers = replicate threadPoolSize Waiting, main = Outside, popped_empty = False,
     sent = [], taken = [], finished = []\<rparr>"

section \<open>The steps\<close>

inductive pool_step :: "pool \<Rightarrow> pool \<Rightarrow> bool" where
  sem_wait:
    "i < length (workers p) \<Longrightarrow> workers p ! i = Waiting \<Longrightarrow> 0 < m_poolSem p \<Longrightarrow>
     pool_step p (p\<lparr>m_poolSem := m_poolSem p - 1, workers := (workers p)[i := Woken]\<rparr>)"
| lock:
    "i < length (workers p) \<Longrightarrow> workers p ! i = Woken \<Longrightarrow> \<not> m_workMutex p \<Longrightarrow>
     pool_step p (p\<lparr>m_workMutex := True, workers := (workers p)[i := Locked]\<rparr>)"
| take_work:
    "i < length (workers p) \<Longrightarrow> workers p ! i = Locked \<Longrightarrow> work_take (m_work p) = Some (w, ws) \<Longrightarrow>
     pool_step p (p\<lparr>m_work := ws, m_workMutex := False, workers := (workers p)[i := Running w],
       taken := taken p @ [w]\<rparr>)"
| take_empty:
    "i < length (workers p) \<Longrightarrow> workers p ! i = Locked \<Longrightarrow> work_take (m_work p) = None \<Longrightarrow>
     pool_step p (p\<lparr>popped_empty := True\<rparr>)"
| run_handler:
    "i < length (workers p) \<Longrightarrow> workers p ! i = Running w \<Longrightarrow>
     pool_step p (p\<lparr>workers := (workers p)[i := Waiting], finished := finished p @ [w]\<rparr>)"
| dispatch_lock:
    "main p = Outside \<Longrightarrow> \<not> m_workMutex p \<Longrightarrow>
     pool_step p (p\<lparr>m_workMutex := True, main := Entered w\<rparr>)"
| dispatch_push:
    "main p = Entered w \<Longrightarrow>
     pool_step p (p\<lparr>m_work := work_push w (m_work p), main := Pushed, sent := sent p @ [w]\<rparr>)"
| dispatch_post:
    "main p = Pushed \<Longrightarrow> pool_step p (p\<lparr>m_poolSem := m_poolSem p + 1, main := Posted\<rparr>)"
| dispatch_unlock:
    "main p = Posted \<Longrightarrow> pool_step p (p\<lparr>m_workMutex := False, main := Outside\<rparr>)"

inductive_cases pool_stepE: "pool_step p p'"

inductive pool_reach :: "pool \<Rightarrow> bool" where
  start: "pool_reach ThreadPool_new"
| step: "pool_reach p \<Longrightarrow> pool_step p p' \<Longrightarrow> pool_reach p'"

section \<open>The list of work as a queue\<close>

interpretation work_queue: fifo work_push work_take "\<lambda>work. work" "\<lambda>_. True" "\<lambda>_. True"
  by unfold_locales (simp_all add: work_push_def work_take_def)

section \<open>Counting threads\<close>

definition tally :: "(worker \<Rightarrow> 'm::comm_monoid_add) \<Rightarrow> worker list \<Rightarrow> 'm" where
  "tally f ws = sum_list (map f ws)"

lemma tally_update:
  "i < length ws \<Longrightarrow> tally f (ws[i := y]) + f (ws ! i) = tally f ws + f y"
proof (induction ws arbitrary: i)
  case (Cons w ws)
  then show ?case by (cases i) (auto simp: tally_def ac_simps)
qed simp

abbreviation at :: "worker \<Rightarrow> worker \<Rightarrow> nat" where
  "at x w \<equiv> (if w = x then 1 else 0)"

definition job_of :: "worker \<Rightarrow> WorkPackage multiset" where
  "job_of w = (case w of Running x \<Rightarrow> {#x#} | _ \<Rightarrow> {#})"

lemma tally_replicate: "f w = 0 \<Longrightarrow> tally f (replicate n w) = 0"
  by (induction n) (simp_all add: tally_def)

lemma tally_at_pos: "i < length ws \<Longrightarrow> ws ! i = x \<Longrightarrow> 0 < tally (at x) ws"
  using tally_update [of i ws "at x" "if x = Waiting then Woken else Waiting"]
  by (auto split: if_splits)

lemma tally_at_zero: "tally (at x) ws = 0 \<longleftrightarrow> x \<notin> set ws"
  by (auto simp: tally_def)

text \<open>Of two threads never both hold the mutex, and the semaphore counts unclaimed work.\<close>

definition pool_inv :: "pool \<Rightarrow> bool" where
  "pool_inv p \<longleftrightarrow>
     length (workers p) = threadPoolSize \<and> \<not> popped_empty p \<and>
     tally (at Locked) (workers p) + (if main p = Outside then 0 else 1) =
       (if m_workMutex p then 1 else 0) \<and>
     m_poolSem p + tally (at Woken) (workers p) + tally (at Locked) (workers p) +
       (if main p = Pushed then 1 else 0) = length (m_work p) \<and>
     sent p = taken p @ m_work p \<and>
     mset (taken p) = mset (finished p) + tally job_of (workers p)"

lemma pool_inv_start: "pool_inv ThreadPool_new"
  by (simp add: pool_inv_def ThreadPool_new_def tally_replicate job_of_def)

lemma pool_inv_step: "pool_step p p' \<Longrightarrow> pool_inv p \<Longrightarrow> pool_inv p'"
proof (induction rule: pool_step.induct)
  case (sem_wait i p)
  then show ?case
    using tally_update [of i "workers p" "at Locked" Woken] tally_update [of i "workers p" "at Woken" Woken]
      tally_update [of i "workers p" job_of Woken]
    by (simp add: pool_inv_def job_of_def)
next
  case (lock i p)
  then show ?case
    using tally_update [of i "workers p" "at Locked" Locked] tally_update [of i "workers p" "at Woken" Locked]
      tally_update [of i "workers p" job_of Locked]
    by (simp add: pool_inv_def job_of_def split: if_splits)
next
  case (take_work i p w ws)
  then show ?case
    using tally_update [of i "workers p" "at Locked" "Running w"]
      tally_update [of i "workers p" "at Woken" "Running w"]
      tally_update [of i "workers p" job_of "Running w"]
    by (auto simp: pool_inv_def job_of_def work_take_def split: if_splits list.splits)
next
  case (take_empty i p)
  with tally_at_pos [of i "workers p" Locked] show ?case
    by (auto simp: pool_inv_def work_take_def split: if_splits list.splits)
next
  case (run_handler i p w)
  then show ?case
    using tally_update [of i "workers p" "at Locked" Waiting] tally_update [of i "workers p" "at Woken" Waiting]
      tally_update [of i "workers p" job_of Waiting]
    by (auto simp: pool_inv_def job_of_def ac_simps)
qed (auto simp: pool_inv_def work_push_def split: if_splits)

lemma pool_reach_inv: "pool_reach p \<Longrightarrow> pool_inv p"
  by (induction rule: pool_reach.induct) (auto intro: pool_inv_start pool_inv_step)


section \<open>Properties\<close>

text \<open>
  C17: Whatever the interleaving of the workers and the dispatching thread, no worker ever calls
  \<open>front\<close> on an empty list, and the mutex is held by at most one thread.
\<close>

theorem pool_never_pops_empty:
  assumes "pool_reach p"
  shows "\<not> popped_empty p \<and> (if Locked \<in> set (workers p) then m_work p \<noteq> [] else True) \<and>
    (main p = Outside \<or> Locked \<notin> set (workers p)) \<and>
    length (filter (\<lambda>w. w = Locked) (workers p)) \<le> 1"
proof -
  have inv: "pool_inv p" using pool_reach_inv [OF assms] .
  have "length (filter (\<lambda>w. w = Locked) ws) = tally (at Locked) ws" for ws
    by (induction ws) (auto simp: tally_def)
  with inv tally_at_zero [of Locked "workers p"] show ?thesis
    by (auto simp: pool_inv_def split: if_splits)
qed

text \<open>A pool with one package dispatched and one worker about to take it.\<close>

definition dispatched :: pool where
  "dispatched = ThreadPool_new\<lparr>m_work := [\<lparr>wp_handler = Some asyncDetector_fn, wp_context = 7\<rparr>],
     m_poolSem := 1, sent := [\<lparr>wp_handler = Some asyncDetector_fn, wp_context = 7\<rparr>]\<rparr>"

lemma reach_dispatched: "pool_reach dispatched"
proof -
  let ?w = "\<lparr>wp_handler = Some asyncDetector_fn, wp_context = 7\<rparr>"
  let ?p1 = "ThreadPool_new\<lparr>m_workMutex := True, main := Entered ?w\<rparr>"
  let ?p2 = "?p1\<lparr>m_work := [?w], main := Pushed, sent := [?w]\<rparr>"
  let ?p3 = "?p2\<lparr>m_poolSem := 1, main := Posted\<rparr>"
  have "pool_reach ?p1"
    using pool_reach.step [OF pool_reach.start dispatch_lock [of ThreadPool_new ?w]]
    by (simp add: ThreadPool_new_def)
  then have "pool_reach ?p2"
    using pool_reach.step [OF _ dispatch_push [of ?p1 ?w]]
    by (simp add: ThreadPool_new_def work_push_def)
  then have "pool_reach ?p3"
    using pool_reach.step [OF _ dispatch_post [of ?p2]] by (simp add: ThreadPool_new_def)
  then have "pool_reach (?p3\<lparr>m_workMutex := False, main := Outside\<rparr>)"
    by (rule pool_reach.step) (rule dispatch_unlock, simp)
  then show ?thesis by (simp add: dispatched_def ThreadPool_new_def)
qed

theorem pool_never_pops_empty_witness:
  "pool_reach dispatched \<and> \<not> popped_empty dispatched \<and> m_work dispatched \<noteq> []"
  using reach_dispatched pool_never_pops_empty [OF reach_dispatched]
  by (simp add: dispatched_def)

text \<open>
  C15: Work is taken in the order of its dispatch, and no package is lost or run twice: what was
  dispatched is what was taken followed by what is on the list, and the packages taken are
  those run to the end and those in the hands of a worker. When every worker waits and the list is
  empty, each package has been run exactly once.
\<close>

theorem pool_fifo_exactly_once:
  assumes "pool_reach p"
  shows "sent p = taken p @ m_work p \<and>
    mset (taken p) = mset (finished p) + tally job_of (workers p) \<and>
    (if m_work p = [] \<and> set (workers p) \<subseteq> {Waiting}
     then mset (finished p) = mset (sent p) else True)"
proof -
  have inv: "pool_inv p" using pool_reach_inv [OF assms] .
  have "tally job_of ws = {#}" if "set ws \<subseteq> {Waiting}" for ws
    using that by (induction ws) (auto simp: tally_def job_of_def)
  with inv show ?thesis by (auto simp: pool_inv_def)
qed

theorem pool_fifo_exactly_once_witness:
  "pool_reach dispatched \<and> sent dispatched = taken dispatched @ m_work dispatched"
  using reach_dispatched pool_fifo_exactly_once [OF reach_dispatched] by simp

section \<open>No lost wake-up\<close>

definition free_worker :: "worker \<Rightarrow> bool" where
  "free_worker w \<longleftrightarrow> (case w of Running _ \<Rightarrow> False | _ \<Rightarrow> True)"

lemma dispatch_completes:
  assumes "pool_inv p"
  shows "\<exists>p'. pool_step\<^sup>*\<^sup>* p p' \<and> main p' = Outside \<and> workers p' = workers p \<and>
    taken p' = taken p \<and> (\<exists>ws. m_work p' = m_work p @ ws)"
proof -
  have posted: "\<exists>p'. pool_step\<^sup>*\<^sup>* q p' \<and> main p' = Outside \<and> workers p' = workers q \<and>
      taken p' = taken q \<and> m_work p' = m_work q" if "main q = Posted" for q
    using r_into_rtranclp [of pool_step, OF dispatch_unlock [OF that]]
    by (intro exI [of _ "q\<lparr>m_workMutex := False, main := Outside\<rparr>"]) simp
  have pushed: "\<exists>p'. pool_step\<^sup>*\<^sup>* q p' \<and> main p' = Outside \<and> workers p' = workers q \<and>
      taken p' = taken q \<and> m_work p' = m_work q" if "main q = Pushed" for q
  proof -
    let ?q = "q\<lparr>m_poolSem := m_poolSem q + 1, main := Posted\<rparr>"
    obtain p' where "pool_step\<^sup>*\<^sup>* ?q p'" "main p' = Outside" "workers p' = workers q"
      "taken p' = taken q" "m_work p' = m_work q"
      using posted [of ?q] by auto
    with converse_rtranclp_into_rtranclp [of pool_step, OF dispatch_post [OF that]]
    show ?thesis by blast
  qed
  show ?thesis
  proof (cases "main p")
    case Outside
    then show ?thesis by (intro exI [of _ p]) auto
  next
    case (Entered w)
    let ?q = "p\<lparr>m_work := work_push w (m_work p), main := Pushed, sent := sent p @ [w]\<rparr>"
    obtain p' where "pool_step\<^sup>*\<^sup>* ?q p'" "main p' = Outside" "workers p' = workers p"
      "taken p' = taken p" "m_work p' = m_work p @ [w]"
      using pushed [of ?q] by (auto simp: work_push_def)
    with converse_rtranclp_into_rtranclp [of pool_step, OF dispatch_push [OF Entered]]
    show ?thesis by blast
  next
    case Pushed
    with pushed [of p] show ?thesis by fastforce
  next
    case Posted
    with posted [of p] show ?thesis by fastforce
  qed
qed

text \<open>From each point of the loop, a worker that is let through takes the front of the list.\<close>

abbreviation takes_front :: "pool \<Rightarrow> bool" where
  "takes_front p \<equiv> (\<exists>p'. pool_step\<^sup>*\<^sup>* p p' \<and> taken p' = taken p @ [hd (m_work p)])"

lemma front_from_Locked:
  assumes "i < length (workers p)" and "workers p ! i = Locked" and "m_work p \<noteq> []"
  shows "takes_front p"
proof -
  obtain w ws where "m_work p = w # ws" using assms(3) by (cases "m_work p") auto
  then show ?thesis
    using r_into_rtranclp [of pool_step, OF take_work [OF assms(1,2), of w ws]]
    by (intro exI conjI) (auto simp: work_take_def)
qed

lemma front_from_Woken:
  assumes "i < length (workers p)" and "workers p ! i = Woken" and "m_work p \<noteq> []"
    and "\<not> m_workMutex p"
  shows "takes_front p"
  using converse_rtranclp_into_rtranclp [of pool_step, OF lock [OF assms(1,2,4)]]
    front_from_Locked [of i "p\<lparr>m_workMutex := True, workers := (workers p)[i := Locked]\<rparr>"] assms
  by auto

lemma front_from_Waiting:
  assumes "i < length (workers p)" and "workers p ! i = Waiting" and "m_work p \<noteq> []"
    and "\<not> m_workMutex p" and "0 < m_poolSem p"
  shows "takes_front p"
  using converse_rtranclp_into_rtranclp [of pool_step, OF sem_wait [OF assms(1,2,5)]]
    front_from_Woken [of i "p\<lparr>m_poolSem := m_poolSem p - 1, workers := (workers p)[i := Woken]\<rparr>"] assms
  by auto

text \<open>
  C16: No wake-up is lost: as long as there is work on the list and some worker is not in a
  handler, the threads can go on so that the oldest package is taken next; no interleaving
  leaves the pool asleep over pending work.
\<close>

theorem pool_no_lost_wakeup:
  assumes "pool_reach p" and "m_work p \<noteq> []" and "\<exists>w\<in>set (workers p). free_worker w"
  shows "\<exists>p'. pool_step\<^sup>*\<^sup>* p p' \<and> taken p' = taken p @ [hd (m_work p)]"
proof -
  obtain q ws where q: "pool_step\<^sup>*\<^sup>* p q" "main q = Outside" "workers q = workers p"
    "taken q = taken p" "m_work q = m_work p @ ws"
    using dispatch_completes [OF pool_reach_inv [OF assms(1)]] by blast
  have inv: "pool_inv q"
    using q(1) pool_reach_inv [OF assms(1)] by (induction) (auto intro: pool_inv_step)
  obtain i where i: "i < length (workers q)" "free_worker (workers q ! i)"
    using assms(3) q(3) by (metis in_set_conv_nth)
  have work: "m_work q \<noteq> []" using q(5) assms(2) by simp
  have "takes_front q"
  proof (cases "Locked \<in> set (workers q)")
    case True
    with work show ?thesis by (auto simp: in_set_conv_nth intro: front_from_Locked)
  next
    case unlocked: False
    then have L0: "tally (at Locked) (workers q) = 0" by (simp add: tally_at_zero)
    with inv q(2) have m: "\<not> m_workMutex q" by (simp add: pool_inv_def split: if_splits)
    show ?thesis
    proof (cases "Woken \<in> set (workers q)")
      case True
      with work m show ?thesis by (auto simp: in_set_conv_nth intro: front_from_Woken)
    next
      case False
      then have "tally (at Woken) (workers q) = 0" by (simp add: tally_at_zero)
      with inv L0 q(2) work have "0 < m_poolSem q" by (simp add: pool_inv_def)
      moreover have "workers q ! i = Waiting"
        using i unlocked False by (cases "workers q ! i") (auto simp: free_worker_def in_set_conv_nth)
      ultimately show ?thesis using i(1) work m by (intro front_from_Waiting)
    qed
  qed
  with q assms(2) show ?thesis by (auto intro: rtranclp_trans)
qed

theorem pool_no_lost_wakeup_witness:
  "\<exists>p'. pool_step\<^sup>*\<^sup>* dispatched p' \<and>
     taken p' = [\<lparr>wp_handler = Some asyncDetector_fn, wp_context = 7\<rparr>]"
proof -
  have "\<exists>w\<in>set (workers dispatched). free_worker w"
    by (simp add: dispatched_def ThreadPool_new_def threadPoolSize_def free_worker_def)
  with pool_no_lost_wakeup [OF reach_dispatched] show ?thesis
    by (simp add: dispatched_def ThreadPool_new_def)
qed

end
