(* ===== verification/Sockets.thy ===== *)
theory Sockets
  imports Messenger
begin

text \<open>
  The sockets the main loop watches: \<open>IGenericSocket.hpp\<close>, \<open>ClientSocket.hpp\<close> and
  \<open>ClientSocket.cpp\<close>, \<open>ServerSocket.hpp\<close> and \<open>ServerSocket.cpp\<close>, \<open>CommandSocket.hpp\<close> and
  \<open>CommandSocket.cpp\<close>. What the kernel answers to each system call is a parameter, one answer
  per call in the order of the calls. The pointer \<open>isError_\<close> is never null where the methods
  are called: it is an argument and a result.
\<close>

section \<open>System calls\<close>

datatype errno = EAGAIN | EINTR | Other_errno int

datatype sys_read = ReadBytes bytes | ReadError errno   \<comment> \<open>no bytes: end of file\<close>

datatype sys_write = Wrote nat | WriteError errno

text \<open>The value \<open>::read\<close> returns, converted to \<open>size_t\<close>.\<close>

fun read_count :: "sys_read \<Rightarrow> u64" where
  "read_count (ReadBytes bs) = of_nat (length bs)"
| "read_count (ReadError e) = - 1"

fun read_errno :: "sys_read \<Rightarrow> errno option" where
  "read_errno (ReadBytes bs) = None"
| "read_errno (ReadError e) = Some e"

definition recoverable :: "errno option \<Rightarrow> bool" where
  "recoverable e \<longleftrightarrow> e = Some EAGAIN \<or> e = Some EINTR"

section \<open>Client sockets\<close>

record client_socket =
  cs_isActive :: bool
  cs_isClientToProxy :: bool
  cs_socketFd :: int
  cs_peerFd :: int
  cs_sessionId :: int

definition ClientSocket_new :: "int \<Rightarrow> int \<Rightarrow> int \<Rightarrow> bool \<Rightarrow> client_socket" where
  "ClientSocket_new socketFd proxyFd sessionId isClientToProxy =
     \<lparr>cs_isActive = True, cs_isClientToProxy = isClientToProxy, cs_socketFd = socketFd,
      cs_peerFd = proxyFd, cs_sessionId = sessionId\<rparr>"

definition ClientSocket_GetFd :: "client_socket \<Rightarrow> int" where
  "ClientSocket_GetFd c = cs_socketFd c"

definition ClientSocket_GetSessionId :: "client_socket \<Rightarrow> int" where
  "ClientSocket_GetSessionId c = cs_sessionId c"

definition ClientSocket_GetProxyFd :: "client_socket \<Rightarrow> int" where
  "ClientSocket_GetProxyFd c = cs_peerFd c"

definition ClientSocket_IsClientToProxy :: "client_socket \<Rightarrow> bool" where
  "ClientSocket_IsClientToProxy c = cs_isClientToProxy c"

definition ClientSocket_OnError :: "client_socket \<Rightarrow> client_socket" where
  "ClientSocket_OnError c = (if cs_isActive c then c\<lparr>cs_isActive := False\<rparr> else c)"

text \<open>
  The loop of \<open>Read\<close>, with the comparisons of the unsigned \<open>numRead\<close> as they are; \<open>n\<close> counts
  the calls. The flag is set in the loop and reset behind it.
\<close>

partial_function (option) read_loop ::
  "(nat \<Rightarrow> sys_read) \<Rightarrow> nat \<Rightarrow> bool \<Rightarrow> client_socket \<Rightarrow> bytes \<Rightarrow> (u64 \<times> bool \<times> client_socket \<times> bytes) option" where
  "read_loop ks n isError c buf =
     (let numRead = read_count (ks n);
          buf = (case ks n of ReadBytes bs \<Rightarrow> store 0 bs buf | ReadError _ \<Rightarrow> buf)
      in if numRead \<le> 0
         then if numRead = - 1 \<and> recoverable (read_errno (ks n))
              then read_loop ks (Suc n) isError c buf
              else Some (numRead, True, ClientSocket_OnError c, buf)
         else Some (numRead, isError, c, buf))"

definition ClientSocket_Read ::
  "(nat \<Rightarrow> sys_read) \<Rightarrow> bool \<Rightarrow> client_socket \<Rightarrow> bytes \<Rightarrow> (u64 \<times> bool \<times> client_socket \<times> bytes) option" where
  "ClientSocket_Read ks isError c buf =
     (if \<not> cs_isActive c then Some (0, True, c, buf)
      else case read_loop ks 0 isError c buf of
             None \<Rightarrow> None
           | Some (numRead, isError, c, buf) \<Rightarrow> Some (numRead, False, c, buf))"

text \<open>
  The loop of \<open>Write\<close>: \<open>off\<close> is \<open>writePtr\<close> as an offset into the buffer. A write that takes
  bytes from behind the buffer is a fault. The results are whether the loop ran to its end,
  the total and the bytes the peer got.
\<close>

partial_function (option) write_loop ::
  "(nat \<Rightarrow> sys_write) \<Rightarrow> nat \<Rightarrow> bytes \<Rightarrow> nat \<Rightarrow> u64 \<Rightarrow> u64 \<Rightarrow> bytes \<Rightarrow> (bool \<times> u64 \<times> bytes) res option" where
  "write_loop ks n buf off bytesToWrite totalWritten got =
     (if bytesToWrite = 0 then Some (Inr (True, totalWritten, got))
      else case ks n of
             WriteError e \<Rightarrow>
               if recoverable (Some e) then write_loop ks (Suc n) buf off bytesToWrite totalWritten got
               else Some (Inr (False, 0, got))
           | Wrote k \<Rightarrow>
               if k = 0 then Some (Inr (False, 0, got))
               else if length buf < off + k then Some (Inl OutOfBounds)
               else write_loop ks (Suc n) buf (off + k) (bytesToWrite - of_nat k)
                      (totalWritten + of_nat k) (got @ take k (drop off buf)))"

definition ClientSocket_Write ::
  "(nat \<Rightarrow> sys_write) \<Rightarrow> bytes \<Rightarrow> u64 \<Rightarrow> client_socket \<Rightarrow> (u64 \<times> bool \<times> client_socket \<times> bytes) res option"
where
  "ClientSocket_Write ks buf bytesToWrite c =
     (if \<not> cs_isActive c then Some (Inr (0, True, c, []))
      else map_option
        (\<lambda>r. bind_res r (\<lambda>(completed, totalWritten, got).
           Inr (if completed then (totalWritten, False, c, got)
                else (0, True, ClientSocket_OnError c, got))))
        (write_loop ks 0 buf 0 bytesToWrite 0 []))"

section \<open>The server socket\<close>

record server_socket =
  sv_socketFd :: int
  sv_isActive :: bool

definition ServerSocket_new :: server_socket where
  "ServerSocket_new = \<lparr>sv_socketFd = - 1, sv_isActive = False\<rparr>"

definition ServerSocket_GetFd :: "server_socket \<Rightarrow> int" where
  "ServerSocket_GetFd s = (if sv_isActive s then sv_socketFd s else - 1)"

text \<open>What \<open>socket\<close>, \<open>setsockopt\<close>, \<open>bind\<close> and \<open>listen\<close> return.\<close>

record listen_calls =
  lc_socket :: int
  lc_setsockopt :: int
  lc_bind :: int
  lc_listen :: int

text \<open>A returned -1 becomes \<open>true\<close> in a function that returns \<open>bool\<close>.\<close>

definition bool_of_int :: "int \<Rightarrow> bool" where
  "bool_of_int i \<longleftrightarrow> i \<noteq> 0"

definition ServerSocket_Initialize ::
  "listen_calls \<Rightarrow> u16 \<Rightarrow> server_socket \<Rightarrow> bool \<times> server_socket" where
  "ServerSocket_Initialize calls port s =
     (let sfd = lc_socket calls in
      if sfd < 0 then (bool_of_int (- 1), s)
      else if lc_setsockopt calls < 0 then (False, s)
      else if lc_bind calls < 0 then (False, s)
      else if lc_listen calls < 0 then (False, s)
      else (True, s\<lparr>sv_isActive := True, sv_socketFd := sfd\<rparr>))"

text \<open>The calls on descriptors that the model keeps as a list.\<close>

datatype io =
    Connect int string u16    \<comment> \<open>a call of \<open>connect\<close>: socket, address, port\<close>
  | Send int string           \<comment> \<open>a call of \<open>write\<close>\<close>
  | KeepAlive int             \<comment> \<open>\<open>SO_KEEPALIVE\<close> switched on\<close>
  | Timeouts int              \<comment> \<open>\<open>SO_RCVTIMEO\<close> and \<open>SO_SNDTIMEO\<close> set\<close>
  | IdleTime int int          \<comment> \<open>\<open>TCP_KEEPIDLE\<close> set\<close>
  | KeepCount int int         \<comment> \<open>\<open>TCP_KEEPCNT\<close> set\<close>
  | KeepInterval int int      \<comment> \<open>\<open>TCP_KEEPINTVL\<close> set\<close>
  | Close int

text \<open>
  What \<open>accept\<close> returns, with the text of the peer's address; the last component of the result are
  the timeouts set on the new socket.
\<close>

definition ServerSocket_Accept ::
  "int \<times> string \<Rightarrow> server_socket \<Rightarrow> string \<Rightarrow> int \<times> string \<times> io list" where
  "ServerSocket_Accept answer s clientIp =
     (if \<not> sv_isActive s then (- 1, clientIp, [])
      else if fst answer < 0 then (- 1, clientIp, [])
      else (fst answer, snd answer, [Timeouts (fst answer)]))"

definition ServerSocket_OnError :: "server_socket \<Rightarrow> server_socket" where
  "ServerSocket_OnError s = (if sv_isActive s then s\<lparr>sv_isActive := False, sv_socketFd := - 1\<rparr> else s)"

section \<open>The command socket and the common interface\<close>

definition CommandSocket_GetFd :: "messenger \<Rightarrow> int" where
  "CommandSocket_GetFd am = AsyncMessenger_GetReadFd am"

datatype SocketType = Server | Client | Command

datatype socket = ServerS server_socket | ClientS client_socket | CommandS

text \<open>The virtual methods.\<close>

fun GetFd :: "messenger \<Rightarrow> socket \<Rightarrow> int" where
  "GetFd am (ServerS s) = ServerSocket_GetFd s"
| "GetFd am (ClientS c) = ClientSocket_GetFd c"
| "GetFd am CommandS = CommandSocket_GetFd am"

fun Identity :: "socket \<Rightarrow> SocketType" where
  "Identity (ServerS s) = Server"
| "Identity (ClientS c) = Client"
| "Identity CommandS = Command"

text \<open>The descriptor a destructor closes, if any.\<close>

fun destructor_closes :: "socket \<Rightarrow> int option" where
  "destructor_closes (ServerS s) = (if sv_isActive s then Some (sv_socketFd s) else None)"
| "destructor_closes (ClientS c) = Some (cs_socketFd c)"
| "destructor_closes CommandS = None"

section \<open>Reading\<close>

lemma count_zero: "m < 2 ^ 64 \<Longrightarrow> (of_nat m :: u64) = 0 \<longleftrightarrow> m = 0"
  by (auto simp: word_of_nat_eq_0_iff dest: nat_dvd_not_less)

lemma read_loop_once:
  "read_loop ks n isError c buf =
     (case ks n of
        ReadBytes bs \<Rightarrow>
          if (of_nat (length bs) :: u64) = 0
          then Some (of_nat (length bs), True, ClientSocket_OnError c, store 0 bs buf)
          else Some (of_nat (length bs), isError, c, store 0 bs buf)
      | ReadError e \<Rightarrow> Some (- 1, isError, c, buf))"
  by (subst read_loop.simps) (auto split: sys_read.split)

lemma Read_cases:
  assumes "cs_isActive c" and "\<And>bs. ks 0 = ReadBytes bs \<Longrightarrow> length bs < 2 ^ 64"
  shows "ClientSocket_Read ks flag c buf =
      Some (case ks 0 of
          ReadBytes bs \<Rightarrow> (of_nat (length bs), False,
            if bs = [] then ClientSocket_OnError c else c, store 0 bs buf)
        | ReadError e \<Rightarrow> (- 1, False, c, buf))"
proof -
  have z: "(of_nat (length bs) :: u64) = 0 \<longleftrightarrow> bs = []" if "ks 0 = ReadBytes bs" for bs
    using count_zero [OF assms(2) [OF that]] by simp
  show ?thesis
    using assms(1) z
    by (cases "ks 0") (auto simp: ClientSocket_Read_def read_loop_once ClientSocket_OnError_def)
qed

lemma Read_inactive: "\<not> cs_isActive c \<Longrightarrow> ClientSocket_Read ks flag c buf = Some (0, True, c, buf)"
  by (simp add: ClientSocket_Read_def)

text \<open>
  Reading from an active socket makes exactly one system call and never reports an error:
  a failed call is reported as \<open>2^64 - 1\<close> bytes read, whatever \<open>errno\<close> says, and the end of the
  stream as no bytes; only the end of the stream deactivates the socket, and only the read after
  that sets the flag.
\<close>

theorem client_read:
  assumes "cs_isActive c" and "\<And>bs. ks 0 = ReadBytes bs \<Longrightarrow> length bs < 2 ^ 64"
  shows "ClientSocket_Read ks flag c buf =
      Some (case ks 0 of
          ReadBytes bs \<Rightarrow> (of_nat (length bs), False,
            if bs = [] then ClientSocket_OnError c else c, store 0 bs buf)
        | ReadError e \<Rightarrow> (- 1, False, c, buf)) \<and>
    ClientSocket_Read ks' flag (ClientSocket_OnError c) buf = Some (0, True, ClientSocket_OnError c, buf)"
  using Read_cases [OF assms(1), of ks] assms(2) Read_inactive [of "ClientSocket_OnError c"]
  by (simp add: ClientSocket_OnError_def)

theorem client_read_witness:
  "ClientSocket_Read (\<lambda>_. ReadError EAGAIN) False (ClientSocket_new 5 6 1 True) [0, 0] =
     Some (- 1, False, ClientSocket_new 5 6 1 True, [0, 0]) \<and>
   ClientSocket_Read (\<lambda>_. ReadBytes [65]) False (ClientSocket_new 5 6 1 True) [0, 0] =
     Some (1, False, ClientSocket_new 5 6 1 True, [65, 0])"
  using client_read [of "ClientSocket_new 5 6 1 True" "\<lambda>_. ReadError EAGAIN" False "[0, 0]"]
    client_read [of "ClientSocket_new 5 6 1 True" "\<lambda>_. ReadBytes [65]" False "[0, 0]"]
  by (simp add: ClientSocket_new_def store_def)


section \<open>Writing\<close>

text \<open>
  What a sequence of answers amounts to while \<open>m\<close> bytes are to be written: the number of bytes
  it takes when every call makes progress or may be repeated, and no call follows the last
  byte.
\<close>

fun written :: "sys_write list \<Rightarrow> nat \<Rightarrow> nat option" where
  "written [] m = Some 0"
| "written (WriteError e # os) m = (if 0 < m \<and> recoverable (Some e) then written os m else None)"
| "written (Wrote k # os) m =
     (if 0 < k \<and> k \<le> m then map_option (\<lambda>n. k + n) (written os (m - k)) else None)"

lemma written_le: "written os m = Some k \<Longrightarrow> k \<le> m"
  by (induction os m arbitrary: k rule: written.induct) (fastforce split: if_splits)+

lemma write_loop_prefix:
  assumes "written os m = Some k" and "\<And>i. i < length os \<Longrightarrow> ks (n + i) = os ! i"
    and "off + m \<le> length buf" and "m < 2 ^ 64"
  shows "write_loop ks n buf off (of_nat m) tot got =
    write_loop ks (n + length os) buf (off + k) (of_nat (m - k)) (tot + of_nat k)
      (got @ take k (drop off buf))"
  using assms
proof (induction os m arbitrary: k n off tot got rule: written.induct)
  case (1 m)
  then show ?case by simp
next
  case (2 e os m)
  have k0: "ks n = WriteError e" using 2(3) [of 0] by simp
  have ne: "(of_nat m :: u64) \<noteq> 0"
    using 2(2) count_zero [OF 2(5)] by (simp split: if_splits)
  have shift: "ks (Suc n + i) = os ! i" if "i < length os" for i
    using 2(3) [of "Suc i"] that by simp
  from 2(2) have e: "0 < m" "recoverable (Some e)" "written os m = Some k" by (simp_all split: if_splits)
  have "write_loop ks n buf off (of_nat m) tot got = write_loop ks (Suc n) buf off (of_nat m) tot got"
    by (subst write_loop.simps) (simp add: ne k0 e(2))
  with 2(1) [of k "Suc n" off tot got] e shift 2(4,5) show ?case by simp
next
  case (3 l os m)
  have k0: "ks n = Wrote l" using 3(3) [of 0] by simp
  from 3(2) obtain k' where l: "0 < l" "l \<le> m" and k': "written os (m - l) = Some k'" "k = l + k'"
    by (auto split: if_splits)
  have ne: "(of_nat m :: u64) \<noteq> 0"
    using l count_zero [OF 3(5)] by simp
  have shift: "ks (Suc n + i) = os ! i" if "i < length os" for i
    using 3(3) [of "Suc i"] that by simp
  have sub: "(of_nat m :: u64) - of_nat l = of_nat (m - l)" using l by (simp add: of_nat_diff)
  have "write_loop ks n buf off (of_nat m) tot got =
      write_loop ks (Suc n) buf (off + l) (of_nat (m - l)) (tot + of_nat l) (got @ take l (drop off buf))"
    using 3(4) l by (subst write_loop.simps) (simp add: ne k0 sub del: of_nat_diff)
  also have "write_loop ks (Suc n) buf (off + l) (of_nat (m - l)) (tot + of_nat l) (got @ take l (drop off buf))
      = write_loop ks (Suc n + length os) buf (off + l + k') (of_nat (m - l - k'))
      (tot + of_nat l + of_nat k') (got @ take l (drop off buf) @ take k' (drop (off + l) buf))"
  proof (subst 3(1) [OF _ k'(1)])
    show "0 < l \<and> l \<le> m" using l by simp
    show "ks (Suc n + i) = os ! i" if "i < length os" for i using shift that .
    show "off + l + (m - l) \<le> length buf" using 3(4) l by simp
    show "m - l < 2 ^ 64" using 3(5) by (rule order_le_less_trans [rotated]) simp
  qed simp
  finally have "write_loop ks n buf off (of_nat m) tot got =
      write_loop ks (Suc n + length os) buf (off + l + k') (of_nat (m - l - k'))
      (tot + of_nat l + of_nat k') (got @ take l (drop off buf) @ take k' (drop (off + l) buf))" .
  moreover have "take (l + k') (drop off buf) = take l (drop off buf) @ take k' (drop (off + l) buf)"
    using take_add [of l k' "drop off buf"] by (simp add: add.commute)
  ultimately show ?case by (simp add: k'(2) add.assoc)
qed

lemma Write_complete:
  assumes "cs_isActive c" and "written os m = Some m" and "\<And>i. i < length os \<Longrightarrow> ks i = os ! i"
    and "m \<le> length buf" and "m < 2 ^ 64"
  shows "ClientSocket_Write ks buf (of_nat m) c = Some (Inr (of_nat m, False, c, take m buf))"
  using write_loop_prefix [of os m m ks 0 0 buf 0 "[]"] assms
  by (simp add: ClientSocket_Write_def write_loop.simps [of _ _ _ _ 0])

lemma Write_inactive: "\<not> cs_isActive c \<Longrightarrow> ClientSocket_Write ks buf n c = Some (Inr (0, True, c, []))"
  by (simp add: ClientSocket_Write_def)

text \<open>
  A write to the peer delivers the whole buffer, in order and once, however the kernel cuts
  it into partial writes and however often it asks to try again, and reports the full count.
\<close>

theorem client_write_complete:
  assumes "cs_isActive c" and "written os m = Some m" and "\<And>i. i < length os \<Longrightarrow> ks i = os ! i"
    and "m \<le> length buf" and "m < 2 ^ 64"
  shows "ClientSocket_Write ks buf (of_nat m) c = Some (Inr (of_nat m, False, c, take m buf))"
  using assms by (rule Write_complete)

theorem client_write_complete_witness:
  "ClientSocket_Write (\<lambda>i. [Wrote 2, WriteError EINTR, Wrote 1] ! i) [7, 8, 9] 3
     (ClientSocket_new 5 6 1 True) = Some (Inr (3, False, ClientSocket_new 5 6 1 True, [7, 8, 9]))"
  using client_write_complete [of "ClientSocket_new 5 6 1 True" "[Wrote 2, WriteError EINTR, Wrote 1]" 3
      "\<lambda>i. [Wrote 2, WriteError EINTR, Wrote 1] ! i" "[7, 8, 9]"]
  by (simp add: ClientSocket_new_def recoverable_def)

text \<open>
  A write that fails for good deactivates the socket and reports no bytes at all, although
  the peer has received the first \<open>k\<close>.
\<close>

theorem client_write_failure:
  assumes "cs_isActive c" and "written os m = Some k" and "k < m"
    and "\<And>i. i < length os \<Longrightarrow> ks i = os ! i"
    and "ks (length os) = WriteError e" and "\<not> recoverable (Some e)"
    and "m \<le> length buf" and "m < 2 ^ 64"
  shows "ClientSocket_Write ks buf (of_nat m) c =
    Some (Inr (0, True, ClientSocket_OnError c, take k buf))"
proof -
  have ne: "(of_nat (m - k) :: u64) \<noteq> 0"
    using assms(3,8) count_zero [of "m - k"] by simp
  from write_loop_prefix [of os m k ks 0 0 buf 0 "[]"] assms
  have "write_loop ks 0 buf 0 (of_nat m) 0 [] =
      write_loop ks (length os) buf k (of_nat (m - k)) (of_nat k) (take k buf)"
    by simp
  also have "\<dots> = Some (Inr (False, 0, take k buf))"
    using assms(5,6) ne by (subst write_loop.simps) simp
  finally show ?thesis using assms(1) by (simp add: ClientSocket_Write_def)
qed

theorem client_write_failure_witness:
  "ClientSocket_Write (\<lambda>i. [Wrote 2, WriteError (Other_errno 32)] ! i) [7, 8, 9] 3
     (ClientSocket_new 5 6 1 True) =
   Some (Inr (0, True, ClientSocket_OnError (ClientSocket_new 5 6 1 True), [7, 8]))"
proof (rule client_write_failure [where os = "[Wrote 2]" and k = 2 and m = 3
      and e = "Other_errno 32" and buf = "[7, 8, 9]", simplified])
qed (simp_all add: ClientSocket_new_def recoverable_def)

section \<open>Listening\<close>

text \<open>
  Initialising the listening socket makes it active exactly when all four calls succeed.
  It then returns true; but it also returns true, with the socket inactive and without a
  descriptor, when the very first call fails.
\<close>

theorem server_initialize:
  "sv_isActive (snd (ServerSocket_Initialize calls port ServerSocket_new)) =
     (0 \<le> lc_socket calls \<and> 0 \<le> lc_setsockopt calls \<and> 0 \<le> lc_bind calls \<and> 0 \<le> lc_listen calls) \<and>
   fst (ServerSocket_Initialize calls port ServerSocket_new) =
     (lc_socket calls < 0 \<or> sv_isActive (snd (ServerSocket_Initialize calls port ServerSocket_new))) \<and>
   ServerSocket_GetFd (snd (ServerSocket_Initialize calls port ServerSocket_new)) =
     (if sv_isActive (snd (ServerSocket_Initialize calls port ServerSocket_new))
      then lc_socket calls else - 1)"
  by (auto simp: ServerSocket_Initialize_def ServerSocket_new_def ServerSocket_GetFd_def
      bool_of_int_def Let_def)

end
