(* ===== verification/Detector.thy ===== *)
theory Detector
  imports Sockets Sessions
begin

text \<open>
  The first half of a connection, \<open>asyncDetector\<close> of \<open>ProxyConnector.cpp\<close>: a worker reads the
  request, finds the host and the port in it, stores them in the session and reports to the
  main loop. The answer of \<open>read\<close> and the success of the report's write are arguments.
\<close>

section \<open>The parser\<close>

definition fmt_request :: "directive list" where
  "fmt_request = [DStr (Some 1024), DWs, DStr (Some 1024), DWs] @ map DLit ''HTTP/1.'' @ [DSkipInt]"

definition fmt_http :: "directive list" where
  "fmt_http = [DSkipStr, DWs] @ map DLit ''http://'' @ [DStr (Some 1024), DWs] @
     map DLit ''HTTP/1.'' @ [DSkipInt]"

record detection =
  d_success :: bool
  d_transparent :: bool
  d_url :: string
  d_port :: int

text \<open>
  The part of the function behind a successful read. \<open>buf\<close> is the whole array; the C library
  reads it up to its first NUL, which must exist. Writing NUL at the first colon or slash cuts
  the text of \<open>url\<close> there.
\<close>

definition detect_parse :: "string \<Rightarrow> detection res" where
  "detect_parse buf =
     (if NUL \<notin> set buf then Inl OutOfBounds
      else let (numScanned, vs) = sscanf buf fmt_request in
        bind_res (store_str 1024 (str_arg vs 0 [])) (\<lambda>mode.
        bind_res (store_str 1024 (str_arg vs 1 [])) (\<lambda>url.
          let transparent =
            (if mode = ''CONNECT'' then False
             else if mode = ''GET'' then True
             else if mode = ''POST'' then True
             else False)
          in if \<not> transparent
             then case strchr url (CHR '':'') of
                    Some lastColon \<Rightarrow>
                      Inr \<lparr>d_success = True, d_transparent = False, d_url = take lastColon url,
                        d_port = int_arg (snd (sscanf (drop lastColon url) [DLit (CHR '':''), DInt])) 0 80\<rparr>
                  | None \<Rightarrow>
                      Inr \<lparr>d_success = True, d_transparent = False, d_url = url, d_port = 80\<rparr>
             else let (numScanned, vs) = sscanf buf fmt_http in
               bind_res (store_str 1024 (str_arg vs 0 url)) (\<lambda>url.
                 if numScanned \<noteq> 1
                 then Inr \<lparr>d_success = False, d_transparent = True, d_url = url, d_port = 80\<rparr>
                 else Inr \<lparr>d_success = True, d_transparent = True,
                   d_url = (case strchr url (CHR ''/'') of Some lastSlash \<Rightarrow> take lastSlash url | None \<Rightarrow> url),
                   d_port = 80\<rparr>))))"

definition buf_size :: nat where "buf_size = 4096"

definition chars :: "bytes \<Rightarrow> string" where
  "chars bs = map (\<lambda>b. char_of (unat b)) bs"

text \<open>What the zeroed array holds after the read.\<close>

definition request_buf :: "bytes \<Rightarrow> string" where
  "request_buf bs = chars (store 0 bs (replicate buf_size 0))"

section \<open>The worker's task\<close>

definition store_detection :: "detection \<Rightarrow> string \<Rightarrow> session \<Rightarrow> session" where
  "store_detection d requestString s =
     Session_SetTransparent (d_transparent d)
       (Session_SetRequest requestString
         (Session_SetPort (d_port d) (Session_SetHost (d_url d) s)))"

definition asyncDetector ::
  "sys_read \<Rightarrow> bool \<Rightarrow> int \<Rightarrow> session_manager \<Rightarrow> messenger \<Rightarrow> (session_manager \<times> messenger) res" where
  "asyncDetector answer wrote sessionId sm am =
     (case SessionManager_GetSession sm sessionId of
        None \<Rightarrow> Inl NullDeref
      | Some session \<Rightarrow>
          bind_res
            (case answer of
               ReadError _ \<Rightarrow> Inr (\<lparr>d_success = False, d_transparent = False, d_url = [], d_port = 80\<rparr>, [])
             | ReadBytes bs \<Rightarrow>
                 if length bs = 0
                 then Inr (\<lparr>d_success = False, d_transparent = False, d_url = [], d_port = 80\<rparr>, [])
                 else bind_res (detect_parse (request_buf bs)) (\<lambda>d. Inr (d, cstr (request_buf bs))))
            (\<lambda>(d, requestString).
               let sm = (if d_success d then upd_session sessionId (store_detection d requestString) sm
                         else sm)
               in Inr (sm, snd (AsyncMessenger_WriteMessage wrote
                                  (detect_message sessionId (d_success d)) am))))"

section \<open>Parsing\<close>

lemma scan_tail:
  "acc \<noteq> [] \<Longrightarrow> scan ([DWs] @ map DLit l @ [DSkipInt]) s acc = (int (length acc), acc)"
  by (rule scan_no_assign) (auto simp: assigns_def)

text \<open>The request line of a client: a method, a target and a version.\<close>

lemma sscanf_request:
  assumes "is_token m" and "is_token u" and "length m \<le> 1024" and "length u \<le> 1024"
    and "rest = [] \<or> isspace (hd rest)"
  shows "scan fmt_request (m @ CHR '' '' # u @ rest) [] = (2, [SStr m, SStr u])"
proof -
  have sp: "isspace CHR '' ''" by (simp add: isspace_def)
  have dw: "dropWhile isspace (CHR '' '' # u @ rest) = u @ rest"
    using dropWhile_space_token [OF assms(2)] sp by simp
  have tail: "scan ([DWs] @ map DLit ''HTTP/1.'' @ [DSkipInt]) rest [SStr m, SStr u] = (2, [SStr m, SStr u])"
    by (subst scan_tail) simp_all
  have "scan fmt_request (m @ CHR '' '' # u @ rest) [] =
      scan (DWs # DStr (Some 1024) # [DWs] @ map DLit ''HTTP/1.'' @ [DSkipInt])
        (CHR '' '' # u @ rest) [SStr m]"
    unfolding fmt_request_def
    using scan_token_width [OF assms(1,3), of "CHR '' '' # u @ rest"] sp by simp
  also have "\<dots> = scan ([DWs] @ map DLit ''HTTP/1.'' @ [DSkipInt]) rest [SStr m, SStr u]"
    using scan_token_width [OF assms(2,4,5)] dw by simp
  finally show ?thesis by (simp only: tail)
qed

lemma sscanf_http:
  assumes "is_token m" and "is_token u" and "length u \<le> 1024" and "rest = [] \<or> isspace (hd rest)"
  shows "scan fmt_http (m @ CHR '' '' # ''http://'' @ u @ rest) [] = (1, [SStr u])"
proof -
  have sp: "isspace CHR '' ''" "\<not> isspace (CHR ''h'')" by (simp_all add: isspace_def)
  have skip: "dropWhile (\<lambda>c. \<not> isspace c) (m @ CHR '' '' # ''http://'' @ u @ rest) =
      CHR '' '' # ''http://'' @ u @ rest"
    using assms(1) sp(1) by (auto simp: is_token_def dropWhile_append2)
  have m: "dropWhile isspace (m @ CHR '' '' # ''http://'' @ u @ rest) = m @ CHR '' '' # ''http://'' @ u @ rest"
    using dropWhile_space_token [OF assms(1)] .
  have tail: "scan ([DWs] @ map DLit ''HTTP/1.'' @ [DSkipInt]) rest [SStr u] = (1, [SStr u])"
    by (subst scan_tail) simp_all
  have "scan fmt_http (m @ CHR '' '' # ''http://'' @ u @ rest) [] =
      scan ([DWs] @ map DLit ''http://'' @ DStr (Some 1024) # [DWs] @ map DLit ''HTTP/1.'' @ [DSkipInt])
        (CHR '' '' # ''http://'' @ u @ rest) []"
    using m skip is_tokenD(1) [OF assms(1)] by (simp add: fmt_http_def Let_def)
  also have "\<dots> = scan (DStr (Some 1024) # [DWs] @ map DLit ''HTTP/1.'' @ [DSkipInt]) (u @ rest) []"
    using sp by simp
  also have "\<dots> = scan ([DWs] @ map DLit ''HTTP/1.'' @ [DSkipInt]) rest [SStr u]"
    using scan_token_width [OF assms(2,3,4)] by simp
  finally show ?thesis by (simp only: tail)
qed


lemma cut_at: "NUL \<notin> set u \<Longrightarrow> (case strchr u c of Some i \<Rightarrow> take i u | None \<Rightarrow> u) = takeWhile (\<lambda>x. x \<noteq> c) u"
  by (induction u) (auto split: option.splits)

lemma parse_prefix:
  assumes "is_token m" and "is_token u" and "length m < 1024" and "length u < 1024"
    and "rest = [] \<or> isspace (hd rest)" and "NUL \<notin> set rest"
  shows "sscanf ((m @ CHR '' '' # u @ rest) @ NUL # z) fmt_request = (2, [SStr m, SStr u])"
proof -
  have "NUL \<notin> set (m @ CHR '' '' # u @ rest)"
    using is_tokenD(2) [OF assms(1)] is_tokenD(2) [OF assms(2)] assms(6) by auto
  then have c: "cstr ((m @ CHR '' '' # u @ rest) @ NUL # z) = m @ CHR '' '' # u @ rest"
    by (rule cstr_append_NUL)
  show ?thesis
    unfolding sscanf_def c by (rule sscanf_request) (use assms in auto)
qed

lemma parse_connect:
  assumes "is_token host" and "CHR '':'' \<notin> set host" and "n < 2 ^ 31"
    and "length host + length (dec_nat n) < 1023"
    and "rest = [] \<or> isspace (hd rest)" and "NUL \<notin> set rest"
  shows "detect_parse ((''CONNECT'' @ CHR '' '' # (host @ CHR '':'' # dec_nat n) @ rest) @ NUL # z) =
    Inr \<lparr>d_success = True, d_transparent = False, d_url = host, d_port = int n\<rparr>"
proof -
  let ?u = "host @ CHR '':'' # dec_nat n"
  have c: "is_token (''CONNECT'')" by (simp add: is_token_def isspace_def)
  have u: "is_token ?u"
    using assms(1) is_token_dec_nat [of n] by (auto simp: is_token_def isspace_def)
  have s: "strchr ?u CHR '':'' = Some (length host)"
    using assms(1,2) by (intro strchr_append) (auto dest: is_tokenD)
  have p: "sscanf (CHR '':'' # dec_nat n) [DLit CHR '':'', DInt] = (1, [SInt (int n)])"
    using is_token_dec_nat [of n] scan_int_dec_nat [OF assms(3)] dropWhile_space_token [of "dec_nat n" "[]"]
    by (simp add: sscanf_def cstr_id is_tokenD)
  show ?thesis
    using parse_prefix [OF c u _ _ assms(5,6), of z] assms(4) s p
    by (simp add: detect_parse_def store_str_def str_arg_def int_arg_def del: append_assoc append_Cons append.append_Cons)
qed

lemma parse_get:
  assumes "m = ''GET'' \<or> m = ''POST''" and "is_token u" and "length u < 1017"
    and "rest = [] \<or> isspace (hd rest)" and "NUL \<notin> set rest"
  shows "detect_parse ((m @ CHR '' '' # (''http://'' @ u) @ rest) @ NUL # z) =
    Inr \<lparr>d_success = True, d_transparent = True, d_url = takeWhile (\<lambda>c. c \<noteq> CHR ''/'') u, d_port = 80\<rparr>"
proof -
  have m: "is_token m" "length m < 1024" using assms(1) by (auto simp: is_token_def isspace_def)
  have u: "is_token (''http://'' @ u)"
    using assms(2) by (auto simp: is_token_def isspace_def)
  have "NUL \<notin> set (m @ CHR '' '' # ''http://'' @ u @ rest)"
    using assms m(1) u by (auto dest: is_tokenD)
  then have c: "cstr ((m @ CHR '' '' # ''http://'' @ u @ rest) @ NUL # z) =
      m @ CHR '' '' # ''http://'' @ u @ rest"
    by (rule cstr_append_NUL)
  have "scan fmt_http (m @ CHR '' '' # ''http://'' @ u @ rest) [] = (1, [SStr u])"
    by (rule sscanf_http) (use m assms in auto)
  then have "sscanf ((m @ CHR '' '' # ''http://'' @ u @ rest) @ NUL # z) fmt_http = (1, [SStr u])"
    unfolding sscanf_def c .
  then have h: "sscanf ((m @ CHR '' '' # (''http://'' @ u) @ rest) @ NUL # z) fmt_http = (1, [SStr u])"
    by (simp only: append_assoc)
  have l: "length u < 1024" using assms(3) by simp
  show ?thesis
    using parse_prefix [OF m(1) u m(2) _ assms(4,5), of z] assms(1,3) h l
      cut_at [OF is_tokenD(2) [OF assms(2)], of "CHR ''/''"]
    by (auto simp: detect_parse_def store_str_def str_arg_def
        simp del: append_assoc append_Cons append.append_Cons)
qed


section \<open>What a worker does with a request\<close>

definition bytes_of :: "string \<Rightarrow> bytes" where
  "bytes_of s = map of_char s"

lemma chars_bytes_of: "chars (bytes_of s) = s"
proof -
  have "char_of (unat (of_char c :: 8 word)) = c" for c
  proof -
    have "unat (of_char c :: 8 word) = unat (of_nat (of_char c) :: 8 word)"
      by (simp only: of_nat_of_char)
    also have "\<dots> = (of_char c :: nat)"
      using nat_of_char_less_256 [of c] by (simp add: unat_of_nat)
    finally show ?thesis by simp
  qed
  then show ?thesis by (simp add: chars_def bytes_of_def comp_def map_idI)
qed

lemma length_bytes_of [simp]: "length (bytes_of s) = length s"
  by (simp add: bytes_of_def)

lemma request_buf_bytes_of:
  "length s \<le> 4096 \<Longrightarrow> request_buf (bytes_of s) = s @ replicate (4096 - length s) NUL"
proof -
  have "chars (a @ b) = chars a @ chars b" for a b by (simp add: chars_def)
  moreover have "chars (replicate n 0) = replicate n NUL" for n by (simp add: chars_def)
  ultimately show ?thesis
    by (simp add: request_buf_def store_def buf_size_def chars_bytes_of)
qed

lemma request_buf_short:
  assumes "length s < 4096"
  obtains z where "request_buf (bytes_of s) = s @ NUL # z"
  using assms request_buf_bytes_of [of s] by (cases "4096 - length s") auto

lemma asyncDetector_request:
  assumes "SessionManager_GetSession sm i = Some se" and "s \<noteq> []" and "length s < 4096" and "NUL \<notin> set s"
    and "\<And>z. detect_parse (s @ NUL # z) = Inr d" and "d_success d"
  shows "asyncDetector (ReadBytes (bytes_of s)) True i sm am =
    Inr (upd_session i (store_detection d s) sm, am\<lparr>m_pipe := m_pipe am @ detect_message i True\<rparr>)"
proof -
  obtain z where z: "request_buf (bytes_of s) = s @ NUL # z" using request_buf_short [OF assms(3)] .
  then have "cstr (request_buf (bytes_of s)) = s" using assms(4) by (simp add: cstr_append_NUL)
  with assms z show ?thesis
    by (simp add: asyncDetector_def AsyncMessenger_WriteMessage_def)
qed

lemma connect_detected:
  assumes "SessionManager_GetSession sm i = Some se"
    and "is_token host" and "CHR '':'' \<notin> set host" and "n < 2 ^ 31"
    and "length host + length (dec_nat n) < 1023"
    and "rest = [] \<or> isspace (hd rest)" and "NUL \<notin> set rest"
    and "s = ''CONNECT '' @ host @ '':'' @ dec_nat n @ rest" and "length s < 4096"
    and "asyncDetector (ReadBytes (bytes_of s)) True i sm am = r"
  shows "\<exists>sm'. r = Inr (sm', am\<lparr>m_pipe := m_pipe am @ detect_message i True\<rparr>) \<and>
    SessionManager_GetSession sm' j =
      (if j = i then Some (se\<lparr>s_host := host, s_port := of_nat n, s_request := s, s_transparent := False\<rparr>)
       else SessionManager_GetSession sm j)"
proof -
  let ?d = "\<lparr>d_success = True, d_transparent = False, d_url = host, d_port = int n\<rparr>"
  have "NUL \<notin> set s" using assms(2,7,8) is_tokenD(2) [OF is_token_dec_nat [of n]] by (auto dest: is_tokenD)
  moreover have "detect_parse (s @ NUL # z) = Inr ?d" for z
    using parse_connect [OF assms(2-7), of z] by (simp add: assms(8))
  ultimately have "r = Inr (upd_session i (store_detection ?d s) sm,
      am\<lparr>m_pipe := m_pipe am @ detect_message i True\<rparr>)"
    using asyncDetector_request [OF assms(1) _ assms(9), of ?d] assms(8,10) by simp
  moreover have "s_sessionId (store_detection ?d s x) = s_sessionId x" for x
    by (simp add: store_detection_def session_ops)
  ultimately show ?thesis
    using assms(1) by (simp add: sess.get_upd) (simp add: store_detection_def session_ops)
qed

text \<open>
  C28: A \<open>CONNECT host:port\<close> request that fits the buffers leaves in its session the host, the
  port (as 16 bits), the request and the tunnelling mode, changes no other session, and is
  reported to the main loop as one success.
\<close>

theorem detect_connect_request:
  assumes "SessionManager_GetSession sm i = Some se"
    and "is_token host" and "CHR '':'' \<notin> set host" and "n < 2 ^ 31"
    and "length host + length (dec_nat n) < 1023"
    and "rest = [] \<or> isspace (hd rest)" and "NUL \<notin> set rest"
    and "s = ''CONNECT '' @ host @ '':'' @ dec_nat n @ rest" and "length s < 4096"
    and "asyncDetector (ReadBytes (bytes_of s)) True i sm am = r"
  shows "\<exists>sm'. r = Inr (sm', am\<lparr>m_pipe := m_pipe am @ detect_message i True\<rparr>) \<and>
    SessionManager_GetSession sm' j =
      (if j = i then Some (se\<lparr>s_host := host, s_port := of_nat n, s_request := s, s_transparent := False\<rparr>)
       else SessionManager_GetSession sm j)"
  using assms by (rule connect_detected)

lemma one_session:
  "SessionManager_GetSession \<lparr>sm_sessionId = 1, sm_list = [Session_new junk 7 0 40]\<rparr> 0 =
    Some (Session_new junk 7 0 40)"
  by (simp add: SessionManager_GetSession_def Session_new_def)

theorem detect_connect_request_witness:
  "\<exists>sm' am'. asyncDetector (ReadBytes (bytes_of (''CONNECT a.org:443 HTTP/1.1'' @ [CR, LF]))) True 0
      \<lparr>sm_sessionId = 1, sm_list = [Session_new blank_session 7 0 40]\<rparr>
      \<lparr>readPipe = 4, writePipe = 5, m_pipe = []\<rparr> = Inr (sm', am') \<and>
    SessionManager_GetSession sm' 0 = Some (Session_new blank_session 7 0 40
      \<lparr>s_host := ''a.org'', s_port := 443, s_request := ''CONNECT a.org:443 HTTP/1.1'' @ [CR, LF],
       s_transparent := False\<rparr>)"
proof -
  have d: "dec_nat 443 = ''443''" by code_simp
  have c: "is_token ''a.org''" "isspace CHR '' ''" by (simp_all add: is_token_def isspace_def)
  show ?thesis
    using detect_connect_request [OF one_session [of blank_session], where host = "''a.org''" and n = 443
        and rest = "'' HTTP/1.1'' @ [CR, LF]" and s = "''CONNECT a.org:443 HTTP/1.1'' @ [CR, LF]"
        and am = "\<lparr>readPipe = 4, writePipe = 5, m_pipe = []\<rparr>" and j = 0]
    by (auto simp: d c)
qed

text \<open>
  A \<open>GET\<close> or \<open>POST\<close> of an \<open>http://\<close> URL is detected as a transparent request to port 80 of
  everything up to the first slash of the URL: a port in the URL stays part of the host name.
\<close>

theorem detect_http_request:
  assumes "SessionManager_GetSession sm i = Some se"
    and "m = ''GET'' \<or> m = ''POST''" and "is_token u" and "length u < 1017"
    and "rest = [] \<or> isspace (hd rest)" and "NUL \<notin> set rest"
    and "s = m @ '' http://'' @ u @ rest" and "length s < 4096"
    and "asyncDetector (ReadBytes (bytes_of s)) True i sm am = r"
  shows "\<exists>sm'. r = Inr (sm', am\<lparr>m_pipe := m_pipe am @ detect_message i True\<rparr>) \<and>
    SessionManager_GetSession sm' j =
      (if j = i then Some (se\<lparr>s_host := takeWhile (\<lambda>c. c \<noteq> CHR ''/'') u, s_port := 80,
         s_request := s, s_transparent := True\<rparr>)
       else SessionManager_GetSession sm j)"
proof -
  let ?d = "\<lparr>d_success = True, d_transparent = True, d_url = takeWhile (\<lambda>c. c \<noteq> CHR ''/'') u, d_port = 80\<rparr>"
  have "NUL \<notin> set s" using assms(2,3,6,7) by (auto dest: is_tokenD)
  moreover have "detect_parse (s @ NUL # z) = Inr ?d" for z
    using parse_get [OF assms(2-6), of z] by (simp add: assms(7))
  ultimately have "r = Inr (upd_session i (store_detection ?d s) sm,
      am\<lparr>m_pipe := m_pipe am @ detect_message i True\<rparr>)"
    using asyncDetector_request [OF assms(1) _ assms(8), of ?d] assms(7,9) by simp
  moreover have "s_sessionId (store_detection ?d s x) = s_sessionId x" for x
    by (simp add: store_detection_def session_ops)
  ultimately show ?thesis
    using assms(1) by (simp add: sess.get_upd) (simp add: store_detection_def session_ops)
qed

theorem detect_http_request_witness:
  "\<exists>sm' am'. asyncDetector (ReadBytes (bytes_of ''GET http://a.org:8080/x HTTP/1.1'')) True 0
      \<lparr>sm_sessionId = 1, sm_list = [Session_new blank_session 7 0 40]\<rparr>
      \<lparr>readPipe = 4, writePipe = 5, m_pipe = []\<rparr> = Inr (sm', am') \<and>
    SessionManager_GetSession sm' 0 = Some (Session_new blank_session 7 0 40
      \<lparr>s_host := ''a.org:8080'', s_port := 80, s_request := ''GET http://a.org:8080/x HTTP/1.1'',
       s_transparent := True\<rparr>)"
proof -
  have c: "is_token ''a.org:8080/x''" "isspace CHR '' ''" by (simp_all add: is_token_def isspace_def)
  show ?thesis
    using detect_http_request [OF one_session [of blank_session], where m = "''GET''" and u = "''a.org:8080/x''"
        and rest = "'' HTTP/1.1''" and s = "''GET http://a.org:8080/x HTTP/1.1''"
        and am = "\<lparr>readPipe = 4, writePipe = 5, m_pipe = []\<rparr>" and j = 0]
    by (auto simp: c)
qed

lemma parse_overflow:
  assumes "NUL \<notin> set s" and "1024 \<le> length (takeWhile (\<lambda>c. \<not> isspace c) s)"
  shows "detect_parse (s @ NUL # z) = Inl BufferOverflow"
proof -
  let ?w = "take 1024 (takeWhile (\<lambda>c. \<not> isspace c) s)"
  have d: "dropWhile isspace s = s" and ne: "s \<noteq> []"
    using assms(2) by (cases s; auto split: if_splits)+
  let ?ds = "[DWs, DStr (Some 1024), DWs] @ map DLit ''HTTP/1.'' @ [DSkipInt]"
  have "sscanf (s @ NUL # z) fmt_request = scan ?ds (drop (length ?w) s) [SStr ?w]"
    using ne by (simp add: sscanf_def cstr_append_NUL [OF assms(1)] fmt_request_def d take_width_def Let_def)
  moreover obtain ys where "snd (scan ?ds (drop (length ?w) s) [SStr ?w]) = [SStr ?w] @ ys"
    using scan_extends by blast
  ultimately obtain k where "sscanf (s @ NUL # z) fmt_request = (k, SStr ?w # ys)"
    by (cases "scan ?ds (drop (length ?w) s) [SStr ?w]") auto
  moreover have "length ?w = 1024" using assms(2) by simp
  ultimately show ?thesis by (simp add: detect_parse_def str_arg_def store_str_def)
qed

text \<open>
  C40: The first read of a client, before any authentication, can make the worker leave its arrays.
  A request without NUL that fills the whole buffer, whatever its words, is read past its end,
  and a shorter one whose first word has 1024 bytes or more overflows the array \<open>mode\<close>.
\<close>

theorem detect_overflow:
  assumes "SessionManager_GetSession sm i = Some se" and "length s \<le> 4096" and "NUL \<notin> set s"
    and "length s = 4096 \<or> 1024 \<le> length (takeWhile (\<lambda>c. \<not> isspace c) s)"
  shows "asyncDetector (ReadBytes (bytes_of s)) wrote i sm am =
    Inl (if length s = 4096 then OutOfBounds else BufferOverflow)"
proof -
  have ne: "s \<noteq> []" using assms(4) by auto
  show ?thesis
  proof (cases "length s = 4096")
    case True
    with assms ne request_buf_bytes_of [of s] show ?thesis
      by (simp add: asyncDetector_def detect_parse_def)
  next
    case False
    with assms(2,4) have "length s < 4096"
      and long: "1024 \<le> length (takeWhile (\<lambda>c. \<not> isspace c) s)" by simp_all
    from request_buf_short [OF this(1)] obtain z where z: "request_buf (bytes_of s) = s @ NUL # z" .
    have "detect_parse (s @ NUL # z) = Inl BufferOverflow"
      using parse_overflow [OF assms(3) long] .
    with z ne False assms(1) show ?thesis by (simp add: asyncDetector_def)
  qed
qed

theorem detect_overflow_witness:
  "asyncDetector (ReadBytes (bytes_of (replicate 1024 (CHR ''A'')))) True 0
     \<lparr>sm_sessionId = 1, sm_list = [Session_new blank_session 7 0 40]\<rparr>
     \<lparr>readPipe = 4, writePipe = 5, m_pipe = []\<rparr> = Inl BufferOverflow"
proof -
  have "takeWhile (\<lambda>c. \<not> isspace c) (replicate n (CHR ''A'')) = replicate n (CHR ''A'')" for n
    by (simp add: isspace_def)
  then show ?thesis
    using detect_overflow [OF one_session, of "replicate 1024 (CHR ''A'')" True blank_session
        "\<lparr>readPipe = 4, writePipe = 5, m_pipe = []\<rparr>"] by simp
qed

end
