(* ===== verification/Connector.thy ===== *)
theory Connector
  imports Detector ThreadPool HostCache Policy BlackList
begin

text \<open>
  The second half of a connection in \<open>ProxyConnector.hpp\<close> and \<open>ProxyConnector.cpp\<close>: the check of
  the policies, the work handed to the thread pool, and \<open>asyncConnector\<close>, which resolves the
  host and connects. The record \<open>world\<close> holds the singletons the threads share and a trace of
  the system calls on sockets. A worker's task is one step of the model.
\<close>

section \<open>The shared state\<close>

record world =
  w_sessions :: session_manager
  w_auth :: auth_manager
  w_stats :: global_stats
  w_policies :: policy_list
  w_blacklists :: blacklist_list
  w_cache :: host_cache
  w_messenger :: messenger
  w_work :: work_list
  w_io :: "io list"

text \<open>The singletons as they are when first used, over a configuration and a pipe.\<close>

definition world_start ::
  "auth_manager \<Rightarrow> policy_list \<Rightarrow> blacklist_list \<Rightarrow> int \<times> int \<Rightarrow> u64 \<Rightarrow> world" where
  "world_start am ps bs fds now =
     \<lparr>w_sessions = SessionManager_new, w_auth = am, w_stats = GlobalStats_new now,
      w_policies = ps, w_blacklists = bs, w_cache = [],
      w_messenger = \<lparr>readPipe = fst fds, writePipe = snd fds, m_pipe = []\<rparr>, w_work = [], w_io = []\<rparr>"

abbreviation emit :: "io list \<Rightarrow> world \<Rightarrow> world" where
  "emit es w \<equiv> w\<lparr>w_io := w_io w @ es\<rparr>"

section \<open>Policies\<close>

text \<open>The body of both loops: stop at the first domain whose list does not allow the host.\<close>

definition domain_check :: "blacklist_list \<Rightarrow> string \<Rightarrow> string \<Rightarrow> bool \<Rightarrow> bool \<times> bool" where
  "domain_check bs host domain allowed =
     (if \<not> BlacklistList_IsAllowedInList bs domain host then (True, False) else (False, allowed))"

definition isAllowed :: "policy_list \<Rightarrow> blacklist_list \<Rightarrow> session \<Rightarrow> bool res" where
  "isAllowed ps bs session =
     bind_res
       (loop_res (enum_loop (UserPolicyList_GetUserDomain ps (Session_GetUserName session))
          (domain_check bs (Session_GetHost session)) 0 True))
       (\<lambda>allowed.
          if allowed
          then loop_res (enum_loop (UserPolicyList_GetUserDomain ps ''<global>'')
                 (domain_check bs (Session_GetHost session)) 0 allowed)
          else Inr allowed)"

section \<open>Reports and work\<close>

definition sendResponse :: "bool \<Rightarrow> int \<Rightarrow> int \<Rightarrow> bool \<Rightarrow> world \<Rightarrow> world" where
  "sendResponse wrote fd sessionId success w =
     w\<lparr>w_messenger := snd (AsyncMessenger_WriteMessage wrote
         (connect_message fd sessionId success) (w_messenger w))\<rparr>"

definition sendErrorResponse :: "bool \<Rightarrow> int \<Rightarrow> world \<Rightarrow> world" where
  "sendErrorResponse wrote sessionId w = sendResponse wrote (- 1) sessionId False w"

definition ThreadPool_Dispatch :: "WorkPackage \<Rightarrow> world \<Rightarrow> world" where
  "ThreadPool_Dispatch work w = w\<lparr>w_work := work_push work (w_work w)\<rparr>"

definition ProxyConnector_BeginProxyDetect :: "int \<Rightarrow> world \<Rightarrow> world" where
  "ProxyConnector_BeginProxyDetect sessionId w =
     ThreadPool_Dispatch \<lparr>wp_handler = Some asyncDetector_fn, wp_context = sessionId\<rparr> w"

definition ProxyConnector_ConnectProxy :: "bool \<Rightarrow> int \<Rightarrow> world \<Rightarrow> world res" where
  "ProxyConnector_ConnectProxy wrote sessionId w =
     (case SessionManager_GetSession (w_sessions w) sessionId of
        None \<Rightarrow> Inl NullDeref
      | Some session \<Rightarrow>
          bind_res (isAllowed (w_policies w) (w_blacklists w) session)
            (\<lambda>allowed.
               if \<not> allowed then Inr (sendErrorResponse wrote sessionId w)
               else Inr (ThreadPool_Dispatch
                 \<lparr>wp_handler = Some asyncConnector_fn, wp_context = sessionId\<rparr> w)))"

section \<open>Connecting\<close>

text \<open>
  What a connector reads from outside: the resolver's environment, the answers of \<open>socket\<close>,
  \<open>inet_pton\<close> and \<open>connect\<close>, and the success of the report's write.
\<close>

record connect_env =
  ce_lookup :: lookup_env
  ce_socket :: int
  ce_pton :: "string \<Rightarrow> bool"
  ce_connect :: "string \<Rightarrow> u16 \<Rightarrow> int"
  ce_wrote :: bool

text \<open>
  The loop over the addresses: whether it connected, and the calls it made. For an address that
  is not of version 4 the code writes a 16-byte address at offset 8 of a 16-byte structure.
\<close>

fun connect_loop :: "connect_env \<Rightarrow> u16 \<Rightarrow> host_info list \<Rightarrow> (bool \<times> io list) res" where
  "connect_loop env port [] = Inr (False, [])"
| "connect_loop env port (x # xs) =
     (if hi_url x = ''0.0.0.0'' then connect_loop env port xs
      else if hi_ipVersion x = 4
      then if \<not> ce_pton env (hi_address x) then connect_loop env port xs
           else if ce_connect env (hi_address x) port \<noteq> - 1
           then Inr (True, [Connect (ce_socket env) (hi_address x) port])
           else bind_res (connect_loop env port xs)
             (\<lambda>(ok, es). Inr (ok, Connect (ce_socket env) (hi_address x) port # es))
      else if \<not> ce_pton env (hi_address x) then connect_loop env port xs
      else Inl BufferOverflow)"

definition ok_response :: string where
  "ok_response = ''HTTP/1.0 200 OK'' @ [CR, LF, CR, LF]"

definition keepalives :: "int \<Rightarrow> session \<Rightarrow> io list" where
  "keepalives sockFd session =
     (if strstr (cstr (Session_GetRequest session)) ''Connection: keep-alive'' = None
      then [KeepAlive sockFd] else []) @
     (if strstr (cstr (Session_GetRequest session)) ''Proxy-Connection: keep-alive'' = None
      then [KeepAlive (Session_GetClientFd session)] else [])"

definition connected_io :: "int \<Rightarrow> session \<Rightarrow> io list" where
  "connected_io sockFd session =
     [if Session_GetTransparent session then Send sockFd (Session_GetRequest session)
      else Send (Session_GetClientFd session) ok_response] @
     keepalives sockFd session @ [Timeouts sockFd]"

text \<open>
  \<open>asyncConnector\<close> in two parts. The first ends with the report. When no address answered, the second
  clears the cache of the host: it reads the session once more, which the main loop may have ended
  since the report. The flag says whether the second part follows.
\<close>

definition asyncConnector_report :: "connect_env \<Rightarrow> int \<Rightarrow> world \<Rightarrow> (bool \<times> world) res" where
  "asyncConnector_report env sessionId w =
     (case SessionManager_GetSession (w_sessions w) sessionId of
        None \<Rightarrow> Inl NullDeref
      | Some session \<Rightarrow>
          bind_res (HostResolver_GetAddressesForHost (ce_lookup env) (Session_GetHost session)
              (Session_GetPort session) False (w_cache w))
            (\<lambda>(hostAddresses, cached, cache).
               let w = w\<lparr>w_cache := cache\<rparr> in
               if length hostAddresses = 0
               then Inr (False, sendErrorResponse (ce_wrote env) sessionId w)
               else if ce_socket env = - 1
               then Inr (False, sendErrorResponse (ce_wrote env) sessionId w)
               else bind_res (connect_loop env (Session_GetPort session) hostAddresses)
                 (\<lambda>(connected, tried).
                    let w = emit tried w in
                    if \<not> connected
                    then Inr (True, sendErrorResponse (ce_wrote env) sessionId w)
                    else Inr (False, sendResponse (ce_wrote env) (ce_socket env) sessionId True
                      (emit (connected_io (ce_socket env) session) w)))))"

definition asyncConnector_purge :: "int \<Rightarrow> world \<Rightarrow> world res" where
  "asyncConnector_purge sessionId w =
     (case SessionManager_GetSession (w_sessions w) sessionId of
        None \<Rightarrow> Inl Dangling
      | Some session \<Rightarrow>
          bind_res (HostResolver_ClearCacheForHost (Session_GetHost session) (w_cache w))
            (\<lambda>c. Inr (w\<lparr>w_cache := c\<rparr>)))"

text \<open>The whole task, when nothing comes between the two parts.\<close>

definition asyncConnector :: "connect_env \<Rightarrow> int \<Rightarrow> world \<Rightarrow> world res" where
  "asyncConnector env sessionId w =
     bind_res (asyncConnector_report env sessionId w)
       (\<lambda>(late, w). if late then asyncConnector_purge sessionId w else Inr w)"

lemma send_world [simp]:
  "w_sessions (sendResponse wrote fd i ok w) = w_sessions w" "w_sessions (sendErrorResponse wrote i w) = w_sessions w"
  by (simp_all add: sendErrorResponse_def sendResponse_def)

lemma asyncConnector_eq:
  "asyncConnector env sessionId w =
     (case SessionManager_GetSession (w_sessions w) sessionId of
        None \<Rightarrow> Inl NullDeref
      | Some session \<Rightarrow>
          bind_res (HostResolver_GetAddressesForHost (ce_lookup env) (Session_GetHost session)
              (Session_GetPort session) False (w_cache w))
            (\<lambda>(hostAddresses, cached, cache).
               let w = w\<lparr>w_cache := cache\<rparr> in
               if length hostAddresses = 0
               then Inr (sendErrorResponse (ce_wrote env) sessionId w)
               else if ce_socket env = - 1
               then Inr (sendErrorResponse (ce_wrote env) sessionId w)
               else bind_res (connect_loop env (Session_GetPort session) hostAddresses)
                 (\<lambda>(connected, tried).
                    let w = emit tried w in
                    if \<not> connected
                    then let w = sendErrorResponse (ce_wrote env) sessionId w in
                      bind_res (HostResolver_ClearCacheForHost (Session_GetHost session) (w_cache w))
                        (\<lambda>c. Inr (w\<lparr>w_cache := c\<rparr>))
                    else Inr (sendResponse (ce_wrote env) (ce_socket env) sessionId True
                      (emit (connected_io (ce_socket env) session) w)))))"
  by (cases "SessionManager_GetSession (w_sessions w) sessionId")
     (auto simp: asyncConnector_def asyncConnector_report_def asyncConnector_purge_def bind_res_assoc Let_def
        intro!: arg_cong [where f = "bind_res _"] ext split: prod.split)

section \<open>The policy check\<close>

lemma run_domain_check:
  "run_body (domain_check bs host) ds True \<longleftrightarrow>
     (\<forall>d\<in>set ds. BlacklistList_IsAllowedInList bs d host)"
  by (induction ds) (auto simp: domain_check_def)

lemma isAllowed_eq:
  "isAllowed ps bs s = Inr (\<forall>d\<in>set (domains_of ps (s_userName s)) \<union> set (domains_of ps ''<global>'').
     BlacklistList_IsAllowedInList bs d (s_host s))"
  by (auto simp: isAllowed_def GetUserDomain_loop run_domain_check)

text \<open>What a policy set promises, without loops: a host passes when no list of the user blocks it.\<close>

definition blocked_by :: "blacklist_list \<Rightarrow> string \<Rightarrow> string \<Rightarrow> bool" where
  "blocked_by bs domain host =
     (case find_first (\<lambda>b. bl_name b = domain) bs of
        None \<Rightarrow> True | Some b \<Rightarrow> host \<in> bl_hosts b)"

definition policy_allows :: "policy_list \<Rightarrow> blacklist_list \<Rightarrow> string \<Rightarrow> string \<Rightarrow> bool" where
  "policy_allows ps bs user host =
     (filter (\<lambda>d. blocked_by bs d host) (domains_of ps user @ domains_of ps ''<global>'') = [])"

lemma isAllowed_policy: "isAllowed ps bs s = Inr (policy_allows ps bs (s_userName s) (s_host s))"
  by (auto simp: isAllowed_eq policy_allows_def filter_empty_conv blocked_by_def
      IsAllowedInList_first split: option.splits)

text \<open>
  C9: The policy decision. For a live session, connecting hands exactly one connector to the
  thread pool when no domain list of its user and no global one blocks the detected host, and
  otherwise only reports the failure; a domain whose list is not loaded blocks every host. The
  loops over the domains always end.
\<close>

theorem connect_proxy_policy:
  assumes "SessionManager_GetSession (w_sessions w) i = Some s"
  shows "ProxyConnector_ConnectProxy True i w = Inr
    (if policy_allows (w_policies w) (w_blacklists w) (s_userName s) (s_host s)
     then w\<lparr>w_work := w_work w @ [\<lparr>wp_handler = Some asyncConnector_fn, wp_context = i\<rparr>]\<rparr>
     else w\<lparr>w_messenger := (w_messenger w)\<lparr>m_pipe := m_pipe (w_messenger w) @
       connect_message (- 1) i False\<rparr>\<rparr>)"
  using assms
  by (simp add: ProxyConnector_ConnectProxy_def isAllowed_policy ThreadPool_Dispatch_def
      work_push_def sendErrorResponse_def sendResponse_def AsyncMessenger_WriteMessage_def)


definition example_world :: "session \<Rightarrow> world" where
  "example_world s =
     (world_start AuthManager_new [\<lparr>up_name = ''<global>'', up_domains = [''ads'']\<rparr>]
        [\<lparr>bl_name = ''ads'', bl_hosts = {''ads.example''}\<rparr>] (4, 5) 0)
     \<lparr>w_sessions := \<lparr>sm_sessionId = 1, sm_list = [s]\<rparr>\<rparr>"

lemma example_session:
  "s_sessionId s = 0 \<Longrightarrow> SessionManager_GetSession (w_sessions (example_world s)) 0 = Some s"
  by (simp add: example_world_def SessionManager_GetSession_def)

theorem connect_proxy_policy_witness:
  "map_sum id w_work (ProxyConnector_ConnectProxy True 0
     (example_world (Session_SetHost ''ads.example'' (Session_new blank_session 7 0 40)))) = Inr [] \<and>
   map_sum id w_work (ProxyConnector_ConnectProxy True 0
     (example_world (Session_SetHost ''a.org'' (Session_new blank_session 7 0 40)))) =
     Inr [\<lparr>wp_handler = Some asyncConnector_fn, wp_context = 0\<rparr>]"
  using connect_proxy_policy [OF example_session [of "Session_SetHost ''ads.example'' (Session_new blank_session 7 0 40)"]]
    connect_proxy_policy [OF example_session [of "Session_SetHost ''a.org'' (Session_new blank_session 7 0 40)"]]
  by (simp add: Session_SetHost_def Session_new_def example_world_def world_start_def
      policy_allows_def domains_of_def blocked_by_def)

section \<open>The connector\<close>

lemma connect_loop_events:
  "connect_loop env port xs = Inr (ok, es) \<Longrightarrow>
   (\<forall>e\<in>set es. \<exists>a. e = Connect (ce_socket env) a port) \<and>
   (ok \<longrightarrow> (\<exists>x\<in>set xs. ce_connect env (hi_address x) port \<noteq> - 1 \<and>
     Connect (ce_socket env) (hi_address x) port \<in> set es))"
proof (induction xs arbitrary: es)
  case (Cons x xs)
  then show ?case
    by (fastforce simp: bind_res_eq_Inr split: if_splits)
qed simp

text \<open>A skipped host name: the addresses of an answer are all skipped or none is.\<close>

lemma connect_loop_filter:
  "connect_loop env port (filter (\<lambda>x. hi_url x \<noteq> ''0.0.0.0'') xs) = connect_loop env port xs"
  by (induction xs) auto

lemma connect_loop_v4:
  "\<forall>x\<in>set xs. hi_ipVersion x = 4 \<Longrightarrow> \<exists>r. connect_loop env port xs = Inr r"
  by (induction xs) (auto simp: bind_res_eq_Inr)

text \<open>
  C26: A connector that returns has sent the main loop exactly one report: the socket and success,
  or -1 and failure. It changes no session, no policy and no work, and reports success only
  after a \<open>connect\<close> of one of the addresses succeeded.
\<close>

theorem connector_reports_once:
  assumes "ce_wrote env" and "asyncConnector env i w = Inr w'"
  shows "\<exists>ok es. m_pipe (w_messenger w') = m_pipe (w_messenger w) @
      connect_message (if ok then ce_socket env else - 1) i ok \<and>
    w_io w' = w_io w @ es \<and>
    (if ok then \<exists>a p. ce_connect env a p \<noteq> - 1 \<and> Connect (ce_socket env) a p \<in> set es
     else \<forall>e\<in>set es. \<exists>a p. e = Connect (ce_socket env) a p) \<and>
    w_sessions w' = w_sessions w \<and> w_work w' = w_work w \<and> w_policies w' = w_policies w"
proof -
  obtain s where s: "SessionManager_GetSession (w_sessions w) i = Some s"
    using assms(2) by (auto simp: asyncConnector_eq split: option.splits)
  obtain addrs cached cache where r: "HostResolver_GetAddressesForHost (ce_lookup env) (s_host s)
      (s_port s) False (w_cache w) = Inr (addrs, cached, cache)"
    using assms(2) s by (auto simp: asyncConnector_eq bind_res_eq_Inr)
  note defs = sendErrorResponse_def sendResponse_def
    AsyncMessenger_WriteMessage_def
  show ?thesis
  proof (cases "length addrs = 0 \<or> ce_socket env = - 1")
    case True
    with assms have "w' = sendErrorResponse True i (w\<lparr>w_cache := cache\<rparr>)"
      by (auto simp: asyncConnector_eq s r Let_def split: if_splits)
    then show ?thesis by (intro exI [of _ False] exI [of _ "[]"]) (simp add: defs)
  next
    case False
    then obtain ok tried where l: "connect_loop env (s_port s) addrs = Inr (ok, tried)"
      using assms(2) by (auto simp: asyncConnector_eq s r Let_def bind_res_eq_Inr)
    note ev = connect_loop_events [OF l]
    show ?thesis
    proof (cases ok)
      case True
      with assms False l have "w' = sendResponse True (ce_socket env) i True
          (emit (connected_io (ce_socket env) s) (emit tried (w\<lparr>w_cache := cache\<rparr>)))"
        by (auto simp: asyncConnector_eq s r Let_def)
      with ev True show ?thesis
        by (intro exI [of _ True] exI [of _ "tried @ connected_io (ce_socket env) s"])
           (auto simp: defs)
    next
      case f: False
      with assms False l obtain c where
        "w' = (sendErrorResponse True i (emit tried (w\<lparr>w_cache := cache\<rparr>)))\<lparr>w_cache := c\<rparr>"
        by (auto simp: asyncConnector_eq s r Let_def bind_res_eq_Inr)
      with ev show ?thesis
        by (intro exI [of _ False] exI [of _ tried]) (auto simp: defs)
    qed
  qed
qed


text \<open>An environment: one IPv4 address for every host, and a server that answers or does not.\<close>

definition example_env :: "string \<Rightarrow> int \<Rightarrow> connect_env" where
  "example_env address answer = \<lparr>ce_lookup = \<lparr>le_scan = \<lambda>_. 5,
     le_getaddrinfo = (\<lambda>_ _. Some [(AF_INET, address)]), le_now = 5\<rparr>,
     ce_socket = 9, ce_pton = (\<lambda>_. True), ce_connect = (\<lambda>_ _. answer), ce_wrote = True\<rparr>"

abbreviation example_entry :: "string \<Rightarrow> string \<Rightarrow> host_info" where
  "example_entry host address \<equiv>
     \<lparr>hi_url = host, hi_address = address, hi_ipVersion = 4, hi_Timestamp = 5\<rparr>"

lemma example_resolve:
  "HostResolver_GetAddressesForHost (ce_lookup (example_env address answer)) host port False [] =
     Inr ([example_entry host address], False, [example_entry host address])"
  by (simp add: example_env_def HostResolver_GetAddressesForHost_def
      HostInfoCache_GetCachedResults_def HostInfoCache_AddResult_def Let_def maxCacheSize_def)

lemma example_cache: "w_cache (example_world s) = []"
  by (simp add: example_world_def world_start_def)

theorem connector_reports_once_witness:
  "\<exists>w'. asyncConnector (example_env ''10.0.0.1'' 0) 0
      (example_world (Session_SetHost ''a.org'' (Session_new blank_session 7 0 40))) = Inr w' \<and>
    length (m_pipe (w_messenger w')) = 16"
proof -
  let ?s = "Session_SetHost ''a.org'' (Session_new blank_session 7 0 40)"
  let ?env = "example_env ''10.0.0.1'' 0"
  have s: "SessionManager_GetSession (w_sessions (example_world ?s)) 0 = Some ?s"
    by (rule example_session) (simp add: Session_SetHost_def Session_new_def)
  have "connect_loop ?env p [example_entry ''a.org'' ''10.0.0.1''] = Inr (True, [Connect 9 ''10.0.0.1'' p])" for p
    by (simp add: example_env_def)
  then obtain w' where w': "asyncConnector ?env 0 (example_world ?s) = Inr w'"
    using s example_resolve
    by (simp add: asyncConnector_eq example_cache Session_SetHost_def example_env_def [of "''10.0.0.1''"])
       (simp add: example_env_def Let_def)
  from connector_reports_once [OF _ this] have "length (m_pipe (w_messenger w')) =
      length (m_pipe (w_messenger (example_world ?s))) + 16"
    by (auto simp: example_env_def)
  with w' show ?thesis by (simp add: example_world_def world_start_def)
qed

lemma connector_connects:
  assumes "SessionManager_GetSession (w_sessions w) i = Some s"
    and "HostResolver_GetAddressesForHost (ce_lookup env) (s_host s) (s_port s) False (w_cache w) =
      Inr (x # xs, cached, cache)"
    and "wf_cache (w_cache w)" and "s_host s \<noteq> ''0.0.0.0''" and "ce_socket env \<noteq> - 1"
    and "ce_pton env (hi_address x)" and "ce_connect env (hi_address x) (s_port s) \<noteq> - 1"
    and "ce_wrote env"
  shows "asyncConnector_report env i w = Inr (False, w\<lparr>w_cache := cache,
    w_messenger := (w_messenger w)\<lparr>m_pipe := m_pipe (w_messenger w) @ connect_message (ce_socket env) i True\<rparr>,
    w_io := w_io w @ [Connect (ce_socket env) (hi_address x) (s_port s),
        if s_transparent s then Send (ce_socket env) (s_request s) else Send (s_clientFd s) ok_response] @
      (if strstr (cstr (s_request s)) ''Connection: keep-alive'' = None then [KeepAlive (ce_socket env)] else []) @
      (if strstr (cstr (s_request s)) ''Proxy-Connection: keep-alive'' = None then [KeepAlive (s_clientFd s)] else []) @
      [Timeouts (ce_socket env)]\<rparr>)"
proof -
  have "hi_url x = s_host s" and "hi_ipVersion x = 4"
    using rs.resolve_answer [OF assms(3,2)] by auto
  with assms have "connect_loop env (s_port s) (x # xs) =
      Inr (True, [Connect (ce_socket env) (hi_address x) (s_port s)])" by simp
  with assms show ?thesis
    by (simp add: asyncConnector_report_def Let_def sendResponse_def AsyncMessenger_WriteMessage_def
        connected_io_def keepalives_def)
qed

text \<open>
  C27: A connection that succeeds at the first address. The request is repeated to the server in
  transparent mode, otherwise the client is told \<open>200 OK\<close>; keep-alive is switched on exactly when
  the request does not ask for it; the main loop gets the connected socket; the cache is the one
  the resolver left.
\<close>

theorem connector_success:
  assumes "SessionManager_GetSession (w_sessions w) i = Some s"
    and "HostResolver_GetAddressesForHost (ce_lookup env) (s_host s) (s_port s) False (w_cache w) =
      Inr (x # xs, cached, cache)"
    and "wf_cache (w_cache w)" and "s_host s \<noteq> ''0.0.0.0''" and "ce_socket env \<noteq> - 1"
    and "ce_pton env (hi_address x)" and "ce_connect env (hi_address x) (s_port s) \<noteq> - 1"
    and "ce_wrote env"
  shows "asyncConnector env i w = Inr (w\<lparr>w_cache := cache,
    w_messenger := (w_messenger w)\<lparr>m_pipe := m_pipe (w_messenger w) @ connect_message (ce_socket env) i True\<rparr>,
    w_io := w_io w @ [Connect (ce_socket env) (hi_address x) (s_port s),
        if s_transparent s then Send (ce_socket env) (s_request s) else Send (s_clientFd s) ok_response] @
      (if strstr (cstr (s_request s)) ''Connection: keep-alive'' = None then [KeepAlive (ce_socket env)] else []) @
      (if strstr (cstr (s_request s)) ''Proxy-Connection: keep-alive'' = None then [KeepAlive (s_clientFd s)] else []) @
      [Timeouts (ce_socket env)]\<rparr>)"
  using connector_connects [OF assms] by (simp add: asyncConnector_def)

theorem connector_success_witness:
  "map_sum id w_io (asyncConnector (example_env ''10.0.0.1'' 0) 0
      (example_world (Session_SetTransparent False (Session_SetHost ''a.org'' (Session_new blank_session 7 0 40))))) =
   Inr [Connect 9 ''10.0.0.1'' (s_port blank_session), Send 7 ok_response, KeepAlive 9, KeepAlive 7, Timeouts 9]"
proof -
  let ?s = "Session_SetTransparent False (Session_SetHost ''a.org'' (Session_new blank_session 7 0 40))"
  let ?w = "example_world ?s"
  have s: "SessionManager_GetSession (w_sessions ?w) 0 = Some ?s"
    by (rule example_session) (simp add: session_ops Session_new_def)
  have r: "HostResolver_GetAddressesForHost (ce_lookup (example_env ''10.0.0.1'' 0)) (s_host ?s) (s_port ?s)
      False (w_cache ?w) = Inr ([example_entry (s_host ?s) ''10.0.0.1''], False, [example_entry (s_host ?s) ''10.0.0.1''])"
    unfolding example_cache by (rule example_resolve)
  show ?thesis
    using connector_success [OF s r]
    by (simp add: example_env_def example_cache wf_cache_def session_ops Session_new_def)
       (simp add: example_world_def world_start_def)
qed

text \<open>
  When the only address of a host that was not cached does not answer, clearing the cache of
  the host runs past the end of the list: the entry just added is the last one.
\<close>

theorem connect_failure_past_end:
  assumes "SessionManager_GetSession (w_sessions w) i = Some s"
    and "all_fresh (ce_lookup env) (w_cache w)" and "\<forall>x\<in>set (w_cache w). hi_url x \<noteq> s_host s"
    and "le_getaddrinfo (ce_lookup env) (cstr (s_host s)) (dec_nat (unat (s_port s))) = Some results"
    and "first_ipv4 results = Some ip" and "s_host s \<noteq> ''0.0.0.0''" and "ce_socket env \<noteq> - 1"
    and "ce_connect env ip (s_port s) = - 1"
  shows "asyncConnector env i w = Inl PastEnd"
proof -
  let ?x = "\<lparr>hi_url = s_host s, hi_address = ip, hi_ipVersion = 4,
    hi_Timestamp = le_now (ce_lookup env)\<rparr> :: host_info"
  let ?c = "HostInfoCache_AddResult ?x (w_cache w)"
  have "filter (\<lambda>x. hi_url x = s_host s) (w_cache w) = []" using assms(3) by (simp add: filter_empty_conv)
  with assms(2,4,5) have r: "HostResolver_GetAddressesForHost (ce_lookup env) (s_host s) (s_port s) False
      (w_cache w) = Inr ([?x], False, ?c)"
    by (simp add: HostResolver_GetAddressesForHost_def resolve_fresh Let_def)
  have "\<exists>es. connect_loop env (s_port s) [?x] = Inr (False, es)" using assms(6,8) by simp
  then obtain es where l: "connect_loop env (s_port s) [?x] = Inr (False, es)" ..
  obtain ys where ys: "?c = ys @ [?x]" "set ys \<subseteq> set (w_cache w)"
    using AddResult_last [of ?x "w_cache w"] by blast
  have "takeWhile (\<lambda>x. hi_url x = s_host s) (rev ys) = []"
  proof (cases "rev ys")
    case (Cons z zs)
    then have "z \<in> set ys" by (metis list.set_intros(1) set_rev)
    with ys(2) assms(3) Cons show ?thesis by auto
  qed simp
  then have "doomed_tail (\<lambda>x. hi_url x = s_host s) ?c = 1"
    by (simp add: doomed_tail_def ys(1))
  then have "HostResolver_ClearCacheForHost (s_host s) ?c = Inl PastEnd"
    by (simp add: HostResolver_ClearCacheForHost_def HostInfoCache_ClearCacheForHost_def clear_loop_fault)
  with r l assms(1,7) show ?thesis
    by (simp add: asyncConnector_eq Let_def sendErrorResponse_def sendResponse_def
        del: connect_loop.simps)
qed

theorem connect_failure_past_end_witness:
  "asyncConnector (example_env ''10.0.0.1'' (- 1)) 0
      (example_world (Session_SetHost ''a.org'' (Session_new blank_session 7 0 40))) = Inl PastEnd"
proof -
  let ?s = "Session_SetHost ''a.org'' (Session_new blank_session 7 0 40)"
  have s: "SessionManager_GetSession (w_sessions (example_world ?s)) 0 = Some ?s"
    by (rule example_session) (simp add: Session_SetHost_def Session_new_def)
  show ?thesis
    by (rule connect_failure_past_end [OF s, where ip = "''10.0.0.1''" and results = "[(AF_INET, ''10.0.0.1'')]"])
       (simp_all add: example_cache all_fresh_def example_env_def Session_SetHost_def)
qed

text \<open>
  The filter for sinkholed hosts compares the host name and not the address. A session for
  the host \<open>0.0.0.0\<close> makes no connection attempt; for any other host the first address is
  tried even when it is \<open>0.0.0.0\<close>.
\<close>

theorem sinkhole_address_tried:
  assumes "SessionManager_GetSession (w_sessions w) i = Some s" and "wf_cache (w_cache w)"
    and "HostResolver_GetAddressesForHost (ce_lookup env) (s_host s) (s_port s) False (w_cache w) =
      Inr (x # xs, cached, cache)"
    and "ce_socket env \<noteq> - 1" and "ce_pton env (hi_address x)"
    and "asyncConnector env i w = Inr w'"
  shows "if s_host s = ''0.0.0.0'' then w_io w' = w_io w
    else Connect (ce_socket env) (hi_address x) (s_port s) \<in> set (w_io w')"
proof -
  have f: "filter (\<lambda>x. hi_url x \<noteq> ''0.0.0.0'') (x # xs) = (if s_host s = ''0.0.0.0'' then [] else x # xs)"
    by (rule rs.skip_all_or_nothing [OF assms(2,3)])
  have x: "hi_url x = s_host s" "hi_ipVersion x = 4"
    using rs.resolve_answer [OF assms(2,3)] by auto
  obtain ok es where l: "connect_loop env (s_port s) (x # xs) = Inr (ok, es)"
    using assms by (auto simp: asyncConnector_eq Let_def bind_res_eq_Inr simp del: connect_loop.simps)
  have "(ok, es) = (False, [])" if "s_host s = ''0.0.0.0''"
    using l connect_loop_filter [of env "s_port s" "x # xs"] f that by simp
  moreover have "Connect (ce_socket env) (hi_address x) (s_port s) \<in> set es" if "s_host s \<noteq> ''0.0.0.0''"
    using l x assms(5) that by (auto simp: bind_res_eq_Inr split: if_splits)
  ultimately show ?thesis
    using assms(1,3,4,6) l
    by (auto simp: asyncConnector_eq Let_def sendErrorResponse_def sendResponse_def bind_res_eq_Inr
        simp del: connect_loop.simps split: if_splits)
qed

theorem sinkhole_address_tried_witness:
  "\<exists>w'. asyncConnector (example_env ''0.0.0.0'' 0) 0
      (example_world (Session_SetHost ''a.org'' (Session_new blank_session 7 0 40))) = Inr w' \<and>
    Connect 9 ''0.0.0.0'' (s_port blank_session) \<in> set (w_io w')"
proof -
  let ?s = "Session_SetHost ''a.org'' (Session_new blank_session 7 0 40)"
  let ?env = "example_env ''0.0.0.0'' 0" let ?w = "example_world ?s"
  have s: "SessionManager_GetSession (w_sessions ?w) 0 = Some ?s"
    by (rule example_session) (simp add: Session_SetHost_def Session_new_def)
  have r: "HostResolver_GetAddressesForHost (ce_lookup ?env) (s_host ?s) (s_port ?s) False (w_cache ?w) =
      Inr ([example_entry (s_host ?s) ''0.0.0.0''], False, [example_entry (s_host ?s) ''0.0.0.0''])"
    unfolding example_cache by (rule example_resolve)
  have e: "ce_socket ?env = 9" "ce_pton ?env a" "ce_connect ?env a p = 0" "s_host ?s = ''a.org''"
    "s_port ?s = s_port blank_session" for a p
    by (simp_all add: example_env_def Session_SetHost_def Session_new_def)
  obtain w' where w': "asyncConnector ?env 0 ?w = Inr w'"
    using s r e by (simp add: asyncConnector_eq Let_def)
  have "wf_cache (w_cache ?w)" by (simp add: example_cache wf_cache_def)
  from sinkhole_address_tried [OF s this r _ _ w'] e w' show ?thesis by auto
qed

end
