(* ===== verification/Gate.thy ===== *)
theory Gate
  imports Connector
begin

text \<open>
  What the main loop does with a report (\<open>HandleCommandSocketRead\<close> of \<open>SocketManager.cpp\<close>), up
  to the creation of the sockets: it refuses a failed detection, authenticates a successful one
  by the header of the request or by the address of the client, checks the time, and either
  refuses the client or asks for the connection.
\<close>

section \<open>Responses\<close>

definition resp_400 :: string where
  "resp_400 = ''HTTP/1.0 400 Client Error'' @ [LF] @ ''Connection: close'' @ [CR, LF, CR, LF]"

definition resp_403 :: string where
  "resp_403 = ''HTTP/1.0 403 Forbidden'' @ [LF] @ ''Connection: close'' @ [CR, LF, CR, LF]"

definition resp_404 :: string where
  "resp_404 = ''HTTP/1.0 404 Not Found'' @ [LF] @ ''Connection: close'' @ [CR, LF, CR, LF]"

definition resp_407 :: string where
  "resp_407 = ''HTTP/1.0 407 Proxy Authentication Required'' @ [CR, LF] @
     ''Server: nermal'' @ [CR, LF] @ ''Content-Type: text/html'' @ [CR, LF] @
     ''Proxy-Authenticate: Basic realm='' @ [CHR 0x22] @ ''Nermal'' @ [CHR 0x22] @ [CR, LF] @
     ''Connection: close'' @ [CR, LF, CR, LF]"

text \<open>Every refusal writes a response, closes the client's descriptor and ends the session.\<close>

definition end_session :: "u64 \<Rightarrow> int \<Rightarrow> world \<Rightarrow> world" where
  "end_session now i w =
     (let (sm, g) = SessionManager_EndSession (w_auth w) now i (w_sessions w) (w_stats w)
      in w\<lparr>w_sessions := sm, w_stats := g\<rparr>)"

definition refuse :: "u64 \<Rightarrow> int \<Rightarrow> session \<Rightarrow> string \<Rightarrow> world \<Rightarrow> world" where
  "refuse now i session response w =
     end_session now i (emit [Send (Session_GetClientFd session) response, Close (Session_GetClientFd session)] w)"

section \<open>Authentication of a request\<close>

definition auth_header :: string where
  "auth_header = ''Proxy-Authorization: Basic ''"

text \<open>White space in a format matches any white space.\<close>

definition lit :: "string \<Rightarrow> directive list" where
  "lit s = map (\<lambda>c. if isspace c then DWs else DLit c) s"

definition fmt_auth :: "directive list" where
  "fmt_auth = lit auth_header @ [DStr (Some 1024)]"

definition set_user_name :: "int \<Rightarrow> string \<Rightarrow> world \<Rightarrow> world" where
  "set_user_name i name w = w\<lparr>w_sessions := upd_session i (Session_SetUserName name) (w_sessions w)\<rparr>"

text \<open>
  Both ways of authentication give the new state and the response that refuses the client, or
  \<^term>\<open>None\<close> when it may connect. \<open>lt\<close> is the local time.
\<close>

definition authenticate_header ::
  "(int \<times> int \<times> int) option \<Rightarrow> int \<Rightarrow> string \<Rightarrow> world \<Rightarrow> (world \<times> string option) res" where
  "authenticate_header lt i authString w =
     (let (rc, vs) = sscanf authString fmt_auth in
      bind_res (store_str 1024 (str_arg vs 0 [])) (\<lambda>rawCreds.
      bind_res
        (if rc = 1
         then bind_res (AuthManager_Authenticate (w_auth w) rawCreds [])
           (\<lambda>(canConnect, userName).
              Inr (canConnect, userName, if canConnect then set_user_name i userName w else w))
         else Inr (False, [], w))
        (\<lambda>(canConnect, userName, w).
           bind_res
             (if canConnect then AuthManager_AccessAllowedAtTime lt (w_auth w) userName
              else Inr False)
             (\<lambda>canConnect. Inr (w, if \<not> canConnect then Some resp_403 else None)))))"

definition authenticate_address ::
  "(int \<times> int \<times> int) option \<Rightarrow> int \<Rightarrow> session \<Rightarrow> world \<Rightarrow> (world \<times> string option) res" where
  "authenticate_address lt i session w =
     (let (ok, username) = AuthManager_AuthenticateIp (w_auth w) (Session_GetClientAddress session) [] in
      if ok
      then bind_res (AuthManager_AccessAllowedAtTime lt (w_auth w) username)
        (\<lambda>allowed. if allowed then Inr (set_user_name i username w, None) else Inr (w, Some resp_403))
      else Inr (w, Some resp_407))"

text \<open>What the handler reads from outside.\<close>

record command_env =
  ke_localtime :: "(int \<times> int \<times> int) option"
  ke_now :: u64
  ke_wrote :: bool

definition HandleDetectResult :: "command_env \<Rightarrow> bytes \<Rightarrow> world \<Rightarrow> world res" where
  "HandleDetectResult env msg w =
     (let i = detect_sessionId msg in
      case SessionManager_GetSession (w_sessions w) i of
        None \<Rightarrow> Inl NullDeref
      | Some session \<Rightarrow>
          if \<not> detect_success msg
          then Inr (refuse (ke_now env) i session resp_400 w)
          else if AuthManager_IsEnabled (w_auth w)
          then bind_res
            (case strstr (cstr (Session_GetRequest session)) auth_header of
               Some authString \<Rightarrow> authenticate_header (ke_localtime env) i authString w
             | None \<Rightarrow> authenticate_address (ke_localtime env) i session w)
            (\<lambda>(w, refusal).
               case refusal of
                 Some response \<Rightarrow> Inr (refuse (ke_now env) i session response w)
               | None \<Rightarrow> ProxyConnector_ConnectProxy (ke_wrote env) i w)
          else ProxyConnector_ConnectProxy (ke_wrote env) i w)"

section \<open>The header\<close>

lemma sscanf_auth:
  assumes "is_token t" and "length t \<le> 1024" and "rest = [] \<or> isspace (hd rest)" and "NUL \<notin> set rest"
  shows "sscanf (auth_header @ t @ rest) fmt_auth = (1, [SStr t])"
proof -
  have "NUL \<notin> set (auth_header @ t @ rest)"
    using assms(4) is_tokenD(2) [OF assms(1)] by (simp add: auth_header_def)
  moreover have "scan fmt_auth (auth_header @ t @ rest) [] = scan [DStr (Some 1024)] (t @ rest) []"
  proof -
    have f: "fmt_auth = map DLit ''Proxy-Authorization:'' @ DWs # map DLit ''Basic'' @ [DWs, DStr (Some 1024)]"
      by code_simp
    have h: "auth_header @ t @ rest = ''Proxy-Authorization:'' @ CHR '' '' # ''Basic'' @ CHR '' '' # t @ rest"
      by (simp add: auth_header_def)
    have sp: "isspace CHR '' ''" "\<not> isspace (CHR ''B'')" by (simp_all add: isspace_def)
    have "dropWhile isspace (CHR '' '' # ''Basic'' @ CHR '' '' # t @ rest) = ''Basic'' @ CHR '' '' # t @ rest"
      using sp by simp
    moreover have "dropWhile isspace (CHR '' '' # t @ rest) = t @ rest"
      using sp dropWhile_space_token [OF assms(1), of rest] by simp
    ultimately show ?thesis
      unfolding f h scan_lits by (simp only: scan.simps scan_lits)
  qed
  moreover have "scan [DStr (Some 1024)] (t @ rest) [] = (1, [SStr t])"
    using scan_token_width [OF assms(1,2,3), of "[]" "[]"] by simp
  ultimately show ?thesis by (simp add: sscanf_def cstr_id)
qed

lemma get_set_user_name:
  "SessionManager_GetSession (w_sessions (set_user_name i n w)) j =
     (if j = i then map_option (Session_SetUserName n) (SessionManager_GetSession (w_sessions w) i)
      else SessionManager_GetSession (w_sessions w) j)"
  by (simp add: set_user_name_def sess.get_upd Session_SetUserName_def)

lemma set_user_name_fields [simp]:
  "w_auth (set_user_name i n w) = w_auth w" "w_work (set_user_name i n w) = w_work w"
  "w_policies (set_user_name i n w) = w_policies w"
  "w_blacklists (set_user_name i n w) = w_blacklists w"
  by (simp_all add: set_user_name_def)

lemma refuse_work [simp]: "w_work (refuse now i s r w) = w_work w"
  by (simp add: refuse_def end_session_def split: prod.split)

section \<open>Who gets through\<close>

lemma connect_proxy_eq:
  assumes "SessionManager_GetSession (w_sessions w) i = Some s"
  shows "ProxyConnector_ConnectProxy wrote i w = Inr
    (if policy_allows (w_policies w) (w_blacklists w) (s_userName s) (s_host s)
     then ThreadPool_Dispatch \<lparr>wp_handler = Some asyncConnector_fn, wp_context = i\<rparr> w
     else sendErrorResponse wrote i w)"
  using assms by (simp add: ProxyConnector_ConnectProxy_def isAllowed_policy)

lemma access_registered:
  "AuthManager_AccessAllowedAtTime lt am n = Inr True \<Longrightarrow> n \<in> u_name ` set (am_users am)"
  using access_unregistered [of n "am_users am" lt] by (auto simp: AuthManager_AccessAllowedAtTime_def)

definition has_credentials :: "auth_manager \<Rightarrow> string \<Rightarrow> string \<Rightarrow> bool" where
  "has_credentials am request n \<longleftrightarrow>
     (\<exists>creds buf sz p. Base64Decode creds = Inr (Some (buf, sz)) \<and>
        scan_credentials buf = Inr (n, p) \<and> registered am n p \<and>
        (\<exists>a k. strstr request auth_header = Some a \<and> sscanf a fmt_auth = (k, [SStr creds])))"

definition has_address :: "auth_manager \<Rightarrow> string \<Rightarrow> string \<Rightarrow> bool" where
  "has_address am ip n \<longleftrightarrow> (\<exists>u\<in>set (am_users am). u_name u = n \<and> ip \<in> set (u_ipList u))"

lemma sscanf_auth_result:
  assumes "sscanf a fmt_auth = (1, vs)"
  shows "\<exists>t. vs = [SStr t]"
proof -
  have f: "fmt_auth = map DLit ''Proxy-Authorization:'' @ DWs # map DLit ''Basic'' @ [DWs, DStr (Some 1024)]"
    by code_simp
  have lits: "(\<exists>r. scan (map DLit l @ ds) s [] = scan ds r []) \<or> fst (scan (map DLit l @ ds) s []) \<noteq> 1" for l ds s
    by (induction l arbitrary: s) (auto simp: input_failure_def matching_failure_def split: list.splits)
  have one: "\<exists>t. vs = [SStr t]" if "scan [DWs, DStr (Some 1024)] s [] = (1, vs)" for s
    using that by (auto simp: Let_def input_failure_def split: if_splits)
  have "scan fmt_auth (cstr a) [] = (1, vs)" using assms by (simp add: sscanf_def)
  then obtain r where "scan (DWs # map DLit ''Basic'' @ [DWs, DStr (Some 1024)]) r [] = (1, vs)"
    using lits [of "''Proxy-Authorization:''" "DWs # map DLit ''Basic'' @ [DWs, DStr (Some 1024)]" "cstr a"]
    unfolding f by (auto simp del: scan.simps list.map)
  then have "scan (map DLit ''Basic'' @ [DWs, DStr (Some 1024)]) (dropWhile isspace r) [] = (1, vs)"
    by (simp only: scan.simps)
  then obtain r' where "scan [DWs, DStr (Some 1024)] r' [] = (1, vs)"
    using lits [of "''Basic''" "[DWs, DStr (Some 1024)]" "dropWhile isspace r"]
    by (auto simp del: scan.simps list.map)
  then show ?thesis by (rule one)
qed

text \<open>The decision as nested cases.\<close>

lemma authenticate_header_eq:
  assumes "sscanf a fmt_auth = (rc, vs)"
  shows "authenticate_header lt i a w =
    (if \<not> length (str_arg vs 0 []) < 1024 then Inl BufferOverflow
     else if rc \<noteq> 1 then Inr (w, Some resp_403)
     else case AuthManager_Authenticate (w_auth w) (str_arg vs 0 []) [] of
            Inl e \<Rightarrow> Inl e
          | Inr (ok, n) \<Rightarrow>
              if \<not> ok then Inr (w, Some resp_403)
              else case AuthManager_AccessAllowedAtTime lt (w_auth w) n of
                     Inl e \<Rightarrow> Inl e
                   | Inr b \<Rightarrow> Inr (set_user_name i n w, if b then None else Some resp_403))"
proof (cases "AuthManager_Authenticate (w_auth w) (str_arg vs 0 []) []")
  case (Inr r)
  obtain ok n where r: "r = (ok, n)" by (cases r)
  show ?thesis
    by (cases "AuthManager_AccessAllowedAtTime lt (w_auth w) n")
       (simp_all add: authenticate_header_def assms store_str_def Inr r)
qed (simp add: authenticate_header_def assms store_str_def)

lemma header_work: "authenticate_header lt i a w = Inr (w', r) \<Longrightarrow> w_work w' = w_work w"
  by (cases "sscanf a fmt_auth")
     (auto simp: authenticate_header_eq split: if_splits sum.splits prod.splits)

lemma address_work: "authenticate_address lt i s w = Inr (w', r) \<Longrightarrow> w_work w' = w_work w"
  by (auto simp: authenticate_address_def Let_def bind_res_eq_Inr split: if_splits prod.splits)

lemma header_admits:
  assumes "authenticate_header lt i a w = Inr (w', None)" and "[] \<notin> u_name ` set (am_users (w_auth w))"
    and "strstr request auth_header = Some a"
  shows "\<exists>n. w' = set_user_name i n w \<and> AuthManager_AccessAllowedAtTime lt (w_auth w) n = Inr True \<and>
    has_credentials (w_auth w) request n"
proof -
  obtain rc vs where v: "sscanf a fmt_auth = (rc, vs)" by (cases "sscanf a fmt_auth")
  obtain n where n: "rc = 1" "AuthManager_Authenticate (w_auth w) (str_arg vs 0 []) [] = Inr (True, n)"
    "w' = set_user_name i n w" "AuthManager_AccessAllowedAtTime lt (w_auth w) n = Inr True"
    using assms(1) unfolding authenticate_header_eq [OF v]
    by (auto split: if_splits sum.splits prod.splits)
  from access_registered [OF n(4)] assms(2) have "n \<noteq> []" by metis
  from Authenticate_named [OF n(2) this] obtain buf sz p where
    "Base64Decode (str_arg vs 0 []) = Inr (Some (buf, sz))" "scan_credentials buf = Inr (n, p)"
    "registered (w_auth w) n p" by blast
  moreover obtain t where "vs = [SStr t]" using sscanf_auth_result v n(1) by blast
  ultimately show ?thesis
    using n(3,4) v assms(3) unfolding has_credentials_def by (auto simp: str_arg_def)
qed

lemma address_admits:
  assumes "authenticate_address lt i s w = Inr (w', None)"
  shows "\<exists>n. w' = set_user_name i n w \<and> AuthManager_AccessAllowedAtTime lt (w_auth w) n = Inr True \<and>
    has_address (w_auth w) (s_clientIp s) n"
  using assms
  by (auto simp: authenticate_address_def AuthManager_AuthenticateIp_def authenticate_ip_loop_first
      bind_res_eq_Inr has_address_def dest: find_first_Some split: option.splits if_splits)

lemma gate_dispatch:
  assumes "AuthManager_IsEnabled (w_auth w)" and "[] \<notin> u_name ` set (am_users (w_auth w))"
    and "SessionManager_GetSession (w_sessions w) (detect_sessionId msg) = Some s"
    and "HandleDetectResult env msg w = Inr w'" and "w_work w' \<noteq> w_work w"
  shows "\<exists>n. n \<in> u_name ` set (am_users (w_auth w)) \<and>
    SessionManager_GetSession (w_sessions w') (detect_sessionId msg) = Some (s\<lparr>s_userName := n\<rparr>) \<and>
    AuthManager_AccessAllowedAtTime (ke_localtime env) (w_auth w) n = Inr True \<and>
    policy_allows (w_policies w) (w_blacklists w) n (s_host s) \<and>
    (has_credentials (w_auth w) (cstr (s_request s)) n \<or>
     strstr (cstr (s_request s)) auth_header = None \<and> has_address (w_auth w) (s_clientIp s) n) \<and>
    w_work w' = w_work w @ [\<lparr>wp_handler = Some asyncConnector_fn, wp_context = detect_sessionId msg\<rparr>]"
proof -
  let ?i = "detect_sessionId msg"
  let ?lt = "ke_localtime env"
  obtain w1 refusal where a: "(case strstr (cstr (s_request s)) auth_header of
      Some authString \<Rightarrow> authenticate_header ?lt ?i authString w
    | None \<Rightarrow> authenticate_address ?lt ?i s w) = Inr (w1, refusal)"
    and r: "(case refusal of Some response \<Rightarrow> Inr (refuse (ke_now env) ?i s response w1)
      | None \<Rightarrow> ProxyConnector_ConnectProxy (ke_wrote env) ?i w1) = Inr w'"
    using assms by (auto simp: HandleDetectResult_def Let_def bind_res_eq_Inr split: if_splits)
  have "w_work w1 = w_work w"
    using a header_work address_work by (cases "strstr (cstr (s_request s)) auth_header") auto
  with r assms(5) have none: "refusal = None" by (auto split: option.splits)
  obtain n where n: "w1 = set_user_name ?i n w" "AuthManager_AccessAllowedAtTime ?lt (w_auth w) n = Inr True"
    and how: "has_credentials (w_auth w) (cstr (s_request s)) n \<or>
     strstr (cstr (s_request s)) auth_header = None \<and> has_address (w_auth w) (s_clientIp s) n"
  proof (cases "strstr (cstr (s_request s)) auth_header")
    case None
    with a none have "authenticate_address ?lt ?i s w = Inr (w1, None)" by simp
    from address_admits [OF this] None that show ?thesis by blast
  next
    case (Some authString)
    with a none have "authenticate_header ?lt ?i authString w = Inr (w1, None)" by simp
    from header_admits [OF this assms(2) Some] that show ?thesis by blast
  qed
  have s1: "SessionManager_GetSession (w_sessions w1) ?i = Some (s\<lparr>s_userName := n\<rparr>)"
    using assms(3) by (simp add: n(1) get_set_user_name Session_SetUserName_def)
  from r none connect_proxy_eq [OF s1]
  have w': "w' = (if policy_allows (w_policies w1) (w_blacklists w1) n (s_host s)
     then ThreadPool_Dispatch \<lparr>wp_handler = Some asyncConnector_fn, wp_context = ?i\<rparr> w1
     else sendErrorResponse (ke_wrote env) ?i w1)" by simp
  with assms(5) have "policy_allows (w_policies w) (w_blacklists w) n (s_host s)"
    by (auto simp: n(1) sendErrorResponse_def sendResponse_def split: if_splits)
  with w' n how s1 access_registered [OF n(2)] show ?thesis
    by (auto simp: ThreadPool_Dispatch_def work_push_def)
qed

text \<open>
  C7: The gate. When authentication is on and no user has the empty name, a report makes the
  main loop dispatch a connector only for a registered user who may be online at this time,
  who is named in the session, whose policies allow the host, and who was authenticated by
  registered credentials in the request or, in a request without the header, by the address of
  the client.
\<close>

theorem gate_dispatch_authorised:
  assumes "AuthManager_IsEnabled (w_auth w)" and "[] \<notin> u_name ` set (am_users (w_auth w))"
    and "SessionManager_GetSession (w_sessions w) (detect_sessionId msg) = Some s"
    and "HandleDetectResult env msg w = Inr w'" and "w_work w' \<noteq> w_work w"
  shows "\<exists>n. n \<in> u_name ` set (am_users (w_auth w)) \<and>
    SessionManager_GetSession (w_sessions w') (detect_sessionId msg) = Some (s\<lparr>s_userName := n\<rparr>) \<and>
    AuthManager_AccessAllowedAtTime (ke_localtime env) (w_auth w) n = Inr True \<and>
    policy_allows (w_policies w) (w_blacklists w) n (s_host s) \<and>
    (has_credentials (w_auth w) (cstr (s_request s)) n \<or>
     strstr (cstr (s_request s)) auth_header = None \<and> has_address (w_auth w) (s_clientIp s) n) \<and>
    w_work w' = w_work w @ [\<lparr>wp_handler = Some asyncConnector_fn, wp_context = detect_sessionId msg\<rparr>]"
  using assms by (rule gate_dispatch)

section \<open>The whole decision\<close>

definition authenticated_name :: "auth_manager \<Rightarrow> string \<Rightarrow> string \<Rightarrow> string" where
  "authenticated_name am u p = (if registered am u p then u else [])"

lemma HandleDetect_encoded:
  assumes "AuthManager_IsEnabled (w_auth w)" and "detect_success msg"
    and "SessionManager_GetSession (w_sessions w) (detect_sessionId msg) = Some s"
    and "strstr (cstr (s_request s)) auth_header =
      Some (auth_header @ b64_encode (u @ CHR '':'' # p) @ rest)"
    and "rest = [] \<or> isspace (hd rest)" and "NUL \<notin> set rest" and "valid_credentials u p"
  shows "HandleDetectResult env msg w =
    (let i = detect_sessionId msg; n = authenticated_name (w_auth w) u p; w1 = set_user_name i n w in
     case AuthManager_AccessAllowedAtTime (ke_localtime env) (w_auth w) n of
       Inl e \<Rightarrow> Inl e
     | Inr b \<Rightarrow> Inr
         (if \<not> b then refuse (ke_now env) i s resp_403 w1
          else if policy_allows (w_policies w) (w_blacklists w) n (s_host s)
          then ThreadPool_Dispatch \<lparr>wp_handler = Some asyncConnector_fn, wp_context = i\<rparr> w1
          else sendErrorResponse (ke_wrote env) i w1))"
proof -
  let ?creds = "b64_encode (u @ CHR '':'' # p)"
  let ?i = "detect_sessionId msg" let ?n = "authenticated_name (w_auth w) u p"
  have "length (u @ CHR '':'' # p) + 2 < 256 * 3" using assms(7) by (simp add: valid_credentials_def)
  then have "(length (u @ CHR '':'' # p) + 2) div 3 < 256" by (rule less_mult_imp_div_less)
  then have len: "length ?creds < 1024" by (simp only: length_b64_encode)
  have sc: "sscanf (auth_header @ ?creds @ rest) fmt_auth = (1, [SStr ?creds])"
    by (rule sscanf_auth [OF is_token_b64_encode]) (use len assms(5,6) in auto)
  have au: "AuthManager_Authenticate (w_auth w) ?creds [] = Inr (True, ?n)"
    using Authenticate_encoded [OF assms(7), of "w_auth w" "[]"] by (simp add: authenticated_name_def)
  have s1: "SessionManager_GetSession (w_sessions (set_user_name ?i ?n w)) ?i = Some (s\<lparr>s_userName := ?n\<rparr>)"
    using assms(3) by (simp add: get_set_user_name Session_SetUserName_def)
  show ?thesis
    using assms(1-4) len au connect_proxy_eq [OF s1]
    by (cases "AuthManager_AccessAllowedAtTime (ke_localtime env) (w_auth w) ?n")
       (auto simp: HandleDetectResult_def Let_def authenticate_header_eq [OF sc] str_arg_def)
qed

text \<open>
  C8: A request with credentials of the usual form, encoded as clients do. The session gets the
  user's name when the pair is registered and the empty name otherwise; the schedule of that
  name, then its policies, decide between a connection, a failure report and \<open>403\<close>.
\<close>

theorem gate_decision:
  assumes "AuthManager_IsEnabled (w_auth w)" and "detect_success msg"
    and "SessionManager_GetSession (w_sessions w) (detect_sessionId msg) = Some s"
    and "strstr (cstr (s_request s)) auth_header =
      Some (auth_header @ b64_encode (u @ CHR '':'' # p) @ rest)"
    and "rest = [] \<or> isspace (hd rest)" and "NUL \<notin> set rest" and "valid_credentials u p"
  shows "HandleDetectResult env msg w =
    (let i = detect_sessionId msg; n = authenticated_name (w_auth w) u p; w1 = set_user_name i n w in
     case AuthManager_AccessAllowedAtTime (ke_localtime env) (w_auth w) n of
       Inl e \<Rightarrow> Inl e
     | Inr b \<Rightarrow> Inr
         (if \<not> b then refuse (ke_now env) i s resp_403 w1
          else if policy_allows (w_policies w) (w_blacklists w) n (s_host s)
          then ThreadPool_Dispatch \<lparr>wp_handler = Some asyncConnector_fn, wp_context = i\<rparr> w1
          else sendErrorResponse (ke_wrote env) i w1))"
  using assms by (rule HandleDetect_encoded)

text \<open>An example: one user, authentication on, a request for an allowed host.\<close>

definition gate_auth :: auth_manager where
  "gate_auth = AuthManager_SetEnabled True (AuthManager_AddUser ''kid'' ''pw'' AuthManager_new)"

definition gate_session :: "string \<Rightarrow> session \<Rightarrow> session" where
  "gate_session creds junk = Session_SetRequest (auth_header @ creds @ [CR, LF])
     (Session_SetHost ''a.org'' (Session_new junk 7 0 40))"

definition gate_world :: "string \<Rightarrow> session \<Rightarrow> world" where
  "gate_world creds junk = (example_world (gate_session creds junk))\<lparr>w_auth := gate_auth\<rparr>"

definition gate_env :: command_env where
  "gate_env = \<lparr>ke_localtime = Some (1, 12, 0), ke_now = 50, ke_wrote = True\<rparr>"

lemma gate_world_fields:
  "w_auth (gate_world creds junk) = gate_auth"
  "w_work (gate_world creds junk) = []"
  "w_policies (gate_world creds junk) = [\<lparr>up_name = ''<global>'', up_domains = [''ads'']\<rparr>]"
  "w_blacklists (gate_world creds junk) = [\<lparr>bl_name = ''ads'', bl_hosts = {''ads.example''}\<rparr>]"
  "SessionManager_GetSession (w_sessions (gate_world creds junk)) 0 = Some (gate_session creds junk)"
  "s_host (gate_session creds junk) = ''a.org''"
  by (simp_all add: gate_world_def example_world_def world_start_def gate_session_def session_ops
      Session_new_def SessionManager_GetSession_def)

lemma gate_message: "detect_sessionId (detect_message 0 True) = 0" "detect_success (detect_message 0 True)"
  using detect_message_fields [of 0 True] by (simp_all add: int32_def)

lemma gate_request:
  "is_token creds \<Longrightarrow>
   strstr (cstr (s_request (gate_session creds junk))) auth_header = Some (auth_header @ creds @ [CR, LF])"
  using is_tokenD(2) [of creds] by (simp add: gate_session_def session_ops auth_header_def cstr_id)

lemma gate_access:
  "AuthManager_IsEnabled gate_auth"
  "AuthManager_AccessAllowedAtTime (ke_localtime gate_env) gate_auth ''kid'' = Inr True"
  "AuthManager_AccessAllowedAtTime (ke_localtime gate_env) gate_auth [] = Inr False"
  by code_simp+

lemma gate_policy:
  "policy_allows [\<lparr>up_name = ''<global>'', up_domains = [''ads'']\<rparr>]
     [\<lparr>bl_name = ''ads'', bl_hosts = {''ads.example''}\<rparr>] n ''a.org''"
  by (simp add: policy_allows_def domains_of_def blocked_by_def)

lemma gate_registered: "registered gate_auth u p \<longleftrightarrow> u = ''kid'' \<and> p = ''pw''"
  by (auto simp: registered_def gate_auth_def AuthManager_SetEnabled_def AuthManager_AddUser_def
      AuthManager_new_def User_new_def)

theorem gate_decision_witness:
  "map_sum id w_work (HandleDetectResult gate_env (detect_message 0 True)
     (gate_world (b64_encode ''kid:pw'') blank_session)) =
     Inr [\<lparr>wp_handler = Some asyncConnector_fn, wp_context = 0\<rparr>] \<and>
   map_sum id w_work (HandleDetectResult gate_env (detect_message 0 True)
     (gate_world (b64_encode ''kid:xx'') blank_session)) = Inr []"
proof -
  have v: "valid_credentials ''kid'' ''pw''" "valid_credentials ''kid'' ''xx''"
    by (simp_all add: valid_credentials_def is_token_def isspace_def)
  have r: "isspace (hd [CR, LF])" "NUL \<notin> set [CR, LF]" by (simp_all add: isspace_def)
  note d = gate_decision [where s = "gate_session c blank_session" and w = "gate_world c blank_session" and u = "''kid''"
      and msg = "detect_message 0 True" and rest = "[CR, LF]" and env = gate_env for c]
  have q: "strstr (cstr (s_request (gate_session (b64_encode (''kid'' @ CHR '':'' # p)) blank_session))) auth_header =
      Some (auth_header @ b64_encode (''kid'' @ CHR '':'' # p) @ [CR, LF])" for p
    by (rule gate_request [OF is_token_b64_encode]) simp
  from d [OF _ _ _ q _ _ v(1)] d [OF _ _ _ q _ _ v(2)] r show ?thesis
    by (simp add: gate_world_fields gate_message gate_access gate_policy authenticated_name_def
        gate_registered ThreadPool_Dispatch_def work_push_def)
qed

theorem gate_dispatch_authorised_witness:
  "\<exists>w' n. HandleDetectResult gate_env (detect_message 0 True)
      (gate_world (b64_encode ''kid:pw'') blank_session) = Inr w' \<and> n \<in> u_name ` set (am_users gate_auth) \<and>
    SessionManager_GetSession (w_sessions w') 0 =
      Some ((gate_session (b64_encode ''kid:pw'') blank_session)\<lparr>s_userName := n\<rparr>)"
proof -
  let ?w = "gate_world (b64_encode ''kid:pw'') blank_session"
  have v: "valid_credentials ''kid'' ''pw''"
    by (simp add: valid_credentials_def is_token_def isspace_def)
  have q: "strstr (cstr (s_request (gate_session (b64_encode (''kid'' @ CHR '':'' # ''pw'')) blank_session))) auth_header =
      Some (auth_header @ b64_encode (''kid'' @ CHR '':'' # ''pw'') @ [CR, LF])"
    by (rule gate_request [OF is_token_b64_encode]) simp
  obtain w' where w': "HandleDetectResult gate_env (detect_message 0 True) ?w = Inr w'"
    "w_work w' = [\<lparr>wp_handler = Some asyncConnector_fn, wp_context = 0\<rparr>]"
    using HandleDetect_encoded [OF _ _ _ q _ _ v, of ?w "detect_message 0 True" gate_env]
    by (simp add: gate_world_fields gate_message gate_access gate_policy authenticated_name_def
        gate_registered ThreadPool_Dispatch_def work_push_def isspace_def)
  have "[] \<notin> u_name ` set (am_users (w_auth ?w))"
    by (simp add: gate_world_fields gate_auth_def AuthManager_SetEnabled_def AuthManager_AddUser_def
        AuthManager_new_def User_new_def)
  from gate_dispatch_authorised [OF _ this _ w'(1)] w' show ?thesis
    by (auto simp: gate_world_fields gate_message gate_access)
qed

section \<open>Refusals and overflows\<close>

lemma refuse_effects:
  assumes "wf_sessions (w_sessions w)"
  shows "w_io (refuse now i s r w) = w_io w @ [Send (s_clientFd s) r, Close (s_clientFd s)]"
    and "SessionManager_GetSession (w_sessions (refuse now i s r w)) j =
      (if j = i then None else SessionManager_GetSession (w_sessions w) j)"
    and "wf_sessions (w_sessions (refuse now i s r w))"
proof -
  obtain sm g where e: "SessionManager_EndSession (w_auth w) now i (w_sessions w) (w_stats w) = (sm, g)"
    by fastforce
  from GetSession_EndSession [OF assms, of "w_auth w" now i "w_stats w" j]
    wf_EndSession [OF assms, of "w_auth w" now i "w_stats w"] e
  show "w_io (refuse now i s r w) = w_io w @ [Send (s_clientFd s) r, Close (s_clientFd s)]"
    and "SessionManager_GetSession (w_sessions (refuse now i s r w)) j =
      (if j = i then None else SessionManager_GetSession (w_sessions w) j)"
    and "wf_sessions (w_sessions (refuse now i s r w))"
    by (simp_all add: refuse_def end_session_def)
qed

text \<open>
  C33: A report of a failed detection is answered with \<open>400\<close>; with authentication on, a request
  without credentials from an address that no user has is answered with \<open>407\<close>. Either way the
  client's descriptor is closed behind the response, exactly this session ends, and nothing is
  dispatched.
\<close>

theorem gate_refusals:
  assumes "SessionManager_GetSession (w_sessions w) (detect_sessionId msg) = Some s"
    and "wf_sessions (w_sessions w)"
    and "detect_success msg \<Longrightarrow> AuthManager_IsEnabled (w_auth w) \<and>
      strstr (cstr (s_request s)) auth_header = None \<and>
      s_clientIp s \<notin> \<Union> (set ` u_ipList ` set (am_users (w_auth w)))"
  shows "\<exists>w'. HandleDetectResult env msg w = Inr w' \<and>
    w_io w' = w_io w @ [Send (s_clientFd s) (if detect_success msg then resp_407 else resp_400),
      Close (s_clientFd s)] \<and>
    SessionManager_GetSession (w_sessions w') j =
      (if j = detect_sessionId msg then None else SessionManager_GetSession (w_sessions w) j) \<and>
    w_work w' = w_work w"
proof (cases "detect_success msg")
  case False
  with assms(1) refuse_effects [OF assms(2)] show ?thesis
    by (simp add: HandleDetectResult_def Let_def)
next
  case True
  from assms(3) [OF True] have "find_first (\<lambda>u. s_clientIp s \<in> set (u_ipList u)) (am_users (w_auth w)) = None"
    by (auto simp: find_first_None)
  then have "authenticate_address (ke_localtime env) (detect_sessionId msg) s w = Inr (w, Some resp_407)"
    by (simp add: authenticate_address_def AuthManager_AuthenticateIp_def authenticate_ip_loop_first)
  with True assms(1) assms(3) [OF True] refuse_effects [OF assms(2)] show ?thesis
    by (simp add: HandleDetectResult_def Let_def)
qed

theorem gate_refusals_witness:
  "\<exists>w'. HandleDetectResult gate_env (detect_message 0 False) (gate_world [] blank_session) = Inr w' \<and>
    w_io w' = [Send 7 resp_400, Close 7] \<and> SessionManager_GetSession (w_sessions w') 0 = None"
proof -
  have m: "detect_sessionId (detect_message 0 False) = 0" "\<not> detect_success (detect_message 0 False)"
    using detect_message_fields [of 0 False] by (simp_all add: int32_def)
  have wf: "wf_sessions (w_sessions (gate_world [] blank_session))"
    by (simp add: gate_world_def example_world_def gate_session_def session_ops Session_new_def wf_sessions_def)
  have s: "SessionManager_GetSession (w_sessions (gate_world [] blank_session)) (detect_sessionId (detect_message 0 False)) =
      Some (gate_session [] blank_session)"
    by (simp add: m gate_world_fields)
  have fd: "s_clientFd (gate_session [] blank_session) = 7" "w_io (gate_world [] blank_session) = []"
    by (simp_all add: gate_session_def session_ops Session_new_def gate_world_def example_world_def world_start_def)
  from gate_refusals [OF s wf, of gate_env 0] m fd show ?thesis by auto
qed

text \<open>
  A header whose credentials have 1024 bytes or more overflows the array \<open>rawCreds\<close>.
\<close>

theorem gate_header_overflow:
  assumes "AuthManager_IsEnabled (w_auth w)" and "detect_success msg"
    and "SessionManager_GetSession (w_sessions w) (detect_sessionId msg) = Some s"
    and "strstr (cstr (s_request s)) auth_header = Some (auth_header @ t)"
    and "is_token t" and "1024 \<le> length t"
  shows "HandleDetectResult env msg w = Inl BufferOverflow"
proof -
  have h: "is_token (take 1024 t)" and l: "length (take 1024 t) = 1024"
    using assms(5,6) by (auto simp: is_token_def dest: in_set_takeD)
  have nul: "NUL \<notin> set (auth_header @ t)" using is_tokenD(2) [OF assms(5)] by (simp add: auth_header_def)
  have tw: "takeWhile (\<lambda>c. \<not> isspace c) t = t" and dw: "dropWhile isspace t = t"
    using takeWhile_token [OF assms(5), of "[]"] dropWhile_space_token [OF assms(5), of "[]"] by simp_all
  have f: "fmt_auth = map DLit ''Proxy-Authorization:'' @ DWs # map DLit ''Basic'' @ [DWs, DStr (Some 1024)]"
    by code_simp
  have e: "auth_header @ t = ''Proxy-Authorization:'' @ CHR '' '' # ''Basic'' @ CHR '' '' # t"
    by (simp add: auth_header_def)
  have sp: "isspace CHR '' ''" "\<not> isspace (CHR ''B'')" by (simp_all add: isspace_def)
  have "dropWhile isspace (CHR '' '' # ''Basic'' @ CHR '' '' # t) = ''Basic'' @ CHR '' '' # t"
    using sp by simp
  moreover have "dropWhile isspace (CHR '' '' # t) = t" using sp dw by simp
  ultimately have "scan fmt_auth (auth_header @ t) [] = scan [DStr (Some 1024)] t []"
    unfolding f e scan_lits by (simp only: scan.simps scan_lits)
  also have "\<dots> = (1, [SStr (take 1024 t)])"
    using is_tokenD(1) [OF assms(5)] by (simp add: dw tw take_width_def)
  finally have "sscanf (auth_header @ t) fmt_auth = (1, [SStr (take 1024 t)])"
    by (simp add: sscanf_def cstr_id [OF nul])
  from authenticate_header_eq [OF this] l assms(1-4) show ?thesis
    by (simp add: HandleDetectResult_def Let_def str_arg_def)
qed

theorem gate_header_overflow_witness:
  "\<exists>w. HandleDetectResult gate_env (detect_message 0 True) w = Inl BufferOverflow"
proof -
  let ?t = "replicate 1024 (CHR ''A'')"
  define s where "s = (gate_session [] undefined)\<lparr>s_request := auth_header @ ?t\<rparr>"
  define w where "w = (gate_world [] undefined)\<lparr>w_sessions := \<lparr>sm_sessionId = 1, sm_list = [s]\<rparr>\<rparr>"
  have t: "is_token ?t" by (simp add: is_token_def isspace_def)
  have "SessionManager_GetSession (w_sessions w) (detect_sessionId (detect_message 0 True)) = Some s"
    by (simp add: w_def s_def gate_message SessionManager_GetSession_def gate_session_def session_ops Session_new_def)
  moreover have "strstr (cstr (s_request s)) auth_header = Some (auth_header @ ?t)"
    by (simp add: s_def auth_header_def cstr_id)
  moreover have "AuthManager_IsEnabled (w_auth w)" by (simp add: w_def gate_world_fields gate_access)
  ultimately show ?thesis
    using gate_header_overflow [of w "detect_message 0 True" s ?t gate_env] t gate_message by auto
qed

end
