(* ===== verification/SocketManager.thy ===== *)
theory SocketManager
  imports Gate "HOL-Library.Sublist"
begin

text \<open>
  The main loop: \<open>SocketManager.hpp\<close> and \<open>SocketManager.cpp\<close>. The manager owns the sockets, in
  order; the interest list of \<open>epoll\<close> is part of the state, and a closed descriptor leaves it. An
  element of the list that is erased runs its destructor. What the kernel answers is carried
  by the event.
\<close>

section \<open>The state\<close>

record manager =
  sk_isActive :: bool
  sk_epollFd :: int
  sk_sockets :: "socket list"
  sk_epoll :: "int set"
  sk_buf :: bytes            \<comment> \<open>the static buffer of \<open>HandleClientSocketRead\<close>\<close>
  sk_files :: files
  sk_world :: world

definition m_eventsToProcess :: nat where "m_eventsToProcess = 10"

definition SocketManager_new :: "files \<Rightarrow> world \<Rightarrow> manager" where
  "SocketManager_new fs w = \<lparr>sk_isActive = False, sk_epollFd = - 1, sk_sockets = [], sk_epoll = {},
     sk_buf = replicate 32768 0, sk_files = fs, sk_world = w\<rparr>"

abbreviation on_world :: "(world \<Rightarrow> world) \<Rightarrow> manager \<Rightarrow> manager" where
  "on_world f m \<equiv> m\<lparr>sk_world := f (sk_world m)\<rparr>"

definition fd_of :: "manager \<Rightarrow> socket \<Rightarrow> int" where
  "fd_of m s = GetFd (w_messenger (sk_world m)) s"

text \<open>The argument is what \<open>epoll_create1\<close> returns.\<close>

definition SocketManager_Initialize :: "int \<Rightarrow> manager \<Rightarrow> bool \<times> manager" where
  "SocketManager_Initialize epollFd m =
     (if sk_isActive m then (False, m)
      else if epollFd = - 1 then (False, m)
      else (True, m\<lparr>sk_epollFd := epollFd, sk_isActive := True\<rparr>))"

section \<open>Owning sockets\<close>

text \<open>The destructor of a socket.\<close>

definition destroy :: "socket \<Rightarrow> manager \<Rightarrow> manager" where
  "destroy s m =
     (case destructor_closes s of
        None \<Rightarrow> m
      | Some fd \<Rightarrow> on_world (emit [Close fd]) (m\<lparr>sk_epoll := sk_epoll m - {fd}\<rparr>))"

text \<open>
  \<open>EPOLL_CTL_ADD\<close> fails on a descriptor that is there already, and whenever \<open>room\<close> is false;
  the socket that was passed in is then destroyed.
\<close>

definition SocketManager_AddSocket :: "bool \<Rightarrow> socket \<Rightarrow> manager \<Rightarrow> bool \<times> manager" where
  "SocketManager_AddSocket room s m =
     (if \<not> room \<or> fd_of m s \<in> sk_epoll m then (False, destroy s m)
      else (True, m\<lparr>sk_epoll := insert (fd_of m s) (sk_epoll m), sk_sockets := sk_sockets m @ [s]\<rparr>))"

definition SocketManager_RemoveSocketFd :: "int \<Rightarrow> manager \<Rightarrow> bool \<times> manager" where
  "SocketManager_RemoveSocketFd fd m =
     (if fd \<notin> sk_epoll m then (False, m) else (True, m\<lparr>sk_epoll := sk_epoll m - {fd}\<rparr>))"

fun find_index :: "('a \<Rightarrow> bool) \<Rightarrow> 'a list \<Rightarrow> nat option" where
  "find_index P [] = None"
| "find_index P (x # xs) = (if P x then Some 0 else map_option Suc (find_index P xs))"

text \<open>\<open>m_sockets.remove\<close> of the element at a position.\<close>

definition remove_at :: "nat \<Rightarrow> manager \<Rightarrow> manager" where
  "remove_at k m =
     destroy (sk_sockets m ! k) (m\<lparr>sk_sockets := take k (sk_sockets m) @ drop (Suc k) (sk_sockets m)\<rparr>)"

text \<open>The loops that remove the first socket with a descriptor.\<close>

definition remove_peer :: "int \<Rightarrow> manager \<Rightarrow> manager" where
  "remove_peer fd m =
     (case find_index (\<lambda>s. fd_of m s = fd) (sk_sockets m) of
        None \<Rightarrow> m
      | Some k \<Rightarrow> remove_at k (snd (SocketManager_RemoveSocketFd fd m)))"

section \<open>Pruning\<close>

text \<open>
  The oldest client is removed, then its object is asked for the peer's descriptor: the object
  is freed by then, and \<open>freed\<close> is what the read gives. The loop goes on while there are more
  than 200 sockets, whether or not it finds a client.
\<close>

definition is_client :: "socket \<Rightarrow> bool" where
  "is_client s \<longleftrightarrow> Identity s = Client"

definition prune_one :: "(client_socket \<Rightarrow> int) \<Rightarrow> u64 \<Rightarrow> nat \<Rightarrow> client_socket \<Rightarrow> manager \<Rightarrow> manager" where
  "prune_one freed now k c m =
     on_world (end_session now (ClientSocket_GetSessionId c))
       (remove_peer (freed c)
         (remove_at k (snd (SocketManager_RemoveSocketFd (ClientSocket_GetFd c) m))))"

partial_function (option) prune_loop ::
  "(client_socket \<Rightarrow> int) \<Rightarrow> (nat \<Rightarrow> u64) \<Rightarrow> nat \<Rightarrow> manager \<Rightarrow> manager option" where
  "prune_loop freed now n m =
     (if 200 < length (sk_sockets m)
      then case find_index is_client (sk_sockets m) of
             Some k \<Rightarrow>
               (case sk_sockets m ! k of
                  ClientS c \<Rightarrow> prune_loop freed now (Suc n) (prune_one freed (now n) k c m)
                | _ \<Rightarrow> prune_loop freed now (Suc n) m)
           | None \<Rightarrow> prune_loop freed now (Suc n) m
      else Some m)"

definition SocketManager_PruneExcessConnections ::
  "(client_socket \<Rightarrow> int) \<Rightarrow> (nat \<Rightarrow> u64) \<Rightarrow> manager \<Rightarrow> manager res" where
  "SocketManager_PruneExcessConnections freed now m = loop_res (prune_loop freed now 0 m)"

section \<open>Events\<close>

record event =
  ev_fd :: int
  ev_accept :: "int \<times> string"
  ev_junk :: session
  ev_now :: u64
  ev_reads :: "nat \<Rightarrow> sys_read"
  ev_writes :: "nat \<Rightarrow> sys_write"
  ev_read_failed :: bool
  ev_command :: command_env
  ev_room_client :: bool
  ev_room_proxy :: bool

definition idle_options :: "int \<Rightarrow> io list" where
  "idle_options fd = [KeepAlive fd, IdleTime fd 10, KeepCount fd 5, KeepInterval fd 5]"

definition HandleServerSocketRead :: "event \<Rightarrow> server_socket \<Rightarrow> manager \<Rightarrow> (bool \<times> manager) res" where
  "HandleServerSocketRead e server m =
     (let (clientFd, clientIp, timeouts) = ServerSocket_Accept (ev_accept e) server [] in
      if clientFd < 0 then Inr (False, m)
      else
        let w = emit (idle_options clientFd) (emit timeouts (sk_world m))
        in bind_res (SessionManager_CreateSession (ev_junk e) (ev_now e) clientFd (w_sessions w))
             (\<lambda>(sm, session).
                case session of
                  None \<Rightarrow> Inl NullDeref
                | Some session \<Rightarrow>
                    let i = Session_GetSessionId session;
                        w = w\<lparr>w_sessions := upd_session i (Session_SetClientAddress clientIp) sm\<rparr>
                    in Inr (True, m\<lparr>sk_world := ProxyConnector_BeginProxyDetect i w\<rparr>)))"

definition HandleClientSocketRead :: "event \<Rightarrow> nat \<Rightarrow> client_socket \<Rightarrow> manager \<Rightarrow> (bool \<times> manager) res" where
  "HandleClientSocketRead e k c m =
     bind_res (loop_res (ClientSocket_Read (ev_reads e) False c (sk_buf m))) (\<lambda>(numRead, error, c, buf).
       let m = m\<lparr>sk_buf := buf, sk_sockets := (sk_sockets m)[k := ClientS c]\<rparr>;
           i = ClientSocket_GetSessionId c
       in if error
          then Inr (True, on_world (end_session (ev_now e) i)
            (remove_peer (ClientSocket_GetProxyFd c) (remove_peer (ClientSocket_GetFd c) m)))
          else bind_res (loop_res (ClientSocket_Write (ev_writes e) buf numRead c)) (\<lambda>r.
            bind_res r (\<lambda>(numWritten, error, c, got).
              let m = on_world (emit (if got = [] then [] else [Send (cs_peerFd c) (chars got)]))
                        (m\<lparr>sk_sockets := (sk_sockets m)[k := ClientS c]\<rparr>)
              in case SessionManager_GetSession (w_sessions (sk_world m)) i of
                   None \<Rightarrow> Inl NullDeref
                 | Some session \<Rightarrow>
                     Inr (True, on_world (\<lambda>w. w\<lparr>w_sessions := upd_session i
                       (if ClientSocket_IsClientToProxy c then Session_AddRxBytes numWritten
                        else Session_AddTxBytes numRead) (w_sessions w)\<rparr>) m))))"

text \<open>The report of a connector.\<close>

definition HandleConnectResult :: "event \<Rightarrow> bytes \<Rightarrow> manager \<Rightarrow> manager res" where
  "HandleConnectResult e msg m =
     (case SessionManager_GetSession (w_sessions (sk_world m)) (detect_sessionId msg) of
        None \<Rightarrow> Inl NullDeref
      | Some session \<Rightarrow>
          if \<not> connect_success msg
          then Inr (on_world (refuse (ev_now e) (Session_GetSessionId session) session resp_404) m)
          else
            let clientFd = Session_GetClientFd session;
                proxyFd = connect_proxyFd msg;
                i = connect_sessionId msg;
                m = snd (SocketManager_AddSocket (ev_room_client e)
                      (ClientS (ClientSocket_new clientFd proxyFd i True)) m)
            in Inr (snd (SocketManager_AddSocket (ev_room_proxy e)
                 (ClientS (ClientSocket_new proxyFd clientFd i False)) m)))"

text \<open>Reading an empty pipe would block the loop for good.\<close>

definition HandleCommandSocketRead :: "event \<Rightarrow> manager \<Rightarrow> (bool \<times> manager) res" where
  "HandleCommandSocketRead e m =
     bind_res (loop_res (AsyncMessenger_ReadMessage (ev_read_failed e) AsyncMessage_zero
         (w_messenger (sk_world m))))
       (\<lambda>(msg, am).
          let m = on_world (\<lambda>w. w\<lparr>w_messenger := am\<rparr>) m in
          case get_msgId msg of
            HOST_DETECT_RESULT \<Rightarrow>
              bind_res (HandleDetectResult (ev_command e) msg (sk_world m))
                (\<lambda>w. Inr (True, m\<lparr>sk_world := w\<rparr>))
          | HOST_CONNECT_RESULT \<Rightarrow> bind_res (HandleConnectResult e msg m) (\<lambda>m. Inr (True, m))
          | Other_message _ \<Rightarrow> Inr (True, m))"

section \<open>One turn of the loop\<close>

definition handle_socket :: "event \<Rightarrow> nat \<Rightarrow> manager \<Rightarrow> (bool \<times> manager) res" where
  "handle_socket e k m =
     (case sk_sockets m ! k of
        ServerS server \<Rightarrow> HandleServerSocketRead e server m
      | ClientS c \<Rightarrow> HandleClientSocketRead e k c m
      | CommandS \<Rightarrow> HandleCommandSocketRead e m)"

fun event_loop :: "event list \<Rightarrow> manager \<Rightarrow> (bool \<times> manager) res" where
  "event_loop [] m = Inr (True, m)"
| "event_loop (e # es) m =
     (case find_index (\<lambda>s. fd_of m s = ev_fd e) (sk_sockets m) of
        None \<Rightarrow> event_loop es m
      | Some k \<Rightarrow> bind_res (handle_socket e k m)
          (\<lambda>(go_on, m). if \<not> go_on then Inr (False, m) else event_loop es m))"

datatype wait_result = Wait_error errno | Ready "event list"

text \<open>What an idle turn reads from outside.\<close>

record idle_env =
  id_freed :: "client_socket \<Rightarrow> int"
  id_prune_now :: "nat \<Rightarrow> u64"
  id_ready_now :: u64
  id_log_now :: u64
  id_files :: file_env

definition SocketManager_ProcessSockets :: "idle_env \<Rightarrow> wait_result \<Rightarrow> manager \<Rightarrow> (bool \<times> manager) res" where
  "SocketManager_ProcessSockets env answer m =
     (if \<not> sk_isActive m then Inr (False, m)
      else case answer of
             Wait_error e \<Rightarrow> if e = EAGAIN \<or> e = EINTR then Inr (True, m) else Inr (False, m)
           | Ready events \<Rightarrow>
               if length events = 0
               then bind_res (SocketManager_PruneExcessConnections (id_freed env) (id_prune_now env) m)
                 (\<lambda>m. if GlobalStats_ReadyToLog (id_ready_now env) (w_stats (sk_world m))
                       then let (g, fs) = GlobalStats_LogAndReset (id_files env) (id_log_now env)
                                  (w_stats (sk_world m)) (sk_files m)
                            in Inr (True, on_world (\<lambda>w. w\<lparr>w_stats := g\<rparr>) (m\<lparr>sk_files := fs\<rparr>))
                       else Inr (True, m))
               else event_loop events m)"

section \<open>Relaying\<close>

lemma session_setters_id [simp]:
  "s_sessionId (Session_AddRxBytes n s) = s_sessionId s"
  "s_sessionId (Session_AddTxBytes n s) = s_sessionId s"
  by (simp_all add: session_ops)

text \<open>
  C12: Relaying. When a socket of a live session has data, all of it is delivered to the peer, in
  order and once, however the kernel cuts the writes; the bytes are counted as received for a
  client's socket and as sent for a server's, in exactly this session; no socket is opened,
  closed or deactivated.
\<close>

theorem relay_delivers:
  assumes "k < length (sk_sockets m)" and "sk_sockets m ! k = ClientS c" and "cs_isActive c"
    and "length (sk_buf m) = 32768" and "ev_reads e 0 = ReadBytes bs" and "bs \<noteq> []" and "length bs \<le> 32768"
    and "written os (length bs) = Some (length bs)" and "\<And>i. i < length os \<Longrightarrow> ev_writes e i = os ! i"
    and "SessionManager_GetSession (w_sessions (sk_world m)) (cs_sessionId c) = Some s"
  shows "\<exists>m'. HandleClientSocketRead e k c m = Inr (True, m') \<and>
    w_io (sk_world m') = w_io (sk_world m) @ [Send (cs_peerFd c) (chars bs)] \<and>
    sk_sockets m' = sk_sockets m \<and> sk_epoll m' = sk_epoll m \<and>
    SessionManager_GetSession (w_sessions (sk_world m')) j =
      (if j = cs_sessionId c
       then Some (if cs_isClientToProxy c then s\<lparr>s_rx := s_rx s + of_nat (length bs)\<rparr>
                  else s\<lparr>s_tx := s_tx s + of_nat (length bs)\<rparr>)
       else SessionManager_GetSession (w_sessions (sk_world m)) j)"
proof -
  let ?buf = "store 0 bs (sk_buf m)"
  have r: "ClientSocket_Read (ev_reads e) False c (sk_buf m) = Some (of_nat (length bs), False, c, ?buf)"
    using Read_cases [OF assms(3), of "ev_reads e" False "sk_buf m"] assms(5-7) by simp
  have "length bs \<le> length ?buf" using assms(4,7) by simp
  then have w: "ClientSocket_Write (ev_writes e) ?buf (of_nat (length bs)) c =
      Some (Inr (of_nat (length bs), False, c, bs))"
    using Write_complete [OF assms(3,8,9), of ?buf] assms(7) by (simp add: store_def)
  have same: "(sk_sockets m)[k := ClientS c] = sk_sockets m" using assms(2) by (metis list_update_id)
  show ?thesis
    using assms(6,10) r w
    by (simp add: HandleClientSocketRead_def Let_def same ClientSocket_GetSessionId_def
        ClientSocket_IsClientToProxy_def sess.get_upd)
       (simp add: session_ops)
qed

text \<open>The kernel takes data in two pieces, with an interruption between.\<close>

definition example_event :: event where
  "example_event = \<lparr>ev_fd = 7, ev_accept = (- 1, []), ev_junk = undefined, ev_now = 60,
     ev_reads = (\<lambda>_. ReadBytes [72, 105]), ev_writes = (\<lambda>i. [Wrote 1, WriteError EAGAIN, Wrote 1] ! i),
     ev_read_failed = False, ev_command = gate_env, ev_room_client = True, ev_room_proxy = True\<rparr>"

definition example_idle :: idle_env where
  "example_idle = \<lparr>id_freed = cs_peerFd, id_prune_now = (\<lambda>_. 60), id_ready_now = 60, id_log_now = 60,
     id_files = \<lparr>can_open = (\<lambda>_. True), stored = (\<lambda>_ n. Some 80)\<rparr>\<rparr>"

definition example_pair :: "socket list" where
  "example_pair = [CommandS, ClientS (ClientSocket_new 7 9 0 True), ClientS (ClientSocket_new 9 7 0 False)]"

definition example_manager :: "session \<Rightarrow> manager" where
  "example_manager junk = (SocketManager_new Map.empty (example_world (Session_new junk 7 0 40)))
     \<lparr>sk_isActive := True, sk_epollFd := 3, sk_sockets := example_pair, sk_epoll := {4, 7, 9}\<rparr>"

lemma example_manager_session:
  "SessionManager_GetSession (w_sessions (sk_world (example_manager junk))) 0 = Some (Session_new junk 7 0 40)"
  using example_session [of "Session_new junk 7 0 40"]
  by (simp add: example_manager_def SocketManager_new_def Session_new_def)

lemma example_manager_fields:
  "sk_sockets (example_manager junk) = example_pair" "length (sk_buf (example_manager junk)) = 32768"
  "w_io (sk_world (example_manager junk)) = []" "sk_isActive (example_manager junk)"
  "sk_epoll (example_manager junk) = {4, 7, 9}"
  "w_messenger (sk_world (example_manager junk)) = \<lparr>readPipe = 4, writePipe = 5, m_pipe = []\<rparr>"
  by (simp_all add: example_manager_def SocketManager_new_def example_world_def world_start_def)

lemma example_pair_nth:
  "length example_pair = 3"
  "example_pair ! 1 = ClientS (ClientSocket_new 7 9 0 True)"
  "example_pair ! Suc 0 = ClientS (ClientSocket_new 7 9 0 True)"
  "example_pair ! 2 = ClientS (ClientSocket_new 9 7 0 False)"
  by (simp_all add: example_pair_def)

lemma ClientSocket_new_fields [simp]:
  "cs_isActive (ClientSocket_new fd peer i b)" "cs_socketFd (ClientSocket_new fd peer i b) = fd"
  "cs_peerFd (ClientSocket_new fd peer i b) = peer" "cs_sessionId (ClientSocket_new fd peer i b) = i"
  "cs_isClientToProxy (ClientSocket_new fd peer i b) = b"
  by (simp_all add: ClientSocket_new_def)

theorem relay_delivers_witness:
  "\<exists>m'. HandleClientSocketRead example_event 1 (ClientSocket_new 7 9 0 True) (example_manager blank_session) =
      Inr (True, m') \<and>
    w_io (sk_world m') = [Send 9 ''Hi''] \<and>
    (\<exists>s. SessionManager_GetSession (w_sessions (sk_world m')) 0 = Some s \<and> s_rx s = s_rx blank_session + 2)"
proof -
  have h: "chars [72, 105] = ''Hi''" by code_simp
  have "\<exists>m'. HandleClientSocketRead example_event 1 (ClientSocket_new 7 9 0 True) (example_manager blank_session) =
        Inr (True, m') \<and>
      w_io (sk_world m') = w_io (sk_world (example_manager blank_session)) @ [Send 9 (chars [72, 105])] \<and>
      sk_sockets m' = sk_sockets (example_manager blank_session) \<and> sk_epoll m' = sk_epoll (example_manager blank_session) \<and>
      SessionManager_GetSession (w_sessions (sk_world m')) 0 =
        Some ((Session_new blank_session 7 0 40)\<lparr>s_rx := s_rx (Session_new blank_session 7 0 40) + 2\<rparr>)"
    using relay_delivers [of 1 "example_manager blank_session" "ClientSocket_new 7 9 0 True" example_event "[72, 105]"
        "[Wrote 1, WriteError EAGAIN, Wrote 1]" "Session_new blank_session 7 0 40" 0]
    by (simp add: example_manager_fields example_manager_session example_pair_nth recoverable_def)
       (simp add: example_event_def)
  then show ?thesis by (auto simp: h example_manager_fields) (simp add: Session_new_def)
qed

section \<open>The list of sockets\<close>

text \<open>Every socket is watched, and no two have the same descriptor.\<close>

definition wf_manager :: "manager \<Rightarrow> bool" where
  "wf_manager m \<longleftrightarrow> distinct (map (fd_of m) (sk_sockets m)) \<and>
     (\<forall>s\<in>set (sk_sockets m). fd_of m s \<in> sk_epoll m)"

lemma fd_of_simps [simp]:
  "fd_of m (ClientS c) = cs_socketFd c"
  "fd_of m CommandS = readPipe (w_messenger (sk_world m))"
  "fd_of m (ServerS sv) = (if sv_isActive sv then sv_socketFd sv else - 1)"
  by (simp_all add: fd_of_def ClientSocket_GetFd_def CommandSocket_GetFd_def AsyncMessenger_GetReadFd_def
      ServerSocket_GetFd_def)

lemma fd_of_cong:
  "readPipe (w_messenger (sk_world m')) = readPipe (w_messenger (sk_world m)) \<Longrightarrow> fd_of m' = fd_of m"
proof
  fix s
  assume "readPipe (w_messenger (sk_world m')) = readPipe (w_messenger (sk_world m))"
  then show "fd_of m' s = fd_of m s" by (cases s) simp_all
qed

lemma destroy_fields [simp]:
  "sk_sockets (destroy s m) = sk_sockets m" "fd_of (destroy s m) = fd_of m"
  "w_sessions (sk_world (destroy s m)) = w_sessions (sk_world m)"
  "w_messenger (sk_world (destroy s m)) = w_messenger (sk_world m)"
  by (auto simp: destroy_def fun_eq_iff fd_of_def split: option.split)

lemma destroy_epoll: "sk_epoll m - {fd_of m s} \<subseteq> sk_epoll (destroy s m)"
  by (cases s) (auto simp: destroy_def)

lemma RemoveSocketFd_fields [simp]:
  "sk_sockets (snd (SocketManager_RemoveSocketFd fd m)) = sk_sockets m"
  "sk_epoll (snd (SocketManager_RemoveSocketFd fd m)) = sk_epoll m - {fd}"
  "sk_world (snd (SocketManager_RemoveSocketFd fd m)) = sk_world m"
  "fd_of (snd (SocketManager_RemoveSocketFd fd m)) = fd_of m"
  by (auto simp: SocketManager_RemoveSocketFd_def fun_eq_iff fd_of_def)

lemma find_index_Some: "find_index P xs = Some k \<Longrightarrow> k < length xs \<and> P (xs ! k)"
  by (induction xs arbitrary: k) (auto split: if_splits)

lemma find_index_None: "find_index P xs = None \<longleftrightarrow> (\<forall>x\<in>set xs. \<not> P x)"
  by (induction xs) auto

lemma remove_nth_filter:
  "distinct (map g xs) \<Longrightarrow> find_index (\<lambda>x. g x = v) xs = Some k \<Longrightarrow>
   take k xs @ drop (Suc k) xs = filter (\<lambda>x. g x \<noteq> v) xs"
proof (induction xs arbitrary: k)
  case (Cons x xs)
  show ?case
  proof (cases "g x = v")
    case True
    with Cons.prems(1) have "v \<notin> g ` set xs" by simp
    then have "filter (\<lambda>x. g x \<noteq> v) xs = xs" by (metis (mono_tags, lifting) filter_True image_eqI)
    with True Cons.prems(2) show ?thesis by simp
  next
    case False
    with Cons show ?thesis by auto
  qed
qed simp

lemma remove_at_fields [simp]:
  "sk_sockets (remove_at k m) = take k (sk_sockets m) @ drop (Suc k) (sk_sockets m)"
  "fd_of (remove_at k m) = fd_of m"
  "w_sessions (sk_world (remove_at k m)) = w_sessions (sk_world m)"
  by (simp_all add: remove_at_def fun_eq_iff fd_of_def)

lemma remove_peer_fields [simp]:
  "fd_of (remove_peer fd m) = fd_of m"
  "w_sessions (sk_world (remove_peer fd m)) = w_sessions (sk_world m)"
  by (auto simp: remove_peer_def split: option.split)

lemma remove_peer_sockets:
  assumes "distinct (map (fd_of m) (sk_sockets m))"
  shows "sk_sockets (remove_peer fd m) = filter (\<lambda>s. fd_of m s \<noteq> fd) (sk_sockets m)"
proof (cases "find_index (\<lambda>s. fd_of m s = fd) (sk_sockets m)")
  case None
  then have "\<forall>s\<in>set (sk_sockets m). fd_of m s \<noteq> fd" by (simp add: find_index_None)
  then have "filter (\<lambda>s. fd_of m s \<noteq> fd) (sk_sockets m) = sk_sockets m" by (rule filter_True)
  with None show ?thesis by (simp add: remove_peer_def)
next
  case (Some k)
  with remove_nth_filter [OF assms Some] show ?thesis by (simp add: remove_peer_def)
qed

lemma remove_peer_epoll: "sk_epoll m - {fd} \<subseteq> sk_epoll (remove_peer fd m)"
proof (cases "find_index (\<lambda>s. fd_of m s = fd) (sk_sockets m)")
  case None
  then show ?thesis by (auto simp: remove_peer_def)
next
  case (Some k)
  let ?m = "snd (SocketManager_RemoveSocketFd fd m)"
  let ?n = "?m\<lparr>sk_sockets := take k (sk_sockets ?m) @ drop (Suc k) (sk_sockets ?m)\<rparr>"
  have "fd_of ?n (sk_sockets m ! k) = fd"
    using find_index_Some [OF Some] fd_of_cong [of ?n m] by simp
  with destroy_epoll [of ?n "sk_sockets m ! k"] Some show ?thesis
    by (auto simp: remove_peer_def remove_at_def)
qed

lemma wf_remove_peer:
  assumes "wf_manager m"
  shows "wf_manager (remove_peer fd m)"
proof -
  have "distinct (map (fd_of m) (sk_sockets m))" using assms by (simp add: wf_manager_def)
  from remove_peer_sockets [OF this, of fd] assms remove_peer_epoll [of m fd] show ?thesis
    by (auto simp: wf_manager_def distinct_map_filter)
qed

lemma wf_AddSocket:
  assumes "wf_manager m" and "fd_of m s \<notin> sk_epoll m"
  shows "wf_manager (snd (SocketManager_AddSocket room s m))"
proof -
  have f: "fd_of (m\<lparr>sk_epoll := E, sk_sockets := S\<rparr>) = fd_of m" for E S by (rule fd_of_cong) simp
  have "fd_of m s \<noteq> fd_of m x" if "x \<in> set (sk_sockets m)" for x
    using assms that by (auto simp: wf_manager_def)
  moreover from this have "wf_manager (destroy s m)"
    using assms destroy_epoll [of m s] by (fastforce simp: wf_manager_def)
  ultimately show ?thesis
    using assms by (auto simp: SocketManager_AddSocket_def wf_manager_def f)
qed

section \<open>Closing a connection\<close>

lemma destroy_io: "\<exists>es. w_io (sk_world (destroy s m)) = w_io (sk_world m) @ es"
  by (auto simp: destroy_def split: option.split)

lemma remove_peer_io: "\<exists>es. w_io (sk_world (remove_peer fd m)) = w_io (sk_world m) @ es"
proof (cases "find_index (\<lambda>s. fd_of m s = fd) (sk_sockets m)")
  case (Some k)
  let ?m = "snd (SocketManager_RemoveSocketFd fd m)"
  show ?thesis
    using Some destroy_io [of "sk_sockets m ! k"
        "?m\<lparr>sk_sockets := take k (sk_sockets ?m) @ drop (Suc k) (sk_sockets ?m)\<rparr>"]
    by (simp add: remove_peer_def remove_at_def)
qed (simp add: remove_peer_def)

lemma remove_peer_closes:
  assumes "ClientS c \<in> set (sk_sockets m)" and "distinct (map (fd_of m) (sk_sockets m))"
  shows "w_io (sk_world (remove_peer (cs_socketFd c) m)) = w_io (sk_world m) @ [Close (cs_socketFd c)]"
proof -
  obtain k where k: "find_index (\<lambda>s. fd_of m s = cs_socketFd c) (sk_sockets m) = Some k"
    using assms(1) find_index_None [of "\<lambda>s. fd_of m s = cs_socketFd c" "sk_sockets m"]
    by (cases "find_index (\<lambda>s. fd_of m s = cs_socketFd c) (sk_sockets m)") auto
  from find_index_Some [OF k] have kl: "k < length (sk_sockets m)"
    and "fd_of m (sk_sockets m ! k) = fd_of m (ClientS c)" by simp_all
  with assms have "sk_sockets m ! k = ClientS c"
    by (metis distinct_map inj_on_def nth_mem)
  with k show ?thesis by (simp add: remove_peer_def remove_at_def destroy_def)
qed

lemma filter_list_update:
  "k < length xs \<Longrightarrow> \<not> P (xs ! k) \<Longrightarrow> \<not> P y \<Longrightarrow> filter P (xs[k := y]) = filter P xs"
  by (induction xs arbitrary: k) (auto simp: nth_Cons split: nat.splits)

lemma end_session_fields [simp]:
  "w_messenger (end_session now i w) = w_messenger w" "w_io (end_session now i w) = w_io w"
  by (simp_all add: end_session_def split: prod.split)

lemma GetSession_end_session:
  assumes "wf_sessions (w_sessions w)"
  shows "SessionManager_GetSession (w_sessions (end_session now i w)) j =
    (if j = i then None else SessionManager_GetSession (w_sessions w) j)"
proof -
  obtain sm g where e: "SessionManager_EndSession (w_auth w) now i (w_sessions w) (w_stats w) = (sm, g)"
    by fastforce
  with GetSession_EndSession [OF assms, of "w_auth w" now i "w_stats w" j] show ?thesis
    by (simp add: end_session_def)
qed

text \<open>A read event on a socket that was deactivated before.\<close>

lemma HandleClient_inactive:
  assumes "\<not> cs_isActive c" and "k < length (sk_sockets m)" and "sk_sockets m ! k = ClientS c"
  shows "HandleClientSocketRead e k c m = Inr (True, on_world (end_session (ev_now e) (cs_sessionId c))
    (remove_peer (cs_peerFd c) (remove_peer (cs_socketFd c) m)))"
proof -
  have "m\<lparr>sk_buf := sk_buf m, sk_sockets := (sk_sockets m)[k := ClientS c]\<rparr> = m"
    using assms(3) by (metis list_update_id manager.surjective manager.update_convs(3,5))
  with assms(1) show ?thesis
    by (simp add: HandleClientSocketRead_def Read_inactive Let_def ClientSocket_GetSessionId_def
        ClientSocket_GetProxyFd_def ClientSocket_GetFd_def)
qed

lemma HandleClient_eof:
  assumes "cs_isActive c" and "ev_reads e 0 = ReadBytes []"
    and "SessionManager_GetSession (w_sessions (sk_world m)) (cs_sessionId c) = Some s"
  shows "\<exists>f. HandleClientSocketRead e k c m = Inr (True, on_world
      (\<lambda>w. w\<lparr>w_sessions := upd_session (cs_sessionId c) f (w_sessions w)\<rparr>)
      (m\<lparr>sk_sockets := (sk_sockets m)[k := ClientS (ClientSocket_OnError c)]\<rparr>)) \<and>
    (\<forall>x. f x = x)"
proof -
  let ?f = "if cs_isClientToProxy c then Session_AddRxBytes 0 else Session_AddTxBytes 0"
  define c' where "c' = ClientSocket_OnError c"
  have c': "\<not> cs_isActive c'" "cs_sessionId c' = cs_sessionId c" "cs_isClientToProxy c' = cs_isClientToProxy c"
    by (simp_all add: c'_def ClientSocket_OnError_def)
  have "store 0 [] (sk_buf m) = sk_buf m" by (simp add: store_def)
  then have r: "ClientSocket_Read (ev_reads e) False c (sk_buf m) = Some (0, False, c', sk_buf m)"
    using Read_cases [OF assms(1), of "ev_reads e" False "sk_buf m"] assms(2) by (simp add: c'_def)
  have "HandleClientSocketRead e k c m = Inr (True, on_world
      (\<lambda>w. w\<lparr>w_sessions := upd_session (cs_sessionId c) ?f (w_sessions w)\<rparr>)
      (m\<lparr>sk_sockets := (sk_sockets m)[k := ClientS c']\<rparr>))"
    using assms(3) by (simp add: HandleClientSocketRead_def r Write_inactive [OF c'(1)] Let_def
        ClientSocket_GetSessionId_def ClientSocket_IsClientToProxy_def c')
  moreover have "?f x = x" for x by (simp add: session_ops)
  ultimately show ?thesis unfolding c'_def by blast
qed

text \<open>
  C13: The end of a stream is handled in two turns. The first read only deactivates the socket:
  nothing is closed and no session changes. The next event on it removes the socket and the
  socket of its peer, closes the descriptor, ends exactly this session and leaves the list of
  sockets well formed.
\<close>

theorem connection_closes_in_two_turns:
  assumes "wf_manager m" and "wf_sessions (w_sessions (sk_world m))"
    and "k < length (sk_sockets m)" and "sk_sockets m ! k = ClientS c" and "cs_isActive c"
    and "ev_reads e 0 = ReadBytes []"
    and "SessionManager_GetSession (w_sessions (sk_world m)) (cs_sessionId c) = Some s"
  shows "\<exists>m1 m2. HandleClientSocketRead e k c m = Inr (True, m1) \<and>
    sk_sockets m1 = (sk_sockets m)[k := ClientS (ClientSocket_OnError c)] \<and>
    w_io (sk_world m1) = w_io (sk_world m) \<and>
    SessionManager_GetSession (w_sessions (sk_world m1)) j =
      SessionManager_GetSession (w_sessions (sk_world m)) j \<and>
    HandleClientSocketRead e' k (ClientSocket_OnError c) m1 = Inr (True, m2) \<and>
    sk_sockets m2 = filter (\<lambda>s. fd_of m s \<noteq> cs_socketFd c \<and> fd_of m s \<noteq> cs_peerFd c) (sk_sockets m) \<and>
    Close (cs_socketFd c) \<in> set (w_io (sk_world m2)) \<and> wf_manager m2 \<and>
    SessionManager_GetSession (w_sessions (sk_world m2)) j =
      (if j = cs_sessionId c then None else SessionManager_GetSession (w_sessions (sk_world m)) j)"
proof -
  let ?c = "ClientSocket_OnError c" let ?i = "cs_sessionId c"
  have c: "\<not> cs_isActive ?c" "cs_socketFd ?c = cs_socketFd c" "cs_peerFd ?c = cs_peerFd c" "cs_sessionId ?c = ?i"
    by (simp_all add: ClientSocket_OnError_def)
  obtain f where f: "\<And>x. f x = x" and h1: "HandleClientSocketRead e k c m = Inr (True, on_world
      (\<lambda>w. w\<lparr>w_sessions := upd_session ?i f (w_sessions w)\<rparr>) (m\<lparr>sk_sockets := (sk_sockets m)[k := ClientS ?c]\<rparr>))"
    using HandleClient_eof [OF assms(5-7), of k] by blast
  define m1 where "m1 = on_world (\<lambda>w. w\<lparr>w_sessions := upd_session ?i f (w_sessions w)\<rparr>)
    (m\<lparr>sk_sockets := (sk_sockets m)[k := ClientS ?c]\<rparr>)"
  have fd: "fd_of m1 = fd_of m" by (rule fd_of_cong) (simp add: m1_def)
  have m1: "sk_sockets m1 = (sk_sockets m)[k := ClientS ?c]" "w_io (sk_world m1) = w_io (sk_world m)"
    "sk_epoll m1 = sk_epoll m" by (simp_all add: m1_def)
  have "map (fd_of m) ((sk_sockets m)[k := ClientS ?c]) = map (fd_of m) (sk_sockets m)"
    using assms(3,4) by (simp add: map_update c(2)) (metis fd_of_simps(1) list_update_id map_update)
  with assms(1) have wf1: "wf_manager m1"
    by (simp add: wf_manager_def fd m1) (metis (no_types, lifting) image_iff list.set_map)
  then have d1: "distinct (map (fd_of m1) (sk_sockets m1))" by (simp add: wf_manager_def)
  have s1: "wf_sessions (w_sessions (sk_world m1))"
    using wf_upd_session [OF assms(2), of f ?i] f by (simp add: m1_def)
  have g1: "SessionManager_GetSession (w_sessions (sk_world m1)) j =
      SessionManager_GetSession (w_sessions (sk_world m)) j" for j
    using sess.get_upd [where f = f and m = "w_sessions (sk_world m)" and i = ?i and j = j] f
    by (cases "SessionManager_GetSession (w_sessions (sk_world m)) ?i") (simp_all add: m1_def)
  define m2 where "m2 = remove_peer (cs_peerFd c) (remove_peer (cs_socketFd c) m1)"
  have k1: "k < length (sk_sockets m1)" "sk_sockets m1 ! k = ClientS ?c" using assms(3) by (simp_all add: m1)
  have h2: "HandleClientSocketRead e' k ?c m1 = Inr (True, on_world (end_session (ev_now e') ?i) m2)"
    using HandleClient_inactive [OF c(1) k1, of e'] by (simp add: c m2_def)
  have wf2: "wf_manager m2" unfolding m2_def by (intro wf_remove_peer wf1)
  have "sk_sockets m2 = filter (\<lambda>s. fd_of m s \<noteq> cs_socketFd c \<and> fd_of m s \<noteq> cs_peerFd c) (sk_sockets m1)"
    using remove_peer_sockets [OF d1] remove_peer_sockets [of "remove_peer (cs_socketFd c) m1" "cs_peerFd c"]
      wf_remove_peer [OF wf1, of "cs_socketFd c"]
    by (simp add: m2_def wf_manager_def fd conj_commute)
  also have "\<dots> = filter (\<lambda>s. fd_of m s \<noteq> cs_socketFd c \<and> fd_of m s \<noteq> cs_peerFd c) (sk_sockets m)"
    unfolding m1 by (rule filter_list_update) (use assms(3,4) c(2) in auto)
  finally have sock: "sk_sockets m2 = filter (\<lambda>s. fd_of m s \<noteq> cs_socketFd c \<and> fd_of m s \<noteq> cs_peerFd c) (sk_sockets m)" .
  have "ClientS ?c \<in> set (sk_sockets m1)" using k1 by (metis nth_mem)
  from remove_peer_closes [OF this d1] have "Close (cs_socketFd c) \<in> set (w_io (sk_world (remove_peer (cs_socketFd c) m1)))"
    by (simp add: c(2))
  then have "Close (cs_socketFd c) \<in> set (w_io (sk_world m2))"
    using remove_peer_io [of "cs_peerFd c" "remove_peer (cs_socketFd c) m1"] by (auto simp: m2_def)
  moreover have "wf_manager (on_world (end_session (ev_now e') ?i) m2)"
  proof -
    have "fd_of (on_world (end_session (ev_now e') ?i) m2) = fd_of m2" by (rule fd_of_cong) simp
    with wf2 show ?thesis by (simp add: wf_manager_def)
  qed
  moreover have "wf_sessions (w_sessions (sk_world m2))" using s1 by (simp add: m2_def)
  ultimately show ?thesis
    using h1 h2 sock g1 m1 GetSession_end_session [of "sk_world m2"]
    by (intro exI [of _ m1] exI [of _ "on_world (end_session (ev_now e') ?i) m2"])
       (simp add: m1_def m2_def)
qed

lemma example_fd: "fd_of (example_manager junk) = GetFd \<lparr>readPipe = 4, writePipe = 5, m_pipe = []\<rparr>"
  by (simp add: fun_eq_iff fd_of_def example_manager_fields)

lemma wf_example_manager: "wf_manager (example_manager junk)"
  by (simp add: wf_manager_def example_fd example_manager_fields example_pair_def CommandSocket_GetFd_def
      AsyncMessenger_GetReadFd_def ClientSocket_GetFd_def)

lemma wf_example_sessions: "wf_sessions (w_sessions (sk_world (example_manager junk)))"
  by (simp add: example_manager_def SocketManager_new_def example_world_def wf_sessions_def Session_new_def)

theorem connection_closes_in_two_turns_witness:
  "\<exists>m1 m2. HandleClientSocketRead (example_event\<lparr>ev_reads := \<lambda>_. ReadBytes []\<rparr>) 1
      (ClientSocket_new 7 9 0 True) (example_manager blank_session) = Inr (True, m1) \<and>
    HandleClientSocketRead example_event 1 (ClientSocket_OnError (ClientSocket_new 7 9 0 True)) m1 =
      Inr (True, m2) \<and>
    sk_sockets m2 = [CommandS] \<and> SessionManager_GetSession (w_sessions (sk_world m2)) 0 = None"
proof -
  let ?c = "ClientSocket_new 7 9 0 True" let ?e = "example_event\<lparr>ev_reads := \<lambda>_. ReadBytes []\<rparr>"
  have f: "filter (\<lambda>s. fd_of (example_manager blank_session) s \<noteq> cs_socketFd ?c \<and>
      fd_of (example_manager blank_session) s \<noteq> cs_peerFd ?c) (sk_sockets (example_manager blank_session)) = [CommandS]"
    by (simp add: example_fd example_manager_fields example_pair_def CommandSocket_GetFd_def
        AsyncMessenger_GetReadFd_def ClientSocket_GetFd_def)
  have p: "1 < length (sk_sockets (example_manager blank_session))" "sk_sockets (example_manager blank_session) ! 1 = ClientS ?c"
    "ev_reads ?e 0 = ReadBytes []"
    by (simp_all add: example_manager_fields example_pair_nth)
  from connection_closes_in_two_turns [OF wf_example_manager [of blank_session] wf_example_sessions p(1,2) _ p(3),
      of "Session_new blank_session 7 0 40" 0 example_event] f
  show ?thesis by (simp add: example_manager_session) metis
qed

section \<open>Pruning ends\<close>

lemma subseq_remove_nth: "subseq (take k xs @ drop (Suc k) xs) xs"
proof -
  have "suffix (drop (Suc 0) (drop k xs)) (drop k xs)" by (rule suffix_drop)
  then have "subseq (drop (Suc k) xs) (drop k xs)" by (simp add: suffix_imp_subseq)
  from list_emb_append_mono [OF subseq_order.refl this, of "take k xs"] show ?thesis by simp
qed

lemma remove_peer_subseq: "subseq (sk_sockets (remove_peer fd m)) (sk_sockets m)"
  by (simp add: remove_peer_def subseq_remove_nth split: option.split)

text \<open>What pruning one client leaves: at least that client is gone, whatever the freed read gives.\<close>

lemma prune_one_sockets:
  "subseq (sk_sockets (prune_one freed now k c m)) (take k (sk_sockets m) @ drop (Suc k) (sk_sockets m))"
  using remove_peer_subseq [of "freed c" "remove_at k (snd (SocketManager_RemoveSocketFd (ClientSocket_GetFd c) m))"]
  by (simp add: prune_one_def)

lemma prune_loop_ends:
  assumes "length (filter (\<lambda>s. \<not> is_client s) (sk_sockets m)) \<le> 200"
  shows "\<exists>m'. prune_loop freed now n m = Some m' \<and> length (sk_sockets m') \<le> 200 \<and>
    subseq (sk_sockets m') (sk_sockets m)"
  using assms
proof (induction "length (sk_sockets m)" arbitrary: m n rule: less_induct)
  case less
  show ?case
  proof (cases "200 < length (sk_sockets m)")
    case False
    then show ?thesis by (subst prune_loop.simps) simp
  next
    case True
    obtain k where k: "find_index is_client (sk_sockets m) = Some k"
    proof (cases "find_index is_client (sk_sockets m)")
      case None
      then have "filter (\<lambda>s. \<not> is_client s) (sk_sockets m) = sk_sockets m"
        by (simp add: find_index_None)
      with True less.prems show ?thesis by simp
    qed (rule that)
    from find_index_Some [OF k] obtain c where kl: "k < length (sk_sockets m)" and c: "sk_sockets m ! k = ClientS c"
      by (cases "sk_sockets m ! k") (auto simp: is_client_def)
    let ?m = "prune_one freed (now n) k c m"
    have sub: "subseq (sk_sockets ?m) (sk_sockets m)"
      using prune_one_sockets subseq_remove_nth by (rule subseq_order.order_trans)
    have "length (sk_sockets ?m) < length (sk_sockets m)"
      using list_emb_length [OF prune_one_sockets [of freed "now n" k c m]] kl by simp
    moreover have "length (filter (\<lambda>s. \<not> is_client s) (sk_sockets ?m)) \<le> 200"
      using list_emb_length [OF subseq_filter [OF sub]] less.prems by (rule le_trans)
    ultimately obtain m' where "prune_loop freed now (Suc n) ?m = Some m'" "length (sk_sockets m') \<le> 200"
      "subseq (sk_sockets m') (sk_sockets ?m)"
      using less.hyps by blast
    with sub True k c show ?thesis
      by (subst prune_loop.simps) (auto intro: subseq_order.order_trans)
  qed
qed

text \<open>
  C34: Pruning ends with at most 200 sockets, whatever the read of the freed object gives, as
  long as at most 200 sockets are not clients; the sockets left keep their order, and when there
  are no more than 200 nothing changes.
\<close>

theorem pruning_ends:
  assumes "length (filter (\<lambda>s. \<not> is_client s) (sk_sockets m)) \<le> 200"
  shows "\<exists>m'. SocketManager_PruneExcessConnections freed now m = Inr m' \<and>
    length (sk_sockets m') \<le> 200 \<and> subseq (sk_sockets m') (sk_sockets m) \<and>
    (if length (sk_sockets m) \<le> 200 then m' = m else True)"
  using prune_loop_ends [OF assms, of freed now 0]
  by (auto simp: SocketManager_PruneExcessConnections_def prune_loop.simps [of _ _ _ m])

theorem pruning_ends_witness:
  "\<exists>m'. SocketManager_PruneExcessConnections cs_peerFd (\<lambda>_. 60) (example_manager blank_session) = Inr m' \<and>
    length (sk_sockets m') \<le> 200"
  using pruning_ends [of "example_manager blank_session" cs_peerFd "\<lambda>_. 60"]
  by (auto simp: example_manager_fields example_pair_def is_client_def)

section \<open>Accepting and connecting\<close>

text \<open>A turn in which \<open>accept\<close> gives a descriptor that no session has.\<close>

lemma server_effect:
  assumes "wf_sessions (w_sessions (sk_world m))"
    and "ServerSocket_Accept (ev_accept e) sv [] = (fd, ip, [Timeouts fd])" and "0 \<le> fd"
    and "SessionManager_GetSessionForClient (w_sessions (sk_world m)) fd = None"
    and "i = sm_sessionId (w_sessions (sk_world m))" and "i < 2 ^ 31 - 1"
  shows "\<exists>sm. HandleServerSocketRead e sv m = Inr (True, on_world (\<lambda>w. w\<lparr>w_sessions := sm,
        w_io := w_io w @ Timeouts fd # idle_options fd, w_work := w_work w @ [\<lparr>wp_handler = Some asyncDetector_fn, wp_context = i\<rparr>]\<rparr>) m) \<and>
      sm_sessionId sm = i + 1 \<and>
      (\<forall>j. SessionManager_GetSession sm j = (if j = i then Some ((Session_new (ev_junk e) fd i (ev_now e))\<lparr>s_clientIp := ip\<rparr>)
        else SessionManager_GetSession (w_sessions (sk_world m)) j))"
proof -
  let ?sm = "w_sessions (sk_world m)" let ?s = "Session_new (ev_junk e) fd i (ev_now e)"
  obtain sm r where c: "SessionManager_CreateSession (ev_junk e) (ev_now e) fd ?sm = Inr (sm, r)"
    using CreateSession_ok [of ?sm "ev_junk e" "ev_now e" fd] assms(5,6) by auto
  have r: "r = Some ?s" using CreateSession_result(1) [OF c] assms(4,5) by simp
  have g: "SessionManager_GetSession sm j = (if j = i then Some ?s else SessionManager_GetSession ?sm j)" for j
    using GetSession_Create [OF assms(1) c, of j] assms(5) by simp
  have n: "sm_sessionId sm = i + 1" using CreateSession_result(2) [OF c] assms(5) by simp
  let ?up = "upd_session i (Session_SetClientAddress ip) sm"
  have "SessionManager_GetSession ?up j = (if j = i then Some (?s\<lparr>s_clientIp := ip\<rparr>)
      else SessionManager_GetSession ?sm j)" for j
    by (simp add: sess.get_upd g Session_SetClientAddress_def)
  moreover have "sm_sessionId ?up = i + 1" using n by (simp add: upd_session_def)
  moreover have "s_sessionId ?s = i" by (simp add: Session_new_def)
  then have "HandleServerSocketRead e sv m = Inr (True, on_world (\<lambda>w. w\<lparr>w_sessions := ?up,
      w_io := w_io w @ Timeouts fd # idle_options fd, w_work := w_work w @ [\<lparr>wp_handler = Some asyncDetector_fn, wp_context = i\<rparr>]\<rparr>) m)"
    using assms(2,3) c r
    by (simp add: HandleServerSocketRead_def Let_def ProxyConnector_BeginProxyDetect_def ThreadPool_Dispatch_def work_push_def)
  ultimately show ?thesis by blast
qed

lemma accept_turn:
  assumes "sk_isActive m" and "find_index (\<lambda>s. fd_of m s = ev_fd e) (sk_sockets m) = Some k"
    and "sk_sockets m ! k = ServerS sv" and "sv_isActive sv" and "wf_sessions (w_sessions (sk_world m))"
    and "ev_accept e = (fd, ip)" and "0 \<le> fd"
    and "SessionManager_GetSessionForClient (w_sessions (sk_world m)) fd = None"
    and "i = sm_sessionId (w_sessions (sk_world m))" and "i < 2 ^ 31 - 1"
  shows "\<exists>sm. SocketManager_ProcessSockets env (Ready [e]) m = Inr (True, on_world (\<lambda>w. w\<lparr>w_sessions := sm,
        w_io := w_io w @ Timeouts fd # idle_options fd, w_work := w_work w @ [\<lparr>wp_handler = Some asyncDetector_fn, wp_context = i\<rparr>]\<rparr>) m) \<and>
      (\<forall>j. SessionManager_GetSession sm j = (if j = i then Some ((Session_new (ev_junk e) fd i (ev_now e))\<lparr>s_clientIp := ip\<rparr>)
        else SessionManager_GetSession (w_sessions (sk_world m)) j))"
proof -
  have "ServerSocket_Accept (ev_accept e) sv [] = (fd, ip, [Timeouts fd])"
    using assms(4,6,7) by (simp add: ServerSocket_Accept_def)
  from server_effect [OF assms(5) this assms(7-10)] assms(1-3) show ?thesis
    by (auto simp: SocketManager_ProcessSockets_def handle_socket_def)
qed

text \<open>
  C24: Accepting a client. When \<open>accept\<close> fails, for whatever reason, the turn of the loop reports
  false and nothing is changed: the main program then ends. Otherwise, for a descriptor that no
  session has and while the counter of sessions is below the largest \<open>int\<close>, the timeouts of the
  socket are set, then keep-alive with probes after ten idle seconds, five of them, five seconds
  apart; a new session with the client's address is made and its detection is dispatched.
\<close>

theorem accept_client:
  assumes "sk_isActive m" and "find_index (\<lambda>s. fd_of m s = ev_fd e) (sk_sockets m) = Some k"
    and "sk_sockets m ! k = ServerS sv" and "sv_isActive sv" and "wf_sessions (w_sessions (sk_world m))"
    and "SessionManager_GetSessionForClient (w_sessions (sk_world m)) (fst (ev_accept e)) = None"
    and "i = sm_sessionId (w_sessions (sk_world m))" and "i < 2147483647"
  shows "if fst (ev_accept e) < 0
    then SocketManager_ProcessSockets env (Ready [e]) m = Inr (False, m)
    else \<exists>m'. SocketManager_ProcessSockets env (Ready [e]) m = Inr (True, m') \<and>
      SessionManager_GetSession (w_sessions (sk_world m)) i = None \<and>
      SessionManager_GetSession (w_sessions (sk_world m')) i =
        Some ((Session_new (ev_junk e) (fst (ev_accept e)) i (ev_now e))\<lparr>s_clientIp := snd (ev_accept e)\<rparr>) \<and>
      w_io (sk_world m') = w_io (sk_world m) @
        [Timeouts (fst (ev_accept e)), KeepAlive (fst (ev_accept e)), IdleTime (fst (ev_accept e)) 10,
         KeepCount (fst (ev_accept e)) 5, KeepInterval (fst (ev_accept e)) 5] \<and>
      w_work (sk_world m') = w_work (sk_world m) @
        [\<lparr>wp_handler = Some asyncDetector_fn, wp_context = i\<rparr>]"
proof (cases "fst (ev_accept e) < 0")
  case True
  with assms(1-4) show ?thesis
    by (simp add: SocketManager_ProcessSockets_def handle_socket_def HandleServerSocketRead_def
        ServerSocket_Accept_def)
next
  case False
  have "SessionManager_GetSession (w_sessions (sk_world m)) i = None"
    using assms(5,7) by (auto simp: SessionManager_GetSession_def find_first_None wf_sessions_def)
  with False show ?thesis
    using accept_turn [OF assms(1-5) prod.collapse [symmetric] _ assms(6,7), of env] assms(8)
    by (auto simp: idle_options_def)
qed

theorem accept_client_witness:
  "\<exists>m'. SocketManager_ProcessSockets example_idle (Ready [example_event\<lparr>ev_fd := 6, ev_accept := (12, ''10.0.0.9'')\<rparr>])
      ((example_manager blank_session)\<lparr>sk_sockets := [ServerS \<lparr>sv_socketFd = 6, sv_isActive = True\<rparr>]\<rparr>) = Inr (True, m') \<and>
    w_work (sk_world m') = [\<lparr>wp_handler = Some asyncDetector_fn, wp_context = 1\<rparr>]"
proof -
  let ?m = "(example_manager blank_session)\<lparr>sk_sockets := [ServerS \<lparr>sv_socketFd = 6, sv_isActive = True\<rparr>]\<rparr>"
  let ?e = "example_event\<lparr>ev_fd := 6, ev_accept := (12, ''10.0.0.9'')\<rparr>"
  have w: "w_sessions (sk_world (example_manager blank_session)) = \<lparr>sm_sessionId = 1, sm_list = [Session_new blank_session 7 0 40]\<rparr>"
    "w_work (sk_world (example_manager blank_session)) = []"
    by (simp_all add: example_manager_def SocketManager_new_def example_world_def world_start_def)
  have "wf_sessions (w_sessions (sk_world ?m))" using wf_example_sessions [of blank_session] by simp
  moreover have "SessionManager_GetSessionForClient (w_sessions (sk_world ?m)) 12 = None"
    by (simp add: w SessionManager_GetSessionForClient_def Session_new_def)
  ultimately show ?thesis
    using accept_client [of ?m ?e 0 "\<lparr>sv_socketFd = 6, sv_isActive = True\<rparr>" 1 example_idle]
    by (auto simp: example_manager_fields w)
qed

section \<open>A connection is established\<close>

text \<open>The clients of a connection: the two sockets point at each other and share the session.\<close>

definition crossed :: "int \<Rightarrow> int \<Rightarrow> int \<Rightarrow> socket list" where
  "crossed clientFd proxyFd i =
     [ClientS (ClientSocket_new clientFd proxyFd i True), ClientS (ClientSocket_new proxyFd clientFd i False)]"

lemma AddSocket_fresh:
  assumes "fd_of m s \<notin> sk_epoll m"
  shows "SocketManager_AddSocket True s m =
    (True, m\<lparr>sk_epoll := insert (fd_of m s) (sk_epoll m), sk_sockets := sk_sockets m @ [s]\<rparr>)"
  using assms by (simp add: SocketManager_AddSocket_def)

lemma registers_pair:
  assumes "wf_manager m" and "ev_room_client e" and "ev_room_proxy e"
    and "SessionManager_GetSession (w_sessions (sk_world m)) (detect_sessionId msg) = Some s"
    and "s_clientFd s \<notin> sk_epoll m" and "connect_proxyFd msg \<notin> sk_epoll m"
    and "s_clientFd s \<noteq> connect_proxyFd msg"
  shows "if connect_success msg
    then \<exists>m'. HandleConnectResult e msg m = Inr m' \<and> wf_manager m' \<and>
      sk_sockets m' = sk_sockets m @ crossed (s_clientFd s) (connect_proxyFd msg) (connect_sessionId msg) \<and>
      sk_epoll m' = insert (connect_proxyFd msg) (insert (s_clientFd s) (sk_epoll m)) \<and>
      sk_world m' = sk_world m
    else HandleConnectResult e msg m =
      Inr (on_world (refuse (ev_now e) (s_sessionId s) s resp_404) m)"
proof (cases "connect_success msg")
  case True
  let ?c = "ClientS (ClientSocket_new (s_clientFd s) (connect_proxyFd msg) (connect_sessionId msg) True)"
  let ?p = "ClientS (ClientSocket_new (connect_proxyFd msg) (s_clientFd s) (connect_sessionId msg) False)"
  define m1 where "m1 = m\<lparr>sk_epoll := insert (s_clientFd s) (sk_epoll m), sk_sockets := sk_sockets m @ [?c]\<rparr>"
  have a1: "SocketManager_AddSocket True ?c m = (True, m1)"
    using AddSocket_fresh [of m ?c] assms(5) by (simp add: m1_def)
  have f1: "connect_proxyFd msg \<notin> sk_epoll m1" using assms(6,7) by (auto simp: m1_def)
  then have a2: "SocketManager_AddSocket True ?p m1 =
      (True, m1\<lparr>sk_epoll := insert (connect_proxyFd msg) (sk_epoll m1), sk_sockets := sk_sockets m1 @ [?p]\<rparr>)"
    using AddSocket_fresh [of m1 ?p] by simp
  have "wf_manager m1" using wf_AddSocket [OF assms(1), of ?c True] assms(5) a1 by simp
  then have "wf_manager (snd (SocketManager_AddSocket True ?p m1))" using f1 by (intro wf_AddSocket) simp_all
  with True assms(2-4) show ?thesis
    by (simp add: HandleConnectResult_def Let_def a1 a2) (simp add: m1_def crossed_def)
next
  case False
  with assms(4) show ?thesis by (simp add: HandleConnectResult_def)
qed

text \<open>
  A report that the connection is made. The client's and the server's descriptor, both new to
  the manager, are registered as two sockets that name each other as peers, at the end of the
  list, which stays well formed; the sessions, the queue of work and what was sent are untouched.
  A report of failure registers nothing: the client gets the page 404 and the session ends.
\<close>

theorem connect_registers_pair:
  assumes "wf_manager m" and "ev_room_client e" and "ev_room_proxy e"
    and "SessionManager_GetSession (w_sessions (sk_world m)) (detect_sessionId msg) = Some s"
    and "s_clientFd s \<notin> sk_epoll m" and "connect_proxyFd msg \<notin> sk_epoll m"
    and "s_clientFd s \<noteq> connect_proxyFd msg"
  shows "if connect_success msg
    then \<exists>m'. HandleConnectResult e msg m = Inr m' \<and> wf_manager m' \<and>
      sk_sockets m' = sk_sockets m @ crossed (s_clientFd s) (connect_proxyFd msg) (connect_sessionId msg) \<and>
      sk_epoll m' = insert (connect_proxyFd msg) (insert (s_clientFd s) (sk_epoll m)) \<and>
      sk_world m' = sk_world m
    else HandleConnectResult e msg m =
      Inr (on_world (refuse (ev_now e) (s_sessionId s) s resp_404) m)"
  using assms by (rule registers_pair)

theorem connect_registers_pair_witness:
  "\<exists>m'. HandleConnectResult example_event (connect_message 11 0 True)
      ((example_manager blank_session)\<lparr>sk_sockets := [CommandS], sk_epoll := {4}\<rparr>) = Inr m' \<and>
    sk_sockets m' = CommandS # crossed 7 11 0"
proof -
  let ?m = "(example_manager blank_session)\<lparr>sk_sockets := [CommandS], sk_epoll := {4}\<rparr>"
  have f: "detect_sessionId (connect_message 11 0 True) = 0" "connect_proxyFd (connect_message 11 0 True) = 11"
    "connect_sessionId (connect_message 11 0 True) = 0" "connect_success (connect_message 11 0 True)"
    using connect_message_fields [of 11 0 True] by (simp_all add: int32_def)
  have e: "ev_room_client example_event" "ev_room_proxy example_event" by (simp_all add: example_event_def)
  have "wf_manager ?m" by (simp add: wf_manager_def example_manager_fields)
  moreover have "SessionManager_GetSession (w_sessions (sk_world ?m)) (detect_sessionId (connect_message 11 0 True)) =
      Some (Session_new blank_session 7 0 40)"
    using example_manager_session [of blank_session] by (simp add: f)
  moreover have "s_clientFd (Session_new blank_session 7 0 40) = 7" by (simp add: Session_new_def)
  ultimately show ?thesis
    using connect_registers_pair [of ?m example_event "connect_message 11 0 True" "Session_new blank_session 7 0 40"] e f
    by auto
qed

end
