(* ===== verification/Daemon.thy ===== *)
theory Daemon
  imports Prelude
begin

text \<open>
  \<open>Daemonize\<close> of \<open>main.cpp\<close>: the process leaves its parent, its terminal and its descriptors.
\<close>

datatype signal = SIGHUP | SIGCHLD | SIGPIPE

text \<open>What a process has: \<open>pr_streams\<close> are the descriptors of \<open>stdin\<close>, \<open>stdout\<close> and \<open>stderr\<close>.\<close>

record process =
  pr_leader :: bool
  pr_ignored :: "signal set"
  pr_open :: "int set"
  pr_streams :: "int option list"

definition process_init :: process where
  "process_init = \<lparr>pr_leader = False, pr_ignored = {}, pr_open = {0, 1, 2}, pr_streams = [Some 0, Some 1, Some 2]\<rparr>"

text \<open>The answers of the system; \<open>dm_null\<close> says whether \<open>/dev/null\<close> can be opened.\<close>

record daemon_env =
  dm_fork :: int
  dm_setsid :: int
  dm_open_max :: nat
  dm_null :: bool

definition close_all :: "nat \<Rightarrow> process \<Rightarrow> process" where
  "close_all n p = fold (\<lambda>i p. p\<lparr>pr_open := pr_open p - {int i}\<rparr>) [0..<n] p"

text \<open>The kernel gives the lowest descriptor that is free.\<close>

definition lowest_free :: "int set \<Rightarrow> int" where
  "lowest_free fds = (case find_first (\<lambda>i. i \<notin> fds) (map int [0..<Suc (card fds)]) of Some i \<Rightarrow> i | None \<Rightarrow> - 1)"

definition open_null :: "bool \<Rightarrow> process \<Rightarrow> int option \<times> process" where
  "open_null ok p =
     (if ok then let fd = lowest_free (pr_open p) in (Some fd, p\<lparr>pr_open := insert fd (pr_open p)\<rparr>)
      else (None, p))"

definition Daemonize :: "daemon_env \<Rightarrow> process \<Rightarrow> process res" where
  "Daemonize env p =
     (if dm_fork env < 0 then Inl (Exits (- 1))
      else if 0 < dm_fork env then Inl (Exits 0)
      else if dm_setsid env < 0 then Inl (Exits (- 1))
      else
        let p = p\<lparr>pr_leader := True\<rparr>;
            p = p\<lparr>pr_ignored := insert SIGHUP (pr_ignored p)\<rparr>;
            p = p\<lparr>pr_ignored := insert SIGCHLD (pr_ignored p)\<rparr>;
            p = close_all (dm_open_max env) p;
            (i, p) = open_null (dm_null env) p;
            (out, p) = open_null (dm_null env) p;
            (err, p) = open_null (dm_null env) p
        in Inr (p\<lparr>pr_streams := [i, out, err]\<rparr>))"

lemma close_all_fields:
  "close_all n p = p\<lparr>pr_open := pr_open p - int ` {0..<n}\<rparr>"
proof (induction n)
  case (Suc n)
  have "close_all (Suc n) p = (close_all n p)\<lparr>pr_open := pr_open (close_all n p) - {int n}\<rparr>"
    by (simp add: close_all_def)
  moreover have "pr_open p - int ` {0..<n} - {int n} = pr_open p - int ` {0..<Suc n}" by auto
  ultimately show ?case by (simp add: Suc)
qed (simp add: close_all_def)

lemma lowest_free_small:
  "lowest_free {} = 0" "lowest_free {0} = 1" "lowest_free {1, 0} = 2"
  by (simp_all add: lowest_free_def upt_rec)

text \<open>
  C38: A child that becomes the leader of a session keeps no descriptor of its parent, when all of
  them are below the limit: only the null device is open, as the three standard streams, and a
  hang-up or the end of a child does not stop it. The parent leaves with 0.
\<close>

theorem Daemonize_detaches:
  assumes "\<And>fd. fd \<in> pr_open p \<Longrightarrow> 0 \<le> fd \<and> fd < int (dm_open_max env)" and "dm_null env"
  shows "Daemonize env p =
    (if dm_fork env = 0 \<and> 0 \<le> dm_setsid env
     then Inr (p\<lparr>pr_leader := True, pr_ignored := {SIGHUP, SIGCHLD} \<union> pr_ignored p, pr_open := {0, 1, 2},
       pr_streams := [Some 0, Some 1, Some 2]\<rparr>)
     else Inl (Exits (if 0 < dm_fork env then 0 else - 1)))"
proof -
  have "fd \<in> int ` {0..<dm_open_max env}" if "fd \<in> pr_open p" for fd
    using assms(1) [OF that] by (intro image_eqI [of _ _ "nat fd"]) auto
  then have "pr_open p - int ` {0..<dm_open_max env} = {}" by blast
  then have "close_all (dm_open_max env) (p\<lparr>pr_leader := l, pr_ignored := s\<rparr>) =
      p\<lparr>pr_leader := l, pr_ignored := s, pr_open := {}\<rparr>" for l s
    unfolding close_all_fields by simp
  moreover have "{1, 0} = {0, 1 :: int}" "insert 2 {0, 1} = {0, 1, 2 :: int}" by auto
  ultimately show ?thesis
    using assms(2)
    by (simp add: Daemonize_def Let_def open_null_def lowest_free_small insert_commute)
qed

theorem Daemonize_detaches_witness:
  "Daemonize \<lparr>dm_fork = 0, dm_setsid = 7, dm_open_max = 1024, dm_null = True\<rparr> process_init = Inr
    \<lparr>pr_leader = True, pr_ignored = {SIGHUP, SIGCHLD}, pr_open = {0, 1, 2}, pr_streams = [Some 0, Some 1, Some 2]\<rparr>"
  by (subst Daemonize_detaches) (auto simp: process_init_def)

end
