(* ===== verification/ProxyMain.thy ===== *)
theory ProxyMain
  imports SocketManager ConfigParser Logging Daemon
begin

text \<open>
  \<open>main.cpp\<close>: the configuration of the singletons from the file, and the start of the proxy.
  \<open>settings\<close> holds the globals of \<open>main.cpp\<close> and the singletons that \<open>DoConfig\<close> fills, and
  the process that \<open>Daemonize\<close> detaches. A \<open>const auto\<close> copy of a section is a value; a
  reference that is only read is the entry.
\<close>

section \<open>DoConfig\<close>

record settings =
  g_serverPort :: u16
  g_authEnabled :: bool
  st_process :: process
  st_log :: log_state
  st_lists :: blacklist_list
  st_auth :: auth_manager
  st_policies :: policy_list

definition settings_init :: "string list \<Rightarrow> settings" where
  "settings_init old = \<lparr>g_serverPort = 10080, g_authEnabled = False, st_process = process_init,
     st_log = log_init old, st_lists = [], st_auth = AuthManager_new, st_policies = []\<rparr>"

text \<open>
  \<open>std::stoul\<close>: white space, a sign, digits; a minus negates modulo \<open>2^64\<close>. Without digits, and
  for a number of more than 64 bits, it throws.
\<close>

definition stoul :: "string \<Rightarrow> u64 res" where
  "stoul s =
     (let r = dropWhile isspace (cstr s);
          (neg, r) = (case r of
             c # cs \<Rightarrow> if c = CHR ''-'' then (True, cs)
                       else if c = CHR ''+'' then (False, cs) else (False, r)
           | [] \<Rightarrow> (False, r));
          ds = takeWhile isdigit r
      in if ds = [] then Inl Uncaught
         else if 2 ^ 64 \<le> read_dec ds then Inl Uncaught
         else Inr (if neg then - of_nat (read_dec ds) else of_nat (read_dec ds)))"

abbreviation attr_value :: "string \<Rightarrow> config_section \<Rightarrow> string" where
  "attr_value name s \<equiv> MultiValueAttribute_GetValue (ConfigSection_ReadAttribute name s)"

definition set_verbosity :: "string \<Rightarrow> log_state \<Rightarrow> log_state" where
  "set_verbosity v l =
     (if v \<noteq> [] then
        if v = ''debug'' then LogSetVerbosity Debug l
        else if v = ''info'' then LogSetVerbosity Info l
        else if v = ''warn'' then LogSetVerbosity Warn l
        else if v = ''error'' then LogSetVerbosity Error l
        else l
      else l)"

definition set_port :: "string \<Rightarrow> settings \<Rightarrow> settings res" where
  "set_port v st =
     (if v \<noteq> [] then bind_res (stoul v) (\<lambda>n. Inr (st\<lparr>g_serverPort := ucast n\<rparr>)) else Inr st)"

definition load_domain ::
  "(string \<Rightarrow> string option) \<Rightarrow> attribute \<Rightarrow> blacklist_list \<Rightarrow> blacklist_list res" where
  "load_domain fs attr bs =
     (let (domain, ok) = Blacklist_LoadFromFile fs (MultiValueAttribute_GetValue attr)
            (Blacklist_new (MultiValueAttribute_GetName attr))
      in Inr (if ok then BlacklistList_AddList domain bs else bs))"

definition add_known_domain :: "blacklist_list \<Rightarrow> string \<Rightarrow> user_policy \<Rightarrow> user_policy res" where
  "add_known_domain bs domain p =
     Inr (if BlacklistList_HasList bs domain then UserPolicy_AddDomain domain p else p)"

definition dayStrings :: "string list" where
  "dayStrings = [''sun'', ''mon'', ''tue'', ''wed'', ''thr'', ''fri'', ''sat'']"

definition set_day :: "string \<Rightarrow> config_section \<Rightarrow> string \<Rightarrow> auth_manager \<Rightarrow> auth_manager res" where
  "set_day name policyConfig day am =
     (if attr_value day policyConfig \<noteq> []
      then bind_res (AuthManager_SetWeeklyAccess name day (attr_value day policyConfig) am)
             (\<lambda>(am, _). Inr am)
      else Inr am)"

definition configure_user ::
  "attribute \<Rightarrow> config_data \<times> settings \<Rightarrow> (config_data \<times> settings) res" where
  "configure_user attr cs =
     (let (config, st) = cs;
          name = MultiValueAttribute_GetName attr;
          am = AuthManager_AddUser name (MultiValueAttribute_GetValue attr) (st_auth st);
          (policyConfig, config) = ConfigFile_GetSection name config
      in bind_res (each (MultiValueAttribute_GetValueAt (ConfigSection_ReadAttribute ''domains'' policyConfig))
           (add_known_domain (st_lists st)) (UserPolicy_new name)) (\<lambda>policy.
         bind_res (each (MultiValueAttribute_GetValueAt (ConfigSection_ReadAttribute ''ip_list'' policyConfig))
           (\<lambda>ip am. Inr (AuthManager_AddUserIp name ip am)) am) (\<lambda>am.
         let am = (if attr_value ''audit'' policyConfig = ''enabled''
                   then AuthManager_SetAudit name True am else am)
         in bind_res (if attr_value ''time_based_policy'' policyConfig = ''enabled''
                      then fold_res (set_day name policyConfig) dayStrings am else Inr am) (\<lambda>am.
              Inr (config, st\<lparr>st_auth := am,
                st_policies := UserPolicyList_AddPolicy policy (st_policies st)\<rparr>)))))"

definition configure_users :: "config_data \<Rightarrow> settings \<Rightarrow> settings res" where
  "configure_users config st =
     (let st = st\<lparr>st_auth := AuthManager_SetEnabled True (st_auth st)\<rparr>;
          (authData, config) = ConfigFile_GetSection ''UserAuth'' config
      in bind_res (each (ConfigSection_GetAttributeAt authData) configure_user (config, st))
           (\<lambda>(config, st). Inr st))"

definition add_global_policy :: "config_section \<Rightarrow> settings \<Rightarrow> settings res" where
  "add_global_policy proxyConfig st =
     bind_res (each (MultiValueAttribute_GetValueAt (ConfigSection_ReadAttribute ''global_domains'' proxyConfig))
         (\<lambda>d p. Inr (UserPolicy_AddDomain d p)) (UserPolicy_new ''<global>''))
       (\<lambda>p. Inr (st\<lparr>st_policies := UserPolicyList_AddPolicy p (st_policies st)\<rparr>))"

definition set_daemon :: "daemon_env \<Rightarrow> string \<Rightarrow> settings \<Rightarrow> settings res" where
  "set_daemon dm v st =
     (if v = ''enabled'' then bind_res (Daemonize dm (st_process st)) (\<lambda>p. Inr (st\<lparr>st_process := p\<rparr>))
      else Inr st)"

definition DoConfig ::
  "daemon_env \<Rightarrow> (nat \<Rightarrow> string \<times> string) \<Rightarrow> (string \<Rightarrow> string option) \<Rightarrow> string \<Rightarrow> settings \<Rightarrow> settings res" where
  "DoConfig dm junk fs filename st =
     bind_res (ConfigFile_LoadData junk fs filename ConfigData_new) (\<lambda>config.
       let (proxyConfig, config) = ConfigFile_GetSection ''Proxy'' config
       in bind_res (set_daemon dm (attr_value ''daemon_mode'' proxyConfig) st) (\<lambda>st.
       let st = st\<lparr>st_log := set_verbosity (attr_value ''log_verbosity'' proxyConfig) (st_log st)\<rparr>;
           st = (if attr_value ''log_to_file'' proxyConfig = ''enabled''
                 then st\<lparr>st_log := LogStoreToDisk True (st_log st)\<rparr> else st)
       in bind_res (set_port (attr_value ''port'' proxyConfig) st) (\<lambda>st.
         let st = (if attr_value ''auth'' proxyConfig = ''enabled'' then st\<lparr>g_authEnabled := True\<rparr> else st);
             (domainConfig, config) = ConfigFile_GetSection ''DomainFiles'' config
         in bind_res (each (ConfigSection_GetAttributeAt domainConfig) (load_domain fs) (st_lists st)) (\<lambda>bs.
           let st = st\<lparr>st_lists := bs\<rparr>
           in bind_res (if g_authEnabled st then configure_users config st else Inr st)
                (add_global_policy proxyConfig)))))"

section \<open>Names in the data are distinct\<close>

definition keyed_section :: "config_section \<Rightarrow> bool" where
  "keyed_section s \<longleftrightarrow> distinct (map at_name (cs_attributes s))"

definition keyed_config :: "config_data \<Rightarrow> bool" where
  "keyed_config d \<longleftrightarrow> distinct (map cs_name (cd_sections d)) \<and> (\<forall>s\<in>set (cd_sections d). keyed_section s)"

lemma keyed_section_new [simp]: "keyed_section (ConfigSection_new n)"
  by (simp add: keyed_section_def ConfigSection_new_def)

lemma keyed_GetAttribute:
  assumes "keyed_section s" and "\<And>a. at_name (f a) = at_name a"
  shows "keyed_section (ConfigSection_GetAttribute n f s)"
  using assms attrs.distinct_keys_upsert [of f "cs_attributes s" n]
  by (simp add: keyed_section_def ConfigSection_GetAttribute_def)

lemma keyed_AddSection:
  assumes "keyed_config d" and "\<And>s. cs_name (f s) = cs_name s" and "\<And>s. keyed_section s \<Longrightarrow> keyed_section (f s)"
  shows "keyed_config (ConfigData_AddSection n f d)"
  using assms sections.distinct_keys_upsert [of f "cd_sections d" n]
    set_upsert [of cs_name ConfigSection_new n f "cd_sections d"]
  by (auto simp: keyed_config_def ConfigData_AddSection_def)

lemma keyed_add_entry: "keyed_config d \<Longrightarrow> keyed_config (add_entry sec k v d)"
  by (simp add: add_entry_def FindSection_upsert keyed_AddSection keyed_GetAttribute)

lemma keyed_value_loop:
  "keyed_config d \<Longrightarrow> value_loop sec k v t d = Inr d' \<Longrightarrow> keyed_config d'"
proof (induction sec k v t d arbitrary: d' rule: value_loop.induct)
  case (1 sec k v t d)
  from 1(3) show ?case
    by (subst (asm) value_loop.simps)
       (auto simp: bind_res_eq_Inr split: option.splits intro: 1(1) keyed_add_entry [OF 1(2)])
qed

lemma keyed_load_line:
  "keyed_config d \<Longrightarrow> load_line junk l sec d = Inr (stop, sec', d') \<Longrightarrow> keyed_config d'"
  by (auto simp: load_line_def Let_def bind_res_eq_Inr keyed_AddSection
      split: option.splits if_splits intro: keyed_value_loop)

lemma keyed_load_lines:
  "keyed_config d \<Longrightarrow> load_lines junk n ls sec d = Inr d' \<Longrightarrow> keyed_config d'"
  by (induction junk n ls sec d rule: load_lines.induct)
     (auto simp: bind_res_eq_Inr split: if_splits dest: keyed_load_line)

lemma keyed_LoadData:
  "ConfigFile_LoadData junk fs path ConfigData_new = Inr d \<Longrightarrow> keyed_config d"
  by (auto simp: ConfigFile_LoadData_def split: option.splits
      dest!: keyed_load_lines [rotated] simp: keyed_config_def ConfigData_new_def)

lemma keyed_GetSection: "keyed_config d \<Longrightarrow> keyed_section (fst (ConfigFile_GetSection n d))"
  by (auto simp: GetSection_eq keyed_config_def split: option.split dest: find_first_Some)

text \<open>Asking for a section, which creates it when it is missing, changes no answer.\<close>

lemma GetSection_stable:
  "fst (ConfigFile_GetSection n (snd (ConfigFile_GetSection m d))) = fst (ConfigFile_GetSection n d)"
proof -
  have "cd_sections (snd (ConfigFile_GetSection m d)) =
      upsert cs_name ConfigSection_new m (\<lambda>s. s) (cd_sections d)"
    by (simp add: ConfigFile_GetSection_def Let_def FindSection_upsert ConfigData_AddSection_def)
  then show ?thesis
    using sections.lookup_upsert_other [of "\<lambda>s. s" n m "cd_sections d"]
    by (cases "n = m")
       (simp_all add: GetSection_eq sections.lookup_upsert_same split: option.split)
qed

section \<open>What a configuration means\<close>

text \<open>The settings a configuration describes, entry by entry, without loops or state.\<close>

definition section_of :: "string \<Rightarrow> config_data \<Rightarrow> config_section" where
  "section_of n d =
     (case find_first (\<lambda>s. cs_name s = n) (cd_sections d) of Some s \<Rightarrow> s | None \<Rightarrow> ConfigSection_new n)"

abbreviation enabled :: "string \<Rightarrow> config_section \<Rightarrow> bool" where
  "enabled n s \<equiv> attr_value n s = ''enabled''"

definition port_of :: "string \<Rightarrow> u16 res" where
  "port_of v = (if v = [] then Inr 10080 else map_sum id ucast (stoul v))"

definition log_of :: "string list \<Rightarrow> config_section \<Rightarrow> log_state" where
  "log_of old p = (let l = set_verbosity (attr_value ''log_verbosity'' p) (log_init old)
     in l\<lparr>m_toFile := enabled ''log_to_file'' p\<rparr>)"

definition list_of :: "(string \<Rightarrow> string option) \<Rightarrow> attribute \<Rightarrow> blacklist list" where
  "list_of fs a = (case fs (MultiValueAttribute_GetValue a) of None \<Rightarrow> []
     | Some content \<Rightarrow> [\<lparr>bl_name = at_name a, bl_hosts = line_host ` set (getlines content)\<rparr>])"

definition lists_of :: "(string \<Rightarrow> string option) \<Rightarrow> config_section \<Rightarrow> blacklist_list" where
  "lists_of fs s = concat (map (list_of fs) (cs_attributes s))"

definition day_of :: "string \<Rightarrow> time_map" where
  "day_of s = (if length s = 48 then \<lparr>accessIntervals = map (\<lambda>c. c \<noteq> CHR ''x'' \<and> c \<noteq> CHR ''X'') s\<rparr>
     else TimeMap_new)"

definition week_of :: "config_section \<Rightarrow> weekly_access" where
  "week_of s = \<lparr>accessMap = map (\<lambda>d. day_of (if enabled ''time_based_policy'' s then attr_value d s else []))
     dayStrings\<rparr>"

definition user_of :: "config_data \<Rightarrow> attribute \<Rightarrow> user" where
  "user_of d a = (let s = section_of (at_name a) d in
     \<lparr>u_name = at_name a, u_password = MultiValueAttribute_GetValue a,
      u_ipList = at_values (ConfigSection_ReadAttribute ''ip_list'' s), u_weekly = week_of s,
      u_audit = enabled ''audit'' s\<rparr>)"

definition policy_of :: "blacklist_list \<Rightarrow> config_data \<Rightarrow> attribute \<Rightarrow> user_policy" where
  "policy_of bs d a = \<lparr>up_name = at_name a, up_domains = filter (\<lambda>x. x \<in> bl_name ` set bs)
     (at_values (ConfigSection_ReadAttribute ''domains'' (section_of (at_name a) d)))\<rparr>"

definition users_of :: "config_data \<Rightarrow> attribute list" where
  "users_of d = (if enabled ''auth'' (section_of ''Proxy'' d)
     then cs_attributes (section_of ''UserAuth'' d) else [])"

text \<open>The process after the configuration: detached when the file asks for it.\<close>

definition daemon_of :: "daemon_env \<Rightarrow> config_data \<Rightarrow> process res" where
  "daemon_of dm d =
     (if enabled ''daemon_mode'' (section_of ''Proxy'' d) then Daemonize dm process_init else Inr process_init)"

definition settings_of ::
  "string list \<Rightarrow> (string \<Rightarrow> string option) \<Rightarrow> config_data \<Rightarrow> process \<Rightarrow> u16 \<Rightarrow> settings" where
  "settings_of old fs d pr port =
     (let p = section_of ''Proxy'' d; bs = lists_of fs (section_of ''DomainFiles'' d) in
      \<lparr>g_serverPort = port, g_authEnabled = enabled ''auth'' p, st_process = pr,
       st_log = log_of old p, st_lists = bs,
       st_auth = \<lparr>am_users = map (user_of d) (users_of d), am_enabled = enabled ''auth'' p\<rparr>,
       st_policies = map (policy_of bs d) (users_of d) @
         [\<lparr>up_name = ''<global>'',
           up_domains = at_values (ConfigSection_ReadAttribute ''global_domains'' p)\<rparr>]\<rparr>)"

section \<open>The loops of DoConfig\<close>

lemma fst_GetSection: "fst (ConfigFile_GetSection n d) = section_of n d"
  by (simp add: GetSection_eq section_of_def)

lemma section_of_stable: "section_of n (snd (ConfigFile_GetSection m d)) = section_of n d"
  using GetSection_stable [of n m d] by (simp only: fst_GetSection)

lemma load_domain_eq: "load_domain fs a bs = Inr (bs @ list_of fs a)"
  by (simp add: load_domain_def list_of_def Blacklist_LoadFromFile_def fold_insert_line Blacklist_new_def
      BlacklistList_AddList_def split: option.split)

lemma load_domains: "each (ConfigSection_GetAttributeAt s) (load_domain fs) bs = Inr (bs @ lists_of fs s)"
proof -
  have "fold_res (load_domain fs) as bs = Inr (bs @ concat (map (list_of fs) as))" for as
    by (induction as arbitrary: bs) (simp_all add: load_domain_eq)
  then show ?thesis by (simp add: section_attrs.each_fold lists_of_def)
qed

lemma add_known_domains:
  "each (MultiValueAttribute_GetValueAt a) (add_known_domain bs) p =
     Inr (p\<lparr>up_domains := up_domains p @ filter (\<lambda>x. x \<in> bl_name ` set bs) (at_values a)\<rparr>)"
proof -
  have "fold_res (add_known_domain bs) ds p =
      Inr (p\<lparr>up_domains := up_domains p @ filter (\<lambda>x. x \<in> bl_name ` set bs) ds\<rparr>)" for ds
    by (induction ds arbitrary: p)
       (simp_all add: add_known_domain_def HasList_iff UserPolicy_AddDomain_def)
  then show ?thesis by (simp add: attr_values.each_fold)
qed

lemma add_domains:
  "each (MultiValueAttribute_GetValueAt a) (\<lambda>d p. Inr (UserPolicy_AddDomain d p)) p =
     Inr (p\<lparr>up_domains := up_domains p @ at_values a\<rparr>)"
proof -
  have "fold_res (\<lambda>d p. Inr (UserPolicy_AddDomain d p)) ds p = Inr (p\<lparr>up_domains := up_domains p @ ds\<rparr>)" for ds
    by (induction ds arbitrary: p) (simp_all add: UserPolicy_AddDomain_def)
  then show ?thesis by (simp add: attr_values.each_fold)
qed

text \<open>Operations on a user nobody else shares the name with, at the end of the list.\<close>

lemma for_user_last:
  assumes "u_name u \<notin> u_name ` set us"
  shows "for_user (u_name u) f (am\<lparr>am_users := us @ [u]\<rparr>) = am\<lparr>am_users := us @ [f u]\<rparr>"
proof -
  have "map (\<lambda>x. if u_name x = u_name u then f x else x) us = us"
    using assms by (induction us) auto
  then show ?thesis by (simp add: for_user_def)
qed

lemma add_ips:
  assumes "u_name u \<notin> u_name ` set us"
  shows "each (MultiValueAttribute_GetValueAt a) (\<lambda>ip am. Inr (AuthManager_AddUserIp (u_name u) ip am))
      (am\<lparr>am_users := us @ [u]\<rparr>) =
    Inr (am\<lparr>am_users := us @ [u\<lparr>u_ipList := u_ipList u @ at_values a\<rparr>]\<rparr>)"
proof -
  have "fold_res (\<lambda>ip am. Inr (AuthManager_AddUserIp n ip am)) ips (am\<lparr>am_users := us @ [u]\<rparr>) =
      Inr (am\<lparr>am_users := us @ [u\<lparr>u_ipList := u_ipList u @ ips\<rparr>]\<rparr>)"
    if "u_name u = n" "n \<notin> u_name ` set us" for ips n
    using that
  proof (induction ips arbitrary: u)
    case (Cons ip ips)
    then show ?case
      using for_user_last [of u us "User_AddIp ip" am] Cons.IH [of "User_AddIp ip u"]
      by (simp add: AuthManager_AddUserIp_def User_AddIp_def)
  qed simp
  from this [OF refl assms] show ?thesis by (simp add: attr_values.each_fold)
qed

lemma set_day_last:
  assumes "u_name u \<notin> u_name ` set us" and "day_index day = Some i"
  shows "set_day (u_name u) s day (am\<lparr>am_users := us @ [u]\<rparr>) =
    Inr (am\<lparr>am_users := us @ [u\<lparr>u_weekly := (u_weekly u)\<lparr>accessMap := (accessMap (u_weekly u))
      [nat i := fst (TimeMap_InitFromString (attr_value day s) (accessMap (u_weekly u) ! nat i))]\<rparr>\<rparr>]\<rparr>)"
proof (cases "attr_value day s = []")
  case True
  have "fst (TimeMap_InitFromString [] m) = m" for m
    by (simp add: TimeMap_InitFromString_def m_intervals_def MinutesToIntervals_def m_intervalTime_def)
  with True show ?thesis by (simp add: set_day_def)
next
  case False
  have "find_first (\<lambda>x. u_name x = u_name u) us = None"
    using assms(1) by (rule find_first_fresh)
  then have f: "find_first (\<lambda>x. u_name x = u_name u) (us @ [u]) = Some u"
    by (simp add: find_first_append)
  have upd: "update_first (\<lambda>x. u_name x = u_name u) g (us @ [u]) = us @ [g u]" for g
    using assms(1) by (induction us) auto
  have "0 \<le> i" "i < 7" using day_index_range [OF assms(2)] by simp_all
  from weekly_loop_hit [OF f assms(2) InitDay_valid [OF this]] False show ?thesis
    by (simp add: set_day_def AuthManager_SetWeeklyAccess_def upd)
qed

lemma InitFromString_new: "fst (TimeMap_InitFromString s TimeMap_new) = day_of s"
proof (cases "length s = 48")
  case True
  then show ?thesis by (simp add: InitFromString_ok day_of_def)
qed (simp add: InitFromString_bad day_of_def)

lemma set_week:
  assumes "u_name u \<notin> u_name ` set us" and "u_weekly u = WeeklyAccess_new"
  shows "fold_res (set_day (u_name u) s) dayStrings (am\<lparr>am_users := us @ [u]\<rparr>) =
    Inr (am\<lparr>am_users := us @ [u\<lparr>u_weekly := \<lparr>accessMap = map (\<lambda>d. day_of (attr_value d s)) dayStrings\<rparr>\<rparr>]\<rparr>)"
proof -
  have new: "WeeklyAccess_new = \<lparr>accessMap = [TimeMap_new, TimeMap_new, TimeMap_new, TimeMap_new,
      TimeMap_new, TimeMap_new, TimeMap_new]\<rparr>"
    by (simp add: WeeklyAccess_new_def m_days_def numeral_eq_Suc)
  have step: "set_day n s day (am\<lparr>am_users := us @ [v]\<rparr>) =
      Inr (am\<lparr>am_users := us @ [v\<lparr>u_weekly := (u_weekly v)\<lparr>accessMap := (accessMap (u_weekly v))
        [nat i := fst (TimeMap_InitFromString (attr_value day s) (accessMap (u_weekly v) ! nat i))]\<rparr>\<rparr>]\<rparr>)"
    if "u_name v = n" "n \<notin> u_name ` set us" "day_index day = Some i" for n v day i
    using set_day_last [of v us day i s am] that by simp
  show ?thesis
    using assms
    by (simp add: dayStrings_def step [where n = "u_name u"] day_index_def new InitFromString_new
        numeral_eq_Suc del: fst_conv)
qed

lemma week_of_disabled: "\<not> enabled ''time_based_policy'' s \<Longrightarrow> week_of s = WeeklyAccess_new"
  by (simp add: week_of_def dayStrings_def day_of_def WeeklyAccess_new_def m_days_def numeral_eq_Suc)

lemma SetAudit_last:
  assumes "u_name u \<notin> u_name ` set us"
  shows "AuthManager_SetAudit (u_name u) b (am\<lparr>am_users := us @ [u]\<rparr>) =
    am\<lparr>am_users := us @ [u\<lparr>u_audit := b\<rparr>]\<rparr>"
  using for_user_last [OF assms, of "User_SetAudit b" am]
  by (simp add: AuthManager_SetAudit_def User_SetAudit_def)

text \<open>The audit flag and the week of the new user.\<close>

lemma configure_last:
  assumes "u_name u \<notin> u_name ` set us" and "u_weekly u = WeeklyAccess_new" and "\<not> u_audit u"
  shows "(let am' = (if enabled ''audit'' s then AuthManager_SetAudit (u_name u) True (am\<lparr>am_users := us @ [u]\<rparr>)
                     else am\<lparr>am_users := us @ [u]\<rparr>)
      in if enabled ''time_based_policy'' s then fold_res (set_day (u_name u) s) dayStrings am' else Inr am') =
    Inr (am\<lparr>am_users := us @ [u\<lparr>u_audit := enabled ''audit'' s, u_weekly := week_of s\<rparr>]\<rparr>)"
proof -
  let ?u = "u\<lparr>u_audit := enabled ''audit'' s\<rparr>"
  have "(if enabled ''audit'' s then AuthManager_SetAudit (u_name u) True (am\<lparr>am_users := us @ [u]\<rparr>)
      else am\<lparr>am_users := us @ [u]\<rparr>) = am\<lparr>am_users := us @ [?u]\<rparr>"
    using SetAudit_last [OF assms(1)] assms(3) by (cases u) simp
  moreover have "fold_res (set_day (u_name u) s) dayStrings (am\<lparr>am_users := us @ [?u]\<rparr>) =
      Inr (am\<lparr>am_users := us @ [?u\<lparr>u_weekly := week_of s\<rparr>]\<rparr>)" if "enabled ''time_based_policy'' s"
    using set_week [of ?u us s am] assms that by (simp add: week_of_def)
  moreover have "?u = ?u\<lparr>u_weekly := week_of s\<rparr>" if "\<not> enabled ''time_based_policy'' s"
    using assms(2) that by (cases u) (simp add: week_of_disabled)
  ultimately show ?thesis by (simp add: Let_def)
qed

lemma configure_user_eq:
  assumes "at_name a \<notin> u_name ` set (am_users (st_auth st))"
  shows "configure_user a (d, st) = Inr (snd (ConfigFile_GetSection (at_name a) d),
    st\<lparr>st_auth := (st_auth st)\<lparr>am_users := am_users (st_auth st) @ [user_of d a]\<rparr>,
       st_policies := st_policies st @ [policy_of (st_lists st) d a]\<rparr>)"
proof -
  let ?s = "section_of (at_name a) d" let ?am = "st_auth st"
  obtain d' where g: "ConfigFile_GetSection (at_name a) d = (?s, d')"
    using fst_GetSection [of "at_name a" d] by (metis prod.collapse)
  let ?u = "User_new (at_name a) (MultiValueAttribute_GetValue a)"
  let ?v = "?u\<lparr>u_ipList := at_values (ConfigSection_ReadAttribute ''ip_list'' ?s)\<rparr>"
  have u: "u_name ?u = at_name a" "u_weekly ?u = WeeklyAccess_new" "\<not> u_audit ?u" "u_ipList ?u = []"
    by (simp_all add: User_new_def)
  have ips: "each (MultiValueAttribute_GetValueAt (ConfigSection_ReadAttribute ''ip_list'' ?s))
      (\<lambda>ip am. Inr (AuthManager_AddUserIp (at_name a) ip am))
      (AuthManager_AddUser (at_name a) (MultiValueAttribute_GetValue a) ?am) =
      Inr (?am\<lparr>am_users := am_users ?am @ [?v]\<rparr>)"
    using add_ips [of ?u "am_users ?am" "ConfigSection_ReadAttribute ''ip_list'' ?s" ?am] assms u
    by (simp add: AuthManager_AddUser_def)
  have v: "u_name ?v = at_name a" using u by simp
  have last: "(let am' = (if enabled ''audit'' ?s
        then AuthManager_SetAudit (at_name a) True (?am\<lparr>am_users := am_users ?am @ [?v]\<rparr>)
        else ?am\<lparr>am_users := am_users ?am @ [?v]\<rparr>)
      in if enabled ''time_based_policy'' ?s then fold_res (set_day (at_name a) ?s) dayStrings am' else Inr am') =
      Inr (?am\<lparr>am_users := am_users ?am @ [?v\<lparr>u_audit := enabled ''audit'' ?s, u_weekly := week_of ?s\<rparr>]\<rparr>)"
    using configure_last [of ?v "am_users ?am" ?s ?am, unfolded v] assms u by simp_all
  have "?v\<lparr>u_audit := enabled ''audit'' ?s, u_weekly := week_of ?s\<rparr> = user_of d a"
    by (simp add: user_of_def User_new_def Let_def)
  then show ?thesis
    using ips last
    by (cases "enabled ''audit'' ?s"; cases "enabled ''time_based_policy'' ?s")
       (simp_all add: configure_user_def g Let_def add_known_domains policy_of_def UserPolicy_new_def
          UserPolicyList_AddPolicy_def)
qed

lemma configure_users_fold:
  assumes "\<And>n. section_of n c = section_of n d" and "distinct (map at_name as)"
    and "\<forall>a\<in>set as. at_name a \<notin> u_name ` set (am_users (st_auth st))"
  shows "\<exists>c'. fold_res configure_user as (c, st) = Inr (c',
    st\<lparr>st_auth := (st_auth st)\<lparr>am_users := am_users (st_auth st) @ map (user_of d) as\<rparr>,
       st_policies := st_policies st @ map (policy_of (st_lists st) d) as\<rparr>)"
  using assms
proof (induction as arbitrary: c st)
  case (Cons a as)
  have eq: "user_of c a = user_of d a" "policy_of bs c a = policy_of bs d a" for bs
    by (simp_all add: user_of_def policy_of_def Cons.prems(1))
  have n: "u_name (user_of d a) = at_name a" by (simp add: user_of_def Let_def)
  let ?st = "st\<lparr>st_auth := (st_auth st)\<lparr>am_users := am_users (st_auth st) @ [user_of d a]\<rparr>,
       st_policies := st_policies st @ [policy_of (st_lists st) d a]\<rparr>"
  have "\<forall>b\<in>set as. at_name b \<notin> u_name ` set (am_users (st_auth ?st))"
    using Cons.prems(2,3) n by auto (metis imageI)
  with Cons.IH [of "snd (ConfigFile_GetSection (at_name a) c)" ?st] Cons.prems
  show ?case by (auto simp: configure_user_eq eq section_of_stable)
qed simp

section \<open>DoConfig implements the configuration\<close>

lemma set_port_eq:
  assumes "g_serverPort st = 10080"
  shows "set_port v st = bind_res (port_of v) (\<lambda>port. Inr (st\<lparr>g_serverPort := port\<rparr>))"
  using assms by (cases st; cases "stoul v") (auto simp: set_port_def port_of_def)

lemma set_log_eq:
  "(let l = set_verbosity (attr_value ''log_verbosity'' p) (log_init old)
    in if enabled ''log_to_file'' p then LogStoreToDisk True l else l) = log_of old p"
proof -
  have "m_toFile (set_verbosity v (log_init old)) = False" for v
    by (simp add: set_verbosity_def LogSetVerbosity_def log_init_def)
  moreover have "\<not> m_toFile l \<Longrightarrow> l\<lparr>m_toFile := False\<rparr> = l" for l :: log_state
    by (cases l) simp
  ultimately show ?thesis by (simp add: log_of_def Let_def LogStoreToDisk_def)
qed

lemma configure_users_eq:
  assumes "keyed_section (section_of ''UserAuth'' d)" and "\<And>n. section_of n c = section_of n d"
    and "am_users (st_auth st) = []"
  shows "configure_users c st = Inr (st\<lparr>st_auth := \<lparr>am_users = map (user_of d) (cs_attributes (section_of ''UserAuth'' d)),
      am_enabled = True\<rparr>,
    st_policies := st_policies st @ map (policy_of (st_lists st) d) (cs_attributes (section_of ''UserAuth'' d))\<rparr>)"
proof -
  let ?as = "cs_attributes (section_of ''UserAuth'' d)"
  let ?st = "st\<lparr>st_auth := AuthManager_SetEnabled True (st_auth st)\<rparr>"
  obtain c1 where g: "ConfigFile_GetSection ''UserAuth'' c = (section_of ''UserAuth'' d, c1)"
    using fst_GetSection [of "''UserAuth''" c] assms(2) by (metis prod.collapse)
  then have "\<And>n. section_of n c1 = section_of n d"
    using section_of_stable [of _ "''UserAuth''" c] assms(2) by simp
  moreover have "distinct (map at_name ?as)" using assms(1) by (simp add: keyed_section_def)
  moreover have "\<forall>a\<in>set ?as. at_name a \<notin> u_name ` set (am_users (st_auth ?st))"
    using assms(3) by (simp add: AuthManager_SetEnabled_def)
  ultimately obtain c' where "fold_res configure_user ?as (c1, ?st) = Inr (c', ?st\<lparr>st_auth :=
      (st_auth ?st)\<lparr>am_users := am_users (st_auth ?st) @ map (user_of d) ?as\<rparr>,
      st_policies := st_policies ?st @ map (policy_of (st_lists ?st) d) ?as\<rparr>)"
    using configure_users_fold [of c1 d ?as ?st] by blast
  then show ?thesis
    using assms(3) by (simp add: configure_users_def Let_def g section_attrs.each_fold AuthManager_SetEnabled_def)
qed

lemma add_global_policy_eq:
  "add_global_policy p st = Inr (st\<lparr>st_policies := st_policies st @ [\<lparr>up_name = ''<global>'',
     up_domains = at_values (ConfigSection_ReadAttribute ''global_domains'' p)\<rparr>]\<rparr>)"
  by (simp add: add_global_policy_def add_domains UserPolicy_new_def UserPolicyList_AddPolicy_def)

lemma DoConfig_eq:
  assumes "ConfigFile_LoadData junk fs filename ConfigData_new = Inr d"
  shows "DoConfig dm junk fs filename (settings_init old) =
    bind_res (daemon_of dm d) (\<lambda>pr. bind_res (port_of (attr_value ''port'' (section_of ''Proxy'' d)))
      (\<lambda>port. Inr (settings_of old fs d pr port)))"
proof -
  let ?p = "section_of ''Proxy'' d"
  obtain c1 where g1: "ConfigFile_GetSection ''Proxy'' d = (?p, c1)"
    using fst_GetSection [of "''Proxy''" d] by (metis prod.collapse)
  then have s1: "\<And>n. section_of n c1 = section_of n d" using section_of_stable [of _ "''Proxy''" d] by simp
  obtain c2 where g2: "ConfigFile_GetSection ''DomainFiles'' c1 = (section_of ''DomainFiles'' d, c2)"
    using fst_GetSection [of "''DomainFiles''" c1] s1 by (metis prod.collapse)
  then have s2: "\<And>n. section_of n c2 = section_of n d"
    using section_of_stable [of _ "''DomainFiles''" c1] s1 by simp
  have k: "keyed_section (section_of ''UserAuth'' d)"
    using keyed_GetSection [OF keyed_LoadData [OF assms], of "''UserAuth''"] by (simp add: fst_GetSection)
  let ?st = "\<lambda>pr. \<lparr>g_serverPort = 10080, g_authEnabled = False, st_process = pr,
    st_log = log_of old ?p, st_lists = [], st_auth = AuthManager_new, st_policies = []\<rparr>"
  have daemon: "set_daemon dm (attr_value ''daemon_mode'' ?p) (settings_init old) =
      bind_res (daemon_of dm d) (\<lambda>pr. Inr ((settings_init old)\<lparr>st_process := pr\<rparr>))"
    by (simp add: set_daemon_def daemon_of_def settings_init_def)
  let ?logged = "\<lambda>pr. let st = (settings_init old)\<lparr>st_process := pr\<rparr>;
        st = st\<lparr>st_log := set_verbosity (attr_value ''log_verbosity'' ?p) (st_log st)\<rparr>
      in if enabled ''log_to_file'' ?p then st\<lparr>st_log := LogStoreToDisk True (st_log st)\<rparr> else st"
  have log: "?logged pr = ?st pr" for pr
    using set_log_eq [of ?p old]
    by (cases "enabled ''log_to_file'' ?p") (simp_all add: settings_init_def Let_def)
  have start: "DoConfig dm junk fs filename (settings_init old) =
      bind_res (daemon_of dm d) (\<lambda>pr. bind_res (set_port (attr_value ''port'' ?p) (?st pr)) (\<lambda>st.
        let st = (if enabled ''auth'' ?p then st\<lparr>g_authEnabled := True\<rparr> else st);
            st = st\<lparr>st_lists := st_lists st @ lists_of fs (section_of ''DomainFiles'' d)\<rparr>
        in bind_res (if g_authEnabled st then configure_users c2 st else Inr st) (add_global_policy ?p)))"
    by (simp only: DoConfig_def assms g1 bind_res.simps Let_def prod.case daemon bind_res_assoc log [unfolded Let_def])
       (simp add: g2 load_domains Let_def)
  show ?thesis
    using configure_users_eq [OF k s2]
    by (cases "enabled ''auth'' ?p"; cases "daemon_of dm d")
       (simp_all add: start set_port_eq bind_res_assoc add_global_policy_eq Let_def AuthManager_new_def
          settings_of_def users_of_def)
qed

text \<open>
  C11: Loading the configuration. When the file is read without a fault, \<open>DoConfig\<close> makes exactly
  the settings the configuration describes entry by entry: the users with their passwords,
  addresses, weeks and audit flags, the blacklists of the files that can be opened, a policy for
  each user of the known domains listed for it, and the global policy of all global domains. All
  loops end. With \<open>daemon_mode\<close> the process is detached first, and the parent leaves here; otherwise
  the only failure is the exception for a port that is not a number of 64 bits.
\<close>

theorem DoConfig_means:
  assumes "ConfigFile_LoadData junk fs filename ConfigData_new = Inr d"
  shows "DoConfig dm junk fs filename (settings_init old) =
    bind_res (daemon_of dm d) (\<lambda>pr. bind_res (port_of (attr_value ''port'' (section_of ''Proxy'' d)))
      (\<lambda>port. Inr (settings_of old fs d pr port)))"
  using assms by (rule DoConfig_eq)

definition example_daemon :: daemon_env where
  "example_daemon = \<lparr>dm_fork = 0, dm_setsid = 7, dm_open_max = 1024, dm_null = True\<rparr>"

text \<open>A small configuration: two lists, one of which cannot be opened, and a user who names both.\<close>

definition example_data :: config_data where
  "example_data = \<lparr>cd_sections =
     [\<lparr>cs_name = ''Proxy'', cs_attributes = [\<lparr>at_name = ''port'', at_values = [''81'']\<rparr>,
        \<lparr>at_name = ''auth'', at_values = [''enabled'']\<rparr>, \<lparr>at_name = ''global_domains'', at_values = [''ads'']\<rparr>]\<rparr>,
      \<lparr>cs_name = ''DomainFiles'', cs_attributes = [\<lparr>at_name = ''ads'', at_values = [''ads.list'']\<rparr>,
        \<lparr>at_name = ''games'', at_values = [''games.list'']\<rparr>]\<rparr>,
      \<lparr>cs_name = ''UserAuth'', cs_attributes = [\<lparr>at_name = ''kid'', at_values = [''pw'']\<rparr>]\<rparr>,
      \<lparr>cs_name = ''kid'', cs_attributes = [\<lparr>at_name = ''domains'', at_values = [''games'', ''ads'']\<rparr>,
        \<lparr>at_name = ''audit'', at_values = [''enabled'']\<rparr>]\<rparr>]\<rparr>"

definition example_fs :: "string \<Rightarrow> string option" where
  "example_fs p = (if p = ''n.conf'' then Some (render_config example_data)
     else if p = ''ads.list'' then Some (''ads.example'' @ [CR, LF]) else None)"

lemma example_LoadData:
  "ConfigFile_LoadData junk example_fs ''n.conf'' ConfigData_new = Inr example_data"
proof -
  have "wf_config example_data"
    by (simp add: example_data_def wf_config_def wf_section_def wf_attribute_def plain_word_def is_token_def
        isspace_def)
  then show ?thesis
    using load_lines_config [of "cd_sections example_data" ConfigData_new junk 0 "[]" "[]"]
    by (auto simp: ConfigFile_LoadData_def example_fs_def render_config_def wf_config_def ConfigData_new_def)
qed

lemma example_sections:
  "section_of ''Proxy'' example_data = \<lparr>cs_name = ''Proxy'', cs_attributes =
     [\<lparr>at_name = ''port'', at_values = [''81'']\<rparr>, \<lparr>at_name = ''auth'', at_values = [''enabled'']\<rparr>,
      \<lparr>at_name = ''global_domains'', at_values = [''ads'']\<rparr>]\<rparr>"
  "section_of ''DomainFiles'' example_data = \<lparr>cs_name = ''DomainFiles'', cs_attributes =
     [\<lparr>at_name = ''ads'', at_values = [''ads.list'']\<rparr>, \<lparr>at_name = ''games'', at_values = [''games.list'']\<rparr>]\<rparr>"
  "section_of ''UserAuth'' example_data =
     \<lparr>cs_name = ''UserAuth'', cs_attributes = [\<lparr>at_name = ''kid'', at_values = [''pw'']\<rparr>]\<rparr>"
  "section_of ''kid'' example_data = \<lparr>cs_name = ''kid'', cs_attributes =
     [\<lparr>at_name = ''domains'', at_values = [''games'', ''ads'']\<rparr>, \<lparr>at_name = ''audit'', at_values = [''enabled'']\<rparr>]\<rparr>"
  by (simp_all add: section_of_def example_data_def)

lemma example_hosts: "line_host ` set (getlines (''ads.example'' @ [CR, LF])) = {''ads.example''}"
proof -
  have "getlines (''ads.example'' @ [CR, LF]) = [''ads.example'' @ [CR, LF]]"
    "line_host (''ads.example'' @ [CR, LF]) = ''ads.example''" by code_simp+
  then show ?thesis by simp
qed

lemma example_values:
  "attr_value ''port'' (section_of ''Proxy'' example_data) = ''81''"
  "enabled ''auth'' (section_of ''Proxy'' example_data)"
  "daemon_of dm example_data = Inr process_init"
  "at_values (ConfigSection_ReadAttribute ''global_domains'' (section_of ''Proxy'' example_data)) = [''ads'']"
  "at_values (ConfigSection_ReadAttribute ''domains'' (section_of ''kid'' example_data)) = [''games'', ''ads'']"
  by (simp_all add: daemon_of_def example_sections ReadAttribute_eq MultiValueAttribute_GetValue_def
      MultiValueAttribute_new_def)

lemma example_users: "users_of example_data = [\<lparr>at_name = ''kid'', at_values = [''pw'']\<rparr>]"
  by (simp add: users_of_def example_values) (simp add: example_sections)

lemma example_lists:
  "lists_of example_fs (section_of ''DomainFiles'' example_data) = [\<lparr>bl_name = ''ads'', bl_hosts = {''ads.example''}\<rparr>]"
proof -
  have a: "cs_attributes (section_of ''DomainFiles'' example_data) =
      [\<lparr>at_name = ''ads'', at_values = [''ads.list'']\<rparr>, \<lparr>at_name = ''games'', at_values = [''games.list'']\<rparr>]"
    by (simp add: example_sections)
  have "example_fs ''ads.list'' = Some (''ads.example'' @ [CR, LF])" "example_fs ''games.list'' = None"
    by (simp_all add: example_fs_def)
  then show ?thesis
    using example_hosts by (simp add: lists_of_def a list_of_def MultiValueAttribute_GetValue_def del: append.simps)
qed

theorem DoConfig_means_witness:
  "\<exists>st. DoConfig example_daemon (\<lambda>_. ([], [])) example_fs ''n.conf'' (settings_init []) = Inr st \<and>
    g_serverPort st = 81 \<and> st_lists st = [\<lparr>bl_name = ''ads'', bl_hosts = {''ads.example''}\<rparr>] \<and>
    st_policies st = [\<lparr>up_name = ''kid'', up_domains = [''ads'']\<rparr>, \<lparr>up_name = ''<global>'', up_domains = [''ads'']\<rparr>] \<and>
    map u_name (am_users (st_auth st)) = [''kid'']"
proof -
  have "stoul ''81'' = Inr 81" by (simp add: stoul_def cstr_def isspace_def isdigit_def read_dec_def)
  then have "port_of ''81'' = Inr 81" by (simp add: port_of_def)
  then show ?thesis
    by (simp add: DoConfig_means [OF example_LoadData] example_values settings_of_def Let_def example_lists
        policy_of_def user_of_def example_users)
qed

section \<open>From the file to a decision\<close>

text \<open>The hosts of a domain: those of the file named for it, when the file can be opened.\<close>

definition blocked_hosts :: "(string \<Rightarrow> string option) \<Rightarrow> config_data \<Rightarrow> string \<Rightarrow> string set option" where
  "blocked_hosts fs d x =
     (case find_first (\<lambda>a. at_name a = x) (cs_attributes (section_of ''DomainFiles'' d)) of
        None \<Rightarrow> None
      | Some a \<Rightarrow> map_option (\<lambda>content. line_host ` set (getlines content)) (fs (MultiValueAttribute_GetValue a)))"

text \<open>
  What the configuration permits: a user's domain without a list is ignored, a global one
  without a list blocks everything.
\<close>

definition permitted :: "(string \<Rightarrow> string option) \<Rightarrow> config_data \<Rightarrow> string \<Rightarrow> string \<Rightarrow> bool" where
  "permitted fs d user host \<longleftrightarrow>
     (if user \<in> at_name ` set (users_of d)
      then list_all (\<lambda>x. case blocked_hosts fs d x of None \<Rightarrow> True | Some H \<Rightarrow> host \<notin> H)
             (at_values (ConfigSection_ReadAttribute ''domains'' (section_of user d))) else True) \<and>
     list_all (\<lambda>x. case blocked_hosts fs d x of None \<Rightarrow> False | Some H \<Rightarrow> host \<notin> H)
       (at_values (ConfigSection_ReadAttribute ''global_domains'' (section_of ''Proxy'' d)))"

lemma find_lists_of:
  assumes "keyed_section s"
  shows "find_first (\<lambda>b. bl_name b = x) (lists_of fs s) =
    (case find_first (\<lambda>a. at_name a = x) (cs_attributes s) of
       None \<Rightarrow> None
     | Some a \<Rightarrow> map_option (\<lambda>content. \<lparr>bl_name = x, bl_hosts = line_host ` set (getlines content)\<rparr>)
         (fs (MultiValueAttribute_GetValue a)))"
proof -
  have names: "bl_name ` set (concat (map (list_of fs) as)) \<subseteq> at_name ` set as" for as
    by (induction as) (auto simp: list_of_def split: option.splits)
  have "distinct (map at_name as) \<Longrightarrow> find_first (\<lambda>b. bl_name b = x) (concat (map (list_of fs) as)) =
    (case find_first (\<lambda>a. at_name a = x) as of
       None \<Rightarrow> None
     | Some a \<Rightarrow> map_option (\<lambda>content. \<lparr>bl_name = x, bl_hosts = line_host ` set (getlines content)\<rparr>)
         (fs (MultiValueAttribute_GetValue a)))" for as
  proof (induction as)
    case (Cons a as)
    have n: "find_first (\<lambda>b. bl_name b = x) (concat (map (list_of fs) as)) = None" if "at_name a = x"
      using names [of as] Cons.prems that by (intro find_first_fresh) auto
    show ?case
      using Cons n list_of_def [of fs a]
      by (cases "at_name a = x"; cases "fs (MultiValueAttribute_GetValue a)") simp_all
  qed simp
  with assms show ?thesis by (simp add: lists_of_def keyed_section_def)
qed

lemma blocked_by_lists:
  assumes "keyed_section (section_of ''DomainFiles'' d)"
  shows "blocked_by (lists_of fs (section_of ''DomainFiles'' d)) x host =
      (case blocked_hosts fs d x of None \<Rightarrow> True | Some H \<Rightarrow> host \<in> H)"
    and "x \<in> bl_name ` set (lists_of fs (section_of ''DomainFiles'' d)) \<longleftrightarrow> blocked_hosts fs d x \<noteq> None"
proof -
  let ?bs = "lists_of fs (section_of ''DomainFiles'' d)"
  have f: "find_first (\<lambda>b. bl_name b = x) ?bs =
      map_option (\<lambda>H. \<lparr>bl_name = x, bl_hosts = H\<rparr>) (blocked_hosts fs d x)"
    by (simp add: find_lists_of [OF assms] blocked_hosts_def option.map_comp comp_def split: option.split)
  then show "blocked_by ?bs x host = (case blocked_hosts fs d x of None \<Rightarrow> True | Some H \<Rightarrow> host \<in> H)"
    by (simp add: blocked_by_def split: option.split)
  have "x \<in> bl_name ` set ?bs \<longleftrightarrow> find_first (\<lambda>b. bl_name b = x) ?bs \<noteq> None"
    by (auto simp: find_first_None)
  with f show "x \<in> bl_name ` set ?bs \<longleftrightarrow> blocked_hosts fs d x \<noteq> None" by simp
qed

lemma domains_of_policies:
  assumes "distinct (map at_name as)" and "''<global>'' \<notin> at_name ` set as"
  shows "domains_of (map (policy_of bs d) as @ [\<lparr>up_name = ''<global>'', up_domains = g\<rparr>]) user =
    (if user \<in> at_name ` set as
     then filter (\<lambda>x. x \<in> bl_name ` set bs) (at_values (ConfigSection_ReadAttribute ''domains'' (section_of user d)))
     else if user = ''<global>'' then g else [])"
  using assms by (induction as) (auto simp: domains_of_def policy_of_def)

lemma policy_allows_settings:
  assumes "keyed_config d" and "''<global>'' \<notin> at_name ` set (users_of d)"
  shows "policy_allows (st_policies (settings_of old fs d pr port)) (st_lists (settings_of old fs d pr port)) user host \<longleftrightarrow>
    permitted fs d user host"
proof -
  let ?bs = "lists_of fs (section_of ''DomainFiles'' d)"
  have k: "keyed_section (section_of n d)" for n
    using keyed_GetSection [OF assms(1), of n] by (simp only: fst_GetSection)
  then have "distinct (map at_name (users_of d))" by (simp add: users_of_def keyed_section_def)
  note dom = domains_of_policies [OF this assms(2), of ?bs d]
  note b = blocked_by_lists [OF k, where fs = fs]
  show ?thesis
    by (auto simp: policy_allows_def settings_of_def Let_def dom assms(2) permitted_def filter_empty_conv b
        list_all_iff split: option.splits)
qed

text \<open>
  C10: From the configuration file to the decision about a connection. When no user of the file is
  named \<open><global>\<close>, the name the global policy is kept under, and the singletons are
  what \<open>DoConfig\<close> made of the file, a live session gets a connector exactly when its host stands
  in no file listed for a domain of its user and in no file listed for a global domain. A user's
  domain whose file is missing is ignored, a global domain whose file is missing blocks every host.
\<close>

theorem configured_decision:
  assumes "ConfigFile_LoadData junk fs filename ConfigData_new = Inr d"
    and "DoConfig dm junk fs filename (settings_init old) = Inr st"
    and "''<global>'' \<notin> at_name ` set (users_of d)"
    and "w_policies w = st_policies st" and "w_blacklists w = st_lists st"
    and "SessionManager_GetSession (w_sessions w) i = Some s"
  shows "ProxyConnector_ConnectProxy wrote i w = Inr
    (if permitted fs d (s_userName s) (s_host s)
     then ThreadPool_Dispatch \<lparr>wp_handler = Some asyncConnector_fn, wp_context = i\<rparr> w
     else sendErrorResponse wrote i w)"
proof -
  obtain pr port where "st = settings_of old fs d pr port"
    using assms(2) DoConfig_eq [OF assms(1), of dm old] by (auto simp: bind_res_eq_Inr)
  then show ?thesis
    using assms(4,5) policy_allows_settings [OF keyed_LoadData [OF assms(1)] assms(3)]
    by (simp add: connect_proxy_eq [OF assms(6)])
qed

theorem configured_decision_witness:
  "\<exists>st. DoConfig example_daemon (\<lambda>_. ([], [])) example_fs ''n.conf'' (settings_init []) = Inr st \<and>
    map_sum id w_work (ProxyConnector_ConnectProxy True 0
      ((example_world (Session_SetHost ''ads.example'' (Session_new blank_session 7 0 40)))
        \<lparr>w_policies := st_policies st, w_blacklists := st_lists st\<rparr>)) = Inr []"
proof -
  let ?s = "Session_SetHost ''ads.example'' (Session_new blank_session 7 0 40)"
  have "stoul ''81'' = Inr 81" by (simp add: stoul_def cstr_def isspace_def isdigit_def read_dec_def)
  then have "port_of ''81'' = Inr 81" by (simp add: port_of_def)
  then obtain st where st: "DoConfig example_daemon (\<lambda>_. ([], [])) example_fs ''n.conf'' (settings_init []) = Inr st"
    by (simp add: DoConfig_eq [OF example_LoadData] example_values)
  let ?w = "(example_world ?s)\<lparr>w_policies := st_policies st, w_blacklists := st_lists st\<rparr>"
  have s: "SessionManager_GetSession (w_sessions ?w) 0 = Some ?s"
    using example_session [of ?s] by (simp add: Session_SetHost_def Session_new_def)
  have "example_fs ''ads.list'' = Some (''ads.example'' @ [CR, LF])" by (simp add: example_fs_def)
  then have "blocked_hosts example_fs example_data ''ads'' = Some {''ads.example''}"
    using example_hosts
    by (simp add: blocked_hosts_def example_sections MultiValueAttribute_GetValue_def del: append.simps)
  then have "\<not> permitted example_fs example_data (s_userName ?s) (s_host ?s)"
    by (simp add: permitted_def example_values Session_SetHost_def)
  then show ?thesis
    using configured_decision [OF example_LoadData st _ _ _ s, of True] st
    by (simp add: example_users sendErrorResponse_def sendResponse_def example_world_def world_start_def)
qed

section \<open>main\<close>

text \<open>What \<open>main\<close> gets from outside: its argument and the answers of the system calls.\<close>

record start_env =
  se_argument :: "string option"
  se_access :: int
  se_daemon :: daemon_env
  se_now :: u64
  se_epoll :: int
  se_listen :: "u16 \<Rightarrow> listen_calls"
  se_room_server :: bool
  se_pipe :: "(int \<times> int) option"
  se_room_command :: bool
  se_sigaction :: int

datatype start = Exit int | Running manager

text \<open>
  Everything before the loop. The pipe of the messenger is made when the descriptor of the
  command socket is first asked for. A socket that cannot be added is destroyed.
\<close>

definition main_start ::
  "start_env \<Rightarrow> (nat \<Rightarrow> string \<times> string) \<Rightarrow> (string \<Rightarrow> string option) \<Rightarrow> settings \<Rightarrow> start res" where
  "main_start env junk fs st =
     (if (case se_argument env of Some _ \<Rightarrow> se_access env \<noteq> 0 | None \<Rightarrow> False) then Inr (Exit (- 1))
      else
        let configFile = (case se_argument env of Some a \<Rightarrow> a | None \<Rightarrow> ''default.conf'')
        in bind_res (DoConfig (se_daemon env) junk fs configFile st) (\<lambda>st.
          let w = world_start (st_auth st) (st_policies st) (st_lists st) (- 1, - 1) (se_now env);
              (ok, m) = SocketManager_Initialize (se_epoll env) (SocketManager_new fs w)
          in if \<not> ok then Inr (Exit (- 1))
             else
               let (ok, server) = ServerSocket_Initialize (se_listen env (g_serverPort st))
                     (g_serverPort st) ServerSocket_new
               in if \<not> ok then Inr (Exit (- 1))
                  else
                    let m = snd (SocketManager_AddSocket (se_room_server env) (ServerS server) m)
                    in case AsyncMessenger_new (se_pipe env) of
                         None \<Rightarrow> Inr (Exit (- 1))
                       | Some am \<Rightarrow>
                           let m = on_world (\<lambda>w. w\<lparr>w_messenger := am\<rparr>) m;
                               m = snd (SocketManager_AddSocket (se_room_command env) CommandS m)
                           in if se_sigaction env = - 1 then Inr (Exit (- 1)) else Inr (Running m)))"

text \<open>The loop: it ends with the first turn that reports false, which may never come.\<close>

partial_function (option) main_loop ::
  "(nat \<Rightarrow> idle_env \<times> wait_result) \<Rightarrow> nat \<Rightarrow> manager \<Rightarrow> (int \<times> manager) res option" where
  "main_loop answers n m =
     (case SocketManager_ProcessSockets (fst (answers n)) (snd (answers n)) m of
        Inl e \<Rightarrow> Some (Inl e)
      | Inr (go_on, m') \<Rightarrow> if go_on then main_loop answers (Suc n) m' else Some (Inr (0, m')))"

lemma start_running:
  assumes "se_argument env = Some a" and "se_access env = 0" and "DoConfig (se_daemon env) junk fs a st0 = Inr st"
    and "se_epoll env \<noteq> - 1" and "se_listen env (g_serverPort st) = calls"
    and "0 \<le> lc_setsockopt calls" and "0 \<le> lc_bind calls" and "0 \<le> lc_listen calls"
    and "se_pipe env = Some (r, w)" and "lc_socket calls \<noteq> r"
    and "se_room_server env = (0 \<le> lc_socket calls)" and "se_room_command env" and "se_sigaction env = 0"
  shows "\<exists>m. main_start env junk fs st0 = Inr (Running m) \<and> wf_manager m \<and> sk_isActive m \<and>
    sk_sockets m = (if 0 \<le> lc_socket calls
      then [ServerS \<lparr>sv_socketFd = lc_socket calls, sv_isActive = True\<rparr>, CommandS] else [CommandS]) \<and>
    sk_epoll m \<subseteq> {lc_socket calls, r} \<and> w_cache (sk_world m) = [] \<and> w_io (sk_world m) = [] \<and>
    w_auth (sk_world m) = st_auth st \<and> w_policies (sk_world m) = st_policies st \<and>
    w_blacklists (sk_world m) = st_lists st \<and> w_work (sk_world m) = []"
  using assms
  by (auto simp: main_start_def Let_def SocketManager_Initialize_def SocketManager_new_def
      ServerSocket_Initialize_def ServerSocket_new_def bool_of_int_def SocketManager_AddSocket_def destroy_def
      AsyncMessenger_new_def wf_manager_def world_start_def)

text \<open>
  C25: The start. When the configuration loads and the system calls succeed, the proxy runs with
  exactly the listening socket and the command socket, both watched, over the users, policies and
  lists of the configuration. When \<open>socket\<close> fails, \<open>Initialize\<close> reports success all the same and
  the proxy runs with the command socket alone: it never accepts a client.
\<close>

theorem main_starts:
  assumes "se_argument env = Some a" and "se_access env = 0" and "DoConfig (se_daemon env) junk fs a st0 = Inr st"
    and "se_epoll env \<noteq> - 1" and "se_listen env (g_serverPort st) = calls"
    and "0 \<le> lc_setsockopt calls" and "0 \<le> lc_bind calls" and "0 \<le> lc_listen calls"
    and "se_pipe env = Some (r, w)" and "lc_socket calls \<noteq> r"
    and "se_room_server env = (0 \<le> lc_socket calls)" and "se_room_command env" and "se_sigaction env = 0"
  shows "\<exists>m. main_start env junk fs st0 = Inr (Running m) \<and> wf_manager m \<and> sk_isActive m \<and>
    sk_sockets m = (if 0 \<le> lc_socket calls
      then [ServerS \<lparr>sv_socketFd = lc_socket calls, sv_isActive = True\<rparr>, CommandS] else [CommandS]) \<and>
    w_auth (sk_world m) = st_auth st \<and> w_policies (sk_world m) = st_policies st \<and>
    w_blacklists (sk_world m) = st_lists st \<and> w_work (sk_world m) = []"
  using start_running [OF assms] by blast

theorem main_starts_witness:
  "\<exists>m. main_start \<lparr>se_argument = Some ''n.conf'', se_access = 0, se_daemon = example_daemon, se_now = 0, se_epoll = 3,
      se_listen = (\<lambda>_. \<lparr>lc_socket = 6, lc_setsockopt = 0, lc_bind = 0, lc_listen = 0\<rparr>), se_room_server = True,
      se_pipe = Some (4, 5), se_room_command = True, se_sigaction = 0\<rparr>
      (\<lambda>_. ([], [])) Map.empty (settings_init []) = Inr (Running m) \<and> length (sk_sockets m) = 2"
proof -
  let ?env = "\<lparr>se_argument = Some ''n.conf'', se_access = 0, se_daemon = example_daemon, se_now = 0, se_epoll = 3,
      se_listen = (\<lambda>_. \<lparr>lc_socket = 6, lc_setsockopt = 0, lc_bind = 0, lc_listen = 0\<rparr>), se_room_server = True,
      se_pipe = Some (4, 5), se_room_command = True, se_sigaction = 0\<rparr>"
  have l: "ConfigFile_LoadData (\<lambda>_. ([], [])) Map.empty ''n.conf'' ConfigData_new = Inr ConfigData_new"
    by (simp add: ConfigFile_LoadData_def)
  have "attr_value ''port'' (section_of ''Proxy'' ConfigData_new) = []"
    "attr_value ''daemon_mode'' (section_of ''Proxy'' ConfigData_new) = []"
    by (simp_all add: section_of_def ConfigData_new_def ReadAttribute_eq ConfigSection_new_def
        MultiValueAttribute_new_def MultiValueAttribute_GetValue_def)
  then obtain st where "DoConfig (se_daemon ?env) (\<lambda>_. ([], [])) Map.empty ''n.conf'' (settings_init []) = Inr st"
    using DoConfig_eq [OF l, of _ "[]"] by (simp add: port_of_def daemon_of_def)
  from main_starts [of ?env, OF _ _ this, of _ 4 5] show ?thesis by auto
qed

end
