(* ===== verification/Handover.thy ===== *)
theory Handover
  imports SocketManager
begin

text \<open>
  How a session is handed on: from the loop to the task that detects its request, back to the
  loop, to the task that connects, back again and to a pair of sockets. The invariant says that it
  is in one of these hands at most, that it lives as long as a task or a report waits for it, and
  that it gets past the gate only when it may. Here it is kept by each operation.
\<close>

section \<open>Where a session is\<close>

definition reports :: "messenger \<Rightarrow> report list" where
  "reports am = map decode (pipe_messages am)"

fun subject :: "report \<Rightarrow> int list" where
  "subject (Detected i b) = [i]"
| "subject (Connected fd i b) = [i]"
| "subject Garbled = []"

fun success :: "report \<Rightarrow> bool" where
  "success (Connected fd i b) = b"
| "success _ = False"

text \<open>The sessions with a pending task and those with a report in the pipe.\<close>

definition pending :: "world \<Rightarrow> int list" where
  "pending w = map wp_context (w_work w) @ concat (map subject (reports (w_messenger w)))"

text \<open>Those the gate has let through.\<close>

definition connecting :: "world \<Rightarrow> int set" where
  "connecting w = {i. \<lparr>wp_handler = Some asyncConnector_fn, wp_context = i\<rparr> \<in> set (w_work w)} \<union>
     {i. \<exists>r\<in>set (reports (w_messenger w)). success r \<and> i \<in> set (subject r)}"

text \<open>Those with sockets.\<close>

definition relaying :: "manager \<Rightarrow> int set" where
  "relaying m = {cs_sessionId c |c. ClientS c \<in> set (sk_sockets m)}"

text \<open>
  A session that may connect: no policy blocks its host and, with authentication on, its user is
  registered.
\<close>

definition cleared :: "world \<Rightarrow> session \<Rightarrow> bool" where
  "cleared w s \<longleftrightarrow> policy_allows (w_policies w) (w_blacklists w) (s_userName s) (s_host s) \<and>
     (am_enabled (w_auth w) \<longrightarrow> s_userName s \<in> u_name ` set (am_users (w_auth w)))"

definition alive :: "world \<Rightarrow> int \<Rightarrow> bool" where
  "alive w i \<longleftrightarrow> SessionManager_GetSession (w_sessions w) i \<noteq> None"

definition owned :: "int set \<Rightarrow> world \<Rightarrow> bool" where
  "owned S w \<longleftrightarrow> distinct (pending w) \<and> set (pending w) \<inter> S = {} \<and>
     (\<forall>i\<in>set (pending w). alive w i) \<and> (\<forall>i\<in>set (pending w) \<union> S. 0 \<le> i \<and> i < sm_sessionId (w_sessions w))"

definition vetted :: "int set \<Rightarrow> world \<Rightarrow> bool" where
  "vetted S w \<longleftrightarrow> (\<forall>i\<in>connecting w \<union> S. \<forall>s. SessionManager_GetSession (w_sessions w) i = Some s \<longrightarrow> cleared w s)"

definition inv :: "int set \<Rightarrow> world \<Rightarrow> bool" where
  "inv S w \<longleftrightarrow> wf_sessions (w_sessions w) \<and> 0 \<le> sm_sessionId (w_sessions w) \<and>
     sm_sessionId (w_sessions w) \<le> 2 ^ 31 \<and> wf_pipe (w_messenger w) \<and> owned S w \<and> vetted S w"

lemma success_subject: "connecting w \<subseteq> set (pending w)"
  by (force simp: connecting_def pending_def)

section \<open>Changes that matter to nobody\<close>

definition calm :: "int set \<Rightarrow> world \<Rightarrow> world \<Rightarrow> bool" where
  "calm T w w' \<longleftrightarrow> w_work w' = w_work w \<and> w_messenger w' = w_messenger w \<and> w_auth w' = w_auth w \<and>
     w_policies w' = w_policies w \<and> w_blacklists w' = w_blacklists w \<and>
     (wf_sessions (w_sessions w) \<longrightarrow> wf_sessions (w_sessions w') \<and>
        sm_sessionId (w_sessions w') = sm_sessionId (w_sessions w) \<and>
        (\<forall>j s'. SessionManager_GetSession (w_sessions w') j = Some s' \<longrightarrow>
           (\<exists>s. SessionManager_GetSession (w_sessions w) j = Some s \<and> s_host s' = s_host s \<and>
              s_userName s' = s_userName s \<and> s_clientFd s' = s_clientFd s)) \<and>
        (\<forall>j. j \<notin> T \<longrightarrow> alive w j \<longrightarrow> alive w' j))"

lemma calm_refl [simp]: "calm T w w"
  by (simp add: calm_def)

lemma calm_trans: "calm T w w' \<Longrightarrow> calm T w' w'' \<Longrightarrow> calm T w w''"
  unfolding calm_def by metis

lemma calm_mono: "calm T w w' \<Longrightarrow> T \<subseteq> T' \<Longrightarrow> calm T' w w'"
  unfolding calm_def by blast

lemma calm_static:
  assumes "w_sessions w' = w_sessions w" and "w_work w' = w_work w" and "w_messenger w' = w_messenger w"
    and "w_auth w' = w_auth w" and "w_policies w' = w_policies w" and "w_blacklists w' = w_blacklists w"
  shows "calm T w w'"
  using assms by (simp add: calm_def alive_def)

lemma inv_calm:
  assumes "inv S w" and "calm T w w'" and "S' \<subseteq> S" and "T \<inter> set (pending w) = {}"
  shows "inv S' w'"
proof -
  have p: "pending w' = pending w" "connecting w' = connecting w" "cleared w' = cleared w"
    using assms(2) by (simp_all add: calm_def pending_def connecting_def cleared_def fun_eq_iff)
  have "cleared w s' = cleared w s" if "s_host s' = s_host s" "s_userName s' = s_userName s" for s s'
    using that by (simp add: cleared_def)
  then have "vetted S' w'"
    using assms unfolding vetted_def inv_def calm_def p by (metis UnCI UnE subsetD)
  then show ?thesis using assms by (auto simp: inv_def calm_def owned_def p)
qed

section \<open>Handing a session on\<close>

text \<open>A live session in no hand.\<close>

definition free :: "int set \<Rightarrow> world \<Rightarrow> int \<Rightarrow> bool" where
  "free S w i \<longleftrightarrow> alive w i \<and> i \<notin> set (pending w) \<and> i \<notin> S \<and> 0 \<le> i \<and> i < sm_sessionId (w_sessions w)"

definition live_cleared :: "world \<Rightarrow> int \<Rightarrow> bool" where
  "live_cleared w i \<longleftrightarrow> (\<forall>s. SessionManager_GetSession (w_sessions w) i = Some s \<longrightarrow> cleared w s)"

lemma free_calm: "calm T w w' \<Longrightarrow> wf_sessions (w_sessions w) \<Longrightarrow> i \<notin> T \<Longrightarrow> free S w i \<Longrightarrow> free S w' i"
  by (simp add: free_def calm_def pending_def)

lemma free_int32: "inv S w \<Longrightarrow> free S w i \<Longrightarrow> int32 i"
  by (auto simp: inv_def free_def int32_def)

lemma reports_send:
  assumes "wf_pipe am" and "proper r"
  shows "reports (snd (AsyncMessenger_WriteMessage wrote (encode r) am)) =
      reports am @ (if wrote then [r] else [])"
    and "wf_pipe (snd (AsyncMessenger_WriteMessage wrote (encode r) am))"
  using pipe.elems_enq [OF is_message_encode assms(1), of r] pipe.shape_enq [OF is_message_encode assms(1), of r]
    assms by (cases wrote; simp add: reports_def decode_encode AsyncMessenger_WriteMessage_def)+

lemma inv_send:
  assumes "inv S w" and "free S w i" and "subject r = [i]" and "proper r"
    and "success r \<Longrightarrow> live_cleared w i"
    and "w' = w\<lparr>w_messenger := snd (AsyncMessenger_WriteMessage wrote (encode r) (w_messenger w))\<rparr>"
  shows "inv S w'"
proof -
  have wf: "wf_pipe (w_messenger w)" using assms(1) by (simp add: inv_def)
  note r = reports_send [OF wf assms(4), of wrote]
  have p: "pending w' = pending w @ (if wrote then [i] else [])"
    by (simp add: assms(6) pending_def r assms(3))
  have c: "connecting w' = connecting w \<union> (if wrote \<and> success r then {i} else {})"
    by (auto simp: assms(6) connecting_def r assms(3))
  have f: "cleared w' = cleared w" "w_sessions w' = w_sessions w" "wf_pipe (w_messenger w')" "alive w' = alive w"
    using r(2) by (simp_all add: assms(6) cleared_def alive_def fun_eq_iff)
  show ?thesis
    using assms(1,2,5) by (auto simp: inv_def owned_def vetted_def p c f free_def live_cleared_def)
qed

lemma inv_dispatch:
  assumes "inv S w" and "free S w i" and "fn = asyncConnector_fn \<Longrightarrow> live_cleared w i"
  shows "inv S (ThreadPool_Dispatch \<lparr>wp_handler = Some fn, wp_context = i\<rparr> w)"
proof -
  let ?w = "ThreadPool_Dispatch \<lparr>wp_handler = Some fn, wp_context = i\<rparr> w"
  have p: "set (pending ?w) = insert i (set (pending w))" "distinct (pending ?w)"
    using assms(1,2) by (auto simp: ThreadPool_Dispatch_def work_push_def pending_def inv_def owned_def free_def)
  have c: "connecting ?w = connecting w \<union> (if fn = asyncConnector_fn then {i} else {})"
    by (auto simp: ThreadPool_Dispatch_def work_push_def connecting_def)
  have f: "w_sessions ?w = w_sessions w" "w_messenger ?w = w_messenger w" "cleared ?w = cleared w" "alive ?w = alive w"
    by (simp_all add: ThreadPool_Dispatch_def cleared_def alive_def fun_eq_iff)
  show ?thesis
    using assms by (auto simp: inv_def owned_def vetted_def p c f free_def live_cleared_def)
qed

text \<open>A worker takes a package, from anywhere in the list: its session is free.\<close>

lemma inv_take:
  assumes "inv S w" and "w_work w = xs @ \<lparr>wp_handler = Some fn, wp_context = i\<rparr> # ys"
    and "w' = w\<lparr>w_work := xs @ ys\<rparr>"
  shows "inv S w'" and "free S w' i" and "fn = asyncConnector_fn \<Longrightarrow> live_cleared w' i"
proof -
  have p: "set (pending w) = insert i (set (pending w'))" "distinct (pending w) \<longleftrightarrow> i \<notin> set (pending w') \<and> distinct (pending w')"
    by (auto simp: assms(2,3) pending_def)
  have c: "connecting w = connecting w' \<union> (if fn = asyncConnector_fn then {i} else {})"
    by (auto simp: assms(2,3) connecting_def)
  have f: "w_sessions w' = w_sessions w" "w_messenger w' = w_messenger w" "cleared w' = cleared w" "alive w' = alive w"
    by (simp_all add: assms(3) cleared_def alive_def fun_eq_iff)
  show "inv S w'" and "free S w' i" and "fn = asyncConnector_fn \<Longrightarrow> live_cleared w' i"
    using assms(1) by (auto simp: inv_def owned_def vetted_def p c f free_def live_cleared_def split: if_splits)
qed

text \<open>The loop takes a report.\<close>

lemma inv_receive:
  assumes "inv S w" and "pipe_deq (w_messenger w) = Some (msg, am)" and "w' = w\<lparr>w_messenger := am\<rparr>"
  shows "inv S w'" and "subject (decode msg) = [i] \<Longrightarrow> free S w' i"
    and "subject (decode msg) = [i] \<Longrightarrow> success (decode msg) \<Longrightarrow> live_cleared w' i"
proof -
  have wf: "wf_pipe (w_messenger w)" using assms(1) by (simp add: inv_def)
  from pipe.deq_Some [OF this assms(2)] have r: "reports (w_messenger w) = decode msg # reports am"
    and wf': "wf_pipe am" by (simp_all add: reports_def)
  have p: "set (pending w) = set (subject (decode msg)) \<union> set (pending w')"
    "distinct (pending w) \<Longrightarrow> distinct (pending w')"
    "distinct (pending w) \<Longrightarrow> set (subject (decode msg)) \<inter> set (pending w') = {}"
    by (auto simp: assms(3) pending_def r)
  have c: "connecting w = connecting w' \<union> (if success (decode msg) then set (subject (decode msg)) else {})"
    by (auto simp: assms(3) connecting_def r)
  have f: "w_sessions w' = w_sessions w" "cleared w' = cleared w" "w_messenger w' = am" "alive w' = alive w"
    by (simp_all add: assms(3) cleared_def alive_def fun_eq_iff)
  have o: "distinct (pending w')" "set (subject (decode msg)) \<inter> set (pending w') = {}"
    using assms(1) p(2,3) by (simp_all add: inv_def owned_def)
  show "inv S w'"
    using assms(1) o(1) wf' by (auto simp: inv_def owned_def vetted_def p(1) c f)
  show "free S w' i" if "subject (decode msg) = [i]"
    using assms(1) o(2) that by (auto simp: inv_def owned_def p(1) f free_def)
  show "live_cleared w' i" if "subject (decode msg) = [i]" "success (decode msg)"
    using assms(1) that by (auto simp: inv_def vetted_def c f live_cleared_def)
qed

section \<open>Changing a session in no hand\<close>

lemma inv_update:
  assumes "inv S w" and "free S w i" and "\<And>s. s_sessionId (f s) = s_sessionId s"
    and "w' = w\<lparr>w_sessions := upd_session i f (w_sessions w)\<rparr>"
  shows "inv S w'" and "free S w' j = free S w j"
    and "SessionManager_GetSession (w_sessions w') j =
      (if j = i then map_option f (SessionManager_GetSession (w_sessions w) i)
       else SessionManager_GetSession (w_sessions w) j)"
proof -
  have p: "pending w' = pending w" "connecting w' = connecting w" "cleared w' = cleared w"
    "w_messenger w' = w_messenger w" "sm_sessionId (w_sessions w') = sm_sessionId (w_sessions w)"
    by (simp_all add: assms(4) pending_def connecting_def cleared_def fun_eq_iff upd_session_def)
  show g: "SessionManager_GetSession (w_sessions w') j =
      (if j = i then map_option f (SessionManager_GetSession (w_sessions w) i)
       else SessionManager_GetSession (w_sessions w) j)" for j
    by (simp add: assms(3,4) sess.get_upd)
  have a: "alive w' = alive w" by (auto simp: alive_def g fun_eq_iff)
  have "wf_sessions (w_sessions w')" using assms wf_upd_session by (simp add: inv_def)
  moreover have "i \<notin> connecting w \<union> S" using assms(2) success_subject by (auto simp: free_def)
  then have "vetted S w'" using assms(1) by (auto simp: inv_def vetted_def p g)
  ultimately show "inv S w'" using assms(1) by (auto simp: inv_def owned_def p a)
  show "free S w' j = free S w j" by (simp add: free_def p a)
qed

lemma inv_create:
  assumes "inv S w"
    and "SessionManager_CreateSession junk now fd (w_sessions w) = Inr (sm, r)"
    and "w' = w\<lparr>w_sessions := sm\<rparr>"
  shows "inv S w'" and "free S w' (sm_sessionId (w_sessions w))"
proof -
  let ?i = "sm_sessionId (w_sessions w)"
  have n: "sm_sessionId sm = ?i + 1" "?i < 2 ^ 31 - 1" using CreateSession_result(2,3) [OF assms(2)] .
  have p: "pending w' = pending w" "connecting w' = connecting w" "cleared w' = cleared w"
    "w_messenger w' = w_messenger w" "w_sessions w' = sm"
    by (simp_all add: assms(3) pending_def connecting_def cleared_def fun_eq_iff)
  have wf: "wf_sessions (w_sessions w)" using assms(1) by (simp add: inv_def)
  note get = GetSession_Create [OF wf assms(2)]
  have o: "\<forall>j\<in>set (pending w) \<union> S. 0 \<le> j \<and> j < ?i" using assms(1) by (simp add: inv_def owned_def)
  then have "?i \<notin> connecting w \<union> S" using success_subject by fastforce
  then have "vetted S w'"
    using assms(1) get by (auto simp: inv_def vetted_def p)
  moreover have "wf_sessions sm" using wf_CreateSession [OF assms(2) wf] .
  moreover have a: "alive w' ?i" "\<And>j. alive w j \<Longrightarrow> alive w' j"
    using get by (simp_all add: alive_def p)
  moreover have "\<forall>j\<in>set (pending w) \<union> S. 0 \<le> j \<and> j < ?i + 1"
    by (rule ballI) (drule bspec [OF o], simp)
  then have "owned S w'" using assms(1) a(2) by (simp add: inv_def owned_def p n)
  ultimately show "inv S w'" using assms(1) n by (simp add: inv_def p)
  show "free S w' ?i"
    using assms(1) o a(1) by (fastforce simp: free_def p n inv_def wf_sessions_def)
qed

text \<open>The loop registers the sockets of a session that may connect.\<close>

lemma inv_register:
  assumes "inv S w" and "free S w i" and "live_cleared w i" and "S' \<subseteq> insert i S"
  shows "inv S' w"
proof -
  have "vetted S' w" using assms unfolding inv_def vetted_def live_cleared_def by blast
  moreover have "owned S' w" using assms unfolding inv_def owned_def free_def by blast
  ultimately show ?thesis using assms(1) by (simp add: inv_def)
qed

section \<open>The tasks\<close>

lemma detector_effect:
  assumes "asyncDetector answer wrote i sm am = Inr (sm', am')"
  obtains d r where "sm' = (if d_success d then upd_session i (store_detection d r) sm else sm)"
    and "am' = snd (AsyncMessenger_WriteMessage wrote (encode (Detected i (d_success d))) am)"
  using assms by (auto simp: asyncDetector_def Let_def bind_res_eq_Inr split: option.splits)

lemma detector_task:
  assumes "inv S w" and "free S w i"
    and "asyncDetector answer wrote i (w_sessions w) (w_messenger w) = Inr (sm, am)"
  shows "inv S (w\<lparr>w_sessions := sm, w_messenger := am\<rparr>)"
proof -
  obtain d r where d: "sm = (if d_success d then upd_session i (store_detection d r) (w_sessions w) else w_sessions w)"
    "am = snd (AsyncMessenger_WriteMessage wrote (encode (Detected i (d_success d))) (w_messenger w))"
    using detector_effect [OF assms(3)] by metis
  define w1 where "w1 = (if d_success d then w\<lparr>w_sessions := upd_session i (store_detection d r) (w_sessions w)\<rparr> else w)"
  have id: "s_sessionId (store_detection d r s) = s_sessionId s" for s
    by (simp add: store_detection_def session_ops)
  have 1: "inv S w1" "free S w1 i"
    using inv_update [OF assms(1,2) id refl] assms(1,2) by (simp_all add: w1_def)
  have "w\<lparr>w_sessions := sm, w_messenger := am\<rparr> =
      w1\<lparr>w_messenger := snd (AsyncMessenger_WriteMessage wrote (encode (Detected i (d_success d))) (w_messenger w1))\<rparr>"
    by (simp add: d w1_def)
  from inv_send [OF 1 _ _ _ this] free_int32 [OF 1] show ?thesis by simp
qed

lemma connector_effect:
  assumes "asyncConnector_report env i w = Inr (late, w')"
  shows "\<exists>ok c es. w' = (w\<lparr>w_cache := c, w_io := es\<rparr>)
    \<lparr>w_messenger := snd (AsyncMessenger_WriteMessage (ce_wrote env)
       (encode (Connected (if ok then ce_socket env else - 1) i ok)) (w_messenger w))\<rparr>"
proof -
  obtain s addrs cached cache where s: "SessionManager_GetSession (w_sessions w) i = Some s"
    and r: "HostResolver_GetAddressesForHost (ce_lookup env) (s_host s) (s_port s) False (w_cache w) =
      Inr (addrs, cached, cache)"
    using assms by (auto simp: asyncConnector_report_def bind_res_eq_Inr split: option.splits)
  note defs = asyncConnector_report_def s r Let_def sendErrorResponse_def sendResponse_def
  show ?thesis
  proof (cases "length addrs = 0 \<or> ce_socket env = - 1")
    case True
    with assms show ?thesis
      by (intro exI [of _ False] exI [of _ cache] exI [of _ "w_io w"]) (auto simp: defs split: if_splits)
  next
    case False
    then obtain ok tried where l: "connect_loop env (s_port s) addrs = Inr (ok, tried)"
      using assms by (auto simp: asyncConnector_report_def s r Let_def bind_res_eq_Inr)
    with assms False show ?thesis
      by (intro exI [of _ ok] exI [of _ cache] exI [of _ "if ok then (w_io w @ tried) @ connected_io (ce_socket env) s else w_io w @ tried"])
         (cases ok; auto simp: defs)
  qed
qed

lemma purge_effect: "asyncConnector_purge i w = Inr w' \<Longrightarrow> \<exists>c. w' = w\<lparr>w_cache := c\<rparr>"
  by (auto simp: asyncConnector_purge_def bind_res_eq_Inr split: option.splits)

lemma connector_task:
  assumes "inv S w" and "free S w i" and "live_cleared w i" and "int32 (ce_socket env)"
    and "asyncConnector_report env i w = Inr (late, w')"
  shows "inv S w'"
proof -
  obtain ok c es where w': "w' = (w\<lparr>w_cache := c, w_io := es\<rparr>)
    \<lparr>w_messenger := snd (AsyncMessenger_WriteMessage (ce_wrote env)
       (encode (Connected (if ok then ce_socket env else - 1) i ok)) (w_messenger w))\<rparr>"
    using connector_effect [OF assms(5)] by blast
  define w1 where "w1 = w\<lparr>w_cache := c, w_io := es\<rparr>"
  have calm: "calm {} w w1" by (rule calm_static) (simp_all add: w1_def)
  have wf: "wf_sessions (w_sessions w)" using assms(1) by (simp add: inv_def)
  have 1: "inv S w1" "free S w1 i" "live_cleared w1 i"
    using inv_calm [OF assms(1) calm] free_calm [OF calm wf _ assms(2)] assms(3)
    by (simp_all add: w1_def live_cleared_def cleared_def)
  have "w' = w1\<lparr>w_messenger := snd (AsyncMessenger_WriteMessage (ce_wrote env)
       (encode (Connected (if ok then ce_socket env else - 1) i ok)) (w_messenger w1))\<rparr>"
    by (simp add: w' w1_def)
  from inv_send [OF 1(1,2) _ _ _ this] 1(3) free_int32 [OF 1(1,2)] assms(4) show ?thesis
    by (simp add: int32_def)
qed

lemma purge_task: "asyncConnector_purge i w = Inr w' \<Longrightarrow> calm {} w w'"
  by (drule purge_effect) (auto intro: calm_static)

section \<open>The gate\<close>

lemma calm_end_session: "calm {i} w (end_session now i w)"
proof -
  obtain sm g where e: "SessionManager_EndSession (w_auth w) now i (w_sessions w) (w_stats w) = (sm, g)"
    by fastforce
  have "sm_sessionId sm = sm_sessionId (w_sessions w)"
    using e by (auto simp: SessionManager_EndSession_def erase_session_def split: option.splits)
  moreover have "wf_sessions sm" if "wf_sessions (w_sessions w)"
    using wf_EndSession [OF that, of "w_auth w" now i "w_stats w"] e by simp
  ultimately show ?thesis
    using GetSession_end_session [of w now i] e by (simp add: calm_def alive_def end_session_def)
qed

lemma calm_refuse: "calm {i} w (refuse now i s r w)"
  unfolding refuse_def by (rule calm_trans [OF calm_static calm_end_session]) simp_all

lemma header_world:
  "authenticate_header lt i a w = Inr (w', r) \<Longrightarrow> w' = w \<or> (\<exists>n. w' = set_user_name i n w)"
  by (cases "sscanf a fmt_auth") (auto simp: authenticate_header_eq split: if_splits sum.splits prod.splits)

lemma address_world:
  "authenticate_address lt i s w = Inr (w', r) \<Longrightarrow> w' = w \<or> (\<exists>n. w' = set_user_name i n w)"
  by (auto simp: authenticate_address_def Let_def bind_res_eq_Inr split: if_splits prod.splits)

text \<open>Who is let through has been asked for the time policy, and so is registered.\<close>

lemma enter_registered:
  "authenticate_header lt i a w = Inr (w', None) \<Longrightarrow> \<exists>n. w' = set_user_name i n w \<and> n \<in> u_name ` set (am_users (w_auth w))"
  "authenticate_address lt i s w = Inr (w', None) \<Longrightarrow> \<exists>n. w' = set_user_name i n w \<and> n \<in> u_name ` set (am_users (w_auth w))"
proof -
  assume "authenticate_header lt i a w = Inr (w', None)"
  then show "\<exists>n. w' = set_user_name i n w \<and> n \<in> u_name ` set (am_users (w_auth w))"
    by (cases "sscanf a fmt_auth")
       (auto simp: authenticate_header_eq split: if_splits sum.splits prod.splits dest: access_registered)
next
  assume "authenticate_address lt i s w = Inr (w', None)"
  from address_admits [OF this] show "\<exists>n. w' = set_user_name i n w \<and> n \<in> u_name ` set (am_users (w_auth w))"
    using access_registered by blast
qed

lemma inv_set_user_name:
  assumes "inv S w" and "free S w i"
  shows "inv S (set_user_name i n w)" and "free S (set_user_name i n w) i"
  using inv_update [OF assms, of "Session_SetUserName n" "set_user_name i n w"] assms(2)
  by (simp_all add: set_user_name_def Session_SetUserName_def)

lemma connect_proxy_effect:
  assumes "SessionManager_GetSession (w_sessions w) i = Some s" and "ProxyConnector_ConnectProxy wrote i w = Inr w'"
  shows "if policy_allows (w_policies w) (w_blacklists w) (s_userName s) (s_host s)
    then w' = ThreadPool_Dispatch \<lparr>wp_handler = Some asyncConnector_fn, wp_context = i\<rparr> w
    else w' = w\<lparr>w_messenger := snd (AsyncMessenger_WriteMessage wrote (encode (Connected (- 1) i False)) (w_messenger w))\<rparr>"
  using assms by (auto simp: connect_proxy_eq sendErrorResponse_def sendResponse_def)

lemma inv_connect_proxy:
  assumes "inv S w" and "free S w i" and "SessionManager_GetSession (w_sessions w) i = Some s"
    and "am_enabled (w_auth w) \<Longrightarrow> s_userName s \<in> u_name ` set (am_users (w_auth w))"
    and "ProxyConnector_ConnectProxy wrote i w = Inr w'"
  shows "inv S w'"
proof (cases "policy_allows (w_policies w) (w_blacklists w) (s_userName s) (s_host s)")
  case True
  then have "live_cleared w i" using assms(3,4) by (simp add: live_cleared_def cleared_def)
  with True assms(3,5) inv_dispatch [OF assms(1,2), of asyncConnector_fn] show ?thesis
    by (simp add: connect_proxy_eq)
next
  case False
  with connect_proxy_effect [OF assms(3,5)] have "w' = w\<lparr>w_messenger := snd (AsyncMessenger_WriteMessage wrote
      (encode (Connected (- 1) i False)) (w_messenger w))\<rparr>" by simp
  from inv_send [OF assms(1,2) _ _ _ this] free_int32 [OF assms(1,2)] show ?thesis
    by (simp add: int32_def)
qed

lemma detect_result:
  assumes "inv S w" and "HandleDetectResult env msg w = Inr w'"
    and fr: "free S w (detect_sessionId msg)"
  shows "inv S w'"
proof -
  let ?i = "detect_sessionId msg"
  obtain s where s: "SessionManager_GetSession (w_sessions w) ?i = Some s"
    using assms(2) by (auto simp: HandleDetectResult_def Let_def split: option.splits)
  have refused: "inv S (refuse now i t r v)" if "inv S v" "free S v i" for now i t r v
    using inv_calm [OF that(1) calm_refuse subset_refl] that(2) by (simp add: free_def)
  show ?thesis
  proof (cases "detect_success msg")
    case False
    with assms s refused show ?thesis by (auto simp: HandleDetectResult_def)
  next
    case True
    show ?thesis
    proof (cases "am_enabled (w_auth w)")
      case False
      with True assms(2) s have "ProxyConnector_ConnectProxy (ke_wrote env) ?i w = Inr w'"
        by (simp add: HandleDetectResult_def AuthManager_IsEnabled_def Let_def)
      from inv_connect_proxy [OF assms(1) fr s _ this] False show ?thesis by simp
    next
      case enabled: True
      obtain w1 refusal where a: "(case strstr (cstr (s_request s)) auth_header of
          Some authString \<Rightarrow> authenticate_header (ke_localtime env) ?i authString w
        | None \<Rightarrow> authenticate_address (ke_localtime env) ?i s w) = Inr (w1, refusal)"
        and r: "(case refusal of Some response \<Rightarrow> Inr (refuse (ke_now env) ?i s response w1)
          | None \<Rightarrow> ProxyConnector_ConnectProxy (ke_wrote env) ?i w1) = Inr w'"
        using True enabled assms(2) s
        by (auto simp: HandleDetectResult_def AuthManager_IsEnabled_def Let_def bind_res_eq_Inr)
      have "w1 = w \<or> (\<exists>n. w1 = set_user_name ?i n w)"
        using a header_world address_world by (auto split: option.splits)
      with assms(1) fr have 1: "inv S w1" "free S w1 ?i" by (auto simp: inv_set_user_name)
      show ?thesis
      proof (cases refusal)
        case (Some response)
        with r 1 refused show ?thesis by auto
      next
        case None
        obtain n where n: "w1 = set_user_name ?i n w" "n \<in> u_name ` set (am_users (w_auth w))"
          using a None by (cases "strstr (cstr (s_request s)) auth_header") (auto dest!: enter_registered)
        have "SessionManager_GetSession (w_sessions w1) ?i = Some (Session_SetUserName n s)"
          using s by (simp add: n(1) get_set_user_name)
        from inv_connect_proxy [OF 1 this] r None n show ?thesis
          by (simp add: Session_SetUserName_def)
      qed
    qed
  qed
qed

section \<open>Null pointers\<close>

text \<open>
  Every lookup of a session returns a pointer that the code uses unchecked. Nothing else in a task
  or in the handling of a report can go through a null pointer.
\<close>

definition no_null :: "'a res \<Rightarrow> bool" where
  "no_null r \<longleftrightarrow> r \<noteq> Inl NullDeref"

lemma no_null_simps [simp]: "no_null (Inr x)" "no_null (Inl e) \<longleftrightarrow> e \<noteq> NullDeref"
  by (simp_all add: no_null_def)

lemma no_null_bind: "no_null r \<Longrightarrow> (\<And>x. no_null (f x)) \<Longrightarrow> no_null (bind_res r f)"
  by (cases r) auto

lemma no_null_if: "(b \<Longrightarrow> no_null x) \<Longrightarrow> (\<not> b \<Longrightarrow> no_null y) \<Longrightarrow> no_null (if b then x else y)"
  by simp

lemma no_null_option: "no_null x \<Longrightarrow> (\<And>y. no_null (f y)) \<Longrightarrow> no_null (case r of None \<Rightarrow> x | Some y \<Rightarrow> f y)"
  by (cases r) simp_all

lemma no_null_prod: "(\<And>x y. no_null (f x y)) \<Longrightarrow> no_null (case r of (x, y) \<Rightarrow> f x y)"
  by (cases r) simp

lemma no_null_list: "no_null x \<Longrightarrow> (\<And>y ys. no_null (f y ys)) \<Longrightarrow> no_null (case r of [] \<Rightarrow> x | y # ys \<Rightarrow> f y ys)"
  by (cases r) simp_all

lemmas no_null_intros = no_null_bind no_null_if no_null_option no_null_prod no_null_list

lemma no_null_loop [simp]: "no_null (loop_res r)"
  by (cases r) simp_all

lemma no_null_store_str [simp]: "no_null (store_str n s)"
  by (simp add: store_str_def)

lemma no_null_cached_loop: "no_null (cached_loop now n url xs)"
  by (induction now n url xs rule: cached_loop.induct)
     (simp_all add: no_null_bind split: list.split prod.split)

lemma no_null_clear_loop: "no_null (clear_loop url xs)"
  by (induction url xs rule: clear_loop.induct) (simp_all add: no_null_bind split: list.split)

lemma no_null_connect_loop: "no_null (connect_loop env port ys)"
  by (induction ys) (auto intro!: no_null_bind)

lemma no_null_resolver:
  "no_null (HostResolver_GetAddressesForHost lookup host port cached c)"
  "no_null (HostResolver_ClearCacheForHost host c)"
  unfolding HostResolver_GetAddressesForHost_def HostInfoCache_GetCachedResults_def Let_def
    HostResolver_ClearCacheForHost_def HostInfoCache_ClearCacheForHost_def
  by (intro no_null_intros no_null_cached_loop no_null_clear_loop no_null_simps)+

lemma no_null_detect_parse: "no_null (detect_parse buf)"
  unfolding detect_parse_def Let_def by (intro no_null_intros no_null_store_str) simp_all

lemma no_null_b64_loop: "no_null (b64_loop cap s idx tmp out)"
  by (induction cap s idx tmp out rule: b64_loop.induct)
     (simp_all add: b64_loop.simps split: option.split)

lemma no_null_Base64Decode: "no_null (Base64Decode s)"
  by (auto simp: Base64Decode_def Let_def intro!: no_null_intros no_null_b64_loop)

lemma no_null_access_loop: "no_null (access_loop lt name us)"
  by (induction us) (auto simp: WeeklyAccess_PermittedAtTime_def TimeMap_PermittedAtTime_def Let_def split: option.split)

lemma no_null_authenticate:
  "no_null (AuthManager_Authenticate am creds name)" "no_null (AuthManager_AccessAllowedAtTime lt am name)"
  unfolding AuthManager_Authenticate_def scan_credentials_def Let_def AuthManager_AccessAllowedAtTime_def
  by (intro no_null_intros no_null_Base64Decode no_null_store_str no_null_access_loop no_null_simps)+

lemma detector_no_null:
  assumes "SessionManager_GetSession sm i \<noteq> None"
  shows "no_null (asyncDetector answer wrote i sm am)"
proof -
  obtain s where "SessionManager_GetSession sm i = Some s" using assms by auto
  then show ?thesis
    by (cases answer) (auto simp: asyncDetector_def Let_def intro!: no_null_intros no_null_detect_parse)
qed

lemma connector_no_null:
  assumes "alive w i"
  shows "no_null (asyncConnector_report env i w)"
proof -
  obtain s where "SessionManager_GetSession (w_sessions w) i = Some s" using assms by (auto simp: alive_def)
  then show ?thesis
    by (auto simp: asyncConnector_report_def Let_def intro!: no_null_intros no_null_resolver no_null_connect_loop)
qed

lemma connect_proxy_no_null:
  assumes "alive w i"
  shows "no_null (ProxyConnector_ConnectProxy wrote i w)"
proof -
  obtain s where "SessionManager_GetSession (w_sessions w) i = Some s" using assms by (auto simp: alive_def)
  then show ?thesis by (auto simp: connect_proxy_eq)
qed

lemma detect_result_no_null:
  assumes "alive w (detect_sessionId msg)"
  shows "no_null (HandleDetectResult env msg w)"
proof -
  let ?i = "detect_sessionId msg"
  obtain s where s: "SessionManager_GetSession (w_sessions w) ?i = Some s" using assms by (auto simp: alive_def)
  have "alive (set_user_name ?i n w) ?i" for n
    using s by (simp add: alive_def get_set_user_name)
  then have c: "no_null (ProxyConnector_ConnectProxy wrote ?i w)"
    "no_null (ProxyConnector_ConnectProxy wrote ?i (set_user_name ?i n w))" for wrote n
    using assms connect_proxy_no_null by blast+
  let ?a = "case strstr (cstr (s_request s)) auth_header of
      Some authString \<Rightarrow> authenticate_header (ke_localtime env) ?i authString w
    | None \<Rightarrow> authenticate_address (ke_localtime env) ?i s w"
  have "no_null (authenticate_header lt ?i a w)" "no_null (authenticate_address lt ?i s w)" for lt a
    by (auto simp: authenticate_header_def authenticate_address_def Let_def
        intro!: no_null_intros no_null_authenticate)
  then have "no_null ?a" by (intro no_null_option)
  moreover have "fst r = w \<or> (\<exists>n. fst r = set_user_name ?i n w)" if "?a = Inr r" for r
    using that by (cases r) (auto dest: header_world address_world split: option.splits)
  ultimately have "no_null (bind_res ?a (\<lambda>(w, refusal). case refusal of
      Some response \<Rightarrow> Inr (refuse (ke_now env) ?i s response w)
    | None \<Rightarrow> ProxyConnector_ConnectProxy (ke_wrote env) ?i w))"
    using c by (cases ?a) (auto split: option.split)
  with s c show ?thesis by (auto simp: HandleDetectResult_def Let_def)
qed

end
