(* ===== verification/Lifecycle.thy ===== *)
theory Lifecycle
  imports Handover ProxyMain
begin

text \<open>
  The proxy as a whole: turns of the event loop and tasks of the workers, in any order, from the
  start of \<open>main\<close> on.
\<close>

section \<open>The event loop\<close>

text \<open>A turn that hands no session on.\<close>

definition quiet :: "int set \<Rightarrow> manager \<Rightarrow> manager \<Rightarrow> bool" where
  "quiet T m m' \<longleftrightarrow> calm T (sk_world m) (sk_world m') \<and> relaying m' \<subseteq> relaying m"

lemma quiet_refl [simp]: "quiet T m m"
  by (simp add: quiet_def)

lemma quiet_trans: "quiet T m m' \<Longrightarrow> quiet T m' m'' \<Longrightarrow> quiet T m m''"
  unfolding quiet_def by (metis calm_trans subset_trans)

lemma inv_quiet: "inv (relaying m) (sk_world m) \<Longrightarrow> quiet (relaying m) m m' \<Longrightarrow> inv (relaying m') (sk_world m')"
  unfolding quiet_def by (elim conjE, rule inv_calm) (auto simp: inv_def owned_def)

lemma quiet_world: "calm T (sk_world m) (f (sk_world m)) \<Longrightarrow> quiet T m (on_world f m)"
  by (simp add: quiet_def relaying_def)

lemma relaying_mono: "set (sk_sockets m') \<subseteq> set (sk_sockets m) \<Longrightarrow> relaying m' \<subseteq> relaying m"
  by (auto simp: relaying_def)

lemma calm_destroy: "calm T (sk_world m) (sk_world (destroy s m))"
  by (auto simp: destroy_def intro!: calm_static split: option.split)

lemma quiet_destroy: "quiet T m (destroy s m)"
  by (simp add: quiet_def calm_destroy relaying_def)

lemma quiet_remove_at: "quiet T m (remove_at k m)"
proof -
  let ?m = "m\<lparr>sk_sockets := take k (sk_sockets m) @ drop (Suc k) (sk_sockets m)\<rparr>"
  have "relaying ?m \<subseteq> relaying m" by (rule relaying_mono) (auto dest: in_set_takeD in_set_dropD)
  then have "quiet T m ?m" by (simp add: quiet_def)
  then show ?thesis unfolding remove_at_def by (rule quiet_trans [OF _ quiet_destroy])
qed

lemma quiet_RemoveSocketFd: "quiet T m (snd (SocketManager_RemoveSocketFd fd m))"
  by (simp add: quiet_def relaying_def)

lemma quiet_remove_peer: "quiet T m (remove_peer fd m)"
  by (auto simp: remove_peer_def split: option.split
      intro!: quiet_trans [OF quiet_RemoveSocketFd quiet_remove_at])

lemma quiet_end_session: "i \<in> T \<Longrightarrow> quiet T m (on_world (end_session now i) m)"
  using calm_mono [OF calm_end_session] by (intro quiet_world) simp

lemma quiet_prune_one: "cs_sessionId c \<in> T \<Longrightarrow> quiet T m (prune_one freed now k c m)"
  unfolding prune_one_def ClientSocket_GetSessionId_def
  by (intro quiet_trans [OF _ quiet_end_session] quiet_trans [OF _ quiet_remove_peer]
      quiet_trans [OF quiet_RemoveSocketFd quiet_remove_at])

text \<open>What one round of pruning keeps, the loop keeps.\<close>

lemma prune_loop_keeps:
  assumes "prune_loop freed now n m = Some m'" and "Q m"
    and "\<And>n m k c. Q m \<Longrightarrow> find_index is_client (sk_sockets m) = Some k \<Longrightarrow> sk_sockets m ! k = ClientS c \<Longrightarrow>
      Q (prune_one freed (now n) k c m)"
  shows "Q m'"
proof -
  have "freed' = freed \<longrightarrow> now' = now \<longrightarrow> Q m \<longrightarrow> Q m'" if "prune_loop freed' now' n m = Some m'" for freed' now' n m
    by (rule prune_loop.raw_induct [OF _ that]) (use assms(3) in \<open>force split: if_splits option.splits socket.splits\<close>)
  with assms(1,2) show ?thesis by blast
qed

lemma quiet_prune_loop:
  assumes "prune_loop freed now n m = Some m'" and "relaying m \<subseteq> T"
  shows "quiet T m m'"
proof (rule prune_loop_keeps [OF assms(1)])
  show "quiet T m m" using quiet_refl .
  fix n x k c
  assume q: "quiet T m x" and k: "find_index is_client (sk_sockets x) = Some k" "sk_sockets x ! k = ClientS c"
  have "ClientS c \<in> set (sk_sockets x)" using find_index_Some [OF k(1)] k(2) by (metis nth_mem)
  moreover have "relaying x \<subseteq> T" using q assms(2) by (auto simp: quiet_def)
  ultimately have "quiet T x (prune_one freed (now n) k c x)" by (intro quiet_prune_one) (auto simp: relaying_def)
  with q show "quiet T m (prune_one freed (now n) k c x)" by (rule quiet_trans)
qed

text \<open>The operations of a socket keep its session and its ends.\<close>

definition same_ends :: "client_socket \<Rightarrow> client_socket \<Rightarrow> bool" where
  "same_ends c c' \<longleftrightarrow> cs_socketFd c' = cs_socketFd c \<and> cs_peerFd c' = cs_peerFd c \<and>
     cs_sessionId c' = cs_sessionId c \<and> cs_isClientToProxy c' = cs_isClientToProxy c"

lemma Read_ends: "ClientSocket_Read ks flag c buf = Some (n, e, c', buf') \<Longrightarrow> same_ends c c'"
  by (cases "ks 0")
     (auto simp: ClientSocket_Read_def read_loop_once ClientSocket_OnError_def same_ends_def split: if_splits)

lemma Write_ends: "ClientSocket_Write ks buf k c = Some (Inr (n, e, c', got)) \<Longrightarrow> same_ends c c'"
  by (auto simp: ClientSocket_Write_def ClientSocket_OnError_def bind_res_eq_Inr same_ends_def split: if_splits)

text \<open>The handler of a client either removes the pair and ends the session or sends and counts.\<close>

lemma client_effect:
  assumes "HandleClientSocketRead e k c m = Inr (go_on, m')"
  obtains c1 buf where "same_ends c c1"
    and "m' = on_world (end_session (ev_now e) (cs_sessionId c)) (remove_peer (cs_peerFd c) (remove_peer (cs_socketFd c)
      (m\<lparr>sk_buf := buf, sk_sockets := (sk_sockets m)[k := ClientS c1]\<rparr>)))"
  | c1 buf es f where "same_ends c c1" and "f \<in> range Session_AddRxBytes \<union> range Session_AddTxBytes"
    and "m' = on_world (\<lambda>w. w\<lparr>w_io := w_io w @ es, w_sessions := upd_session (cs_sessionId c) f (w_sessions w)\<rparr>)
      (m\<lparr>sk_buf := buf, sk_sockets := (sk_sockets m)[k := ClientS c1]\<rparr>)"
proof -
  obtain n err c1 buf where r: "ClientSocket_Read (ev_reads e) False c (sk_buf m) = Some (n, err, c1, buf)"
    using assms by (cases "ClientSocket_Read (ev_reads e) False c (sk_buf m)")
      (auto simp: HandleClientSocketRead_def)
  have c1: "same_ends c c1" by (rule Read_ends [OF r])
  note defs = HandleClientSocketRead_def Let_def ClientSocket_GetSessionId_def ClientSocket_GetProxyFd_def
    ClientSocket_GetFd_def
  show ?thesis
  proof (cases err)
    case True
    with assms r c1 show ?thesis by (intro that(1) [of c1 buf]) (simp_all add: defs same_ends_def)
  next
    case False
    obtain k2 e2 c2 got where w: "ClientSocket_Write (ev_writes e) buf n c1 = Some (Inr (k2, e2, c2, got))"
      using assms r False
      by (cases "ClientSocket_Write (ev_writes e) buf n c1") (auto simp: defs bind_res_eq_Inr)
    have "same_ends c c2" using c1 Write_ends [OF w] by (simp add: same_ends_def)
    moreover have "cs_sessionId c1 = cs_sessionId c" using c1 by (simp add: same_ends_def)
    moreover define f where "f = (if ClientSocket_IsClientToProxy c2 then Session_AddRxBytes k2 else Session_AddTxBytes n)"
    moreover define es where "es = (if got = [] then [] else [Send (cs_peerFd c2) (chars got)])"
    ultimately show ?thesis
      using assms r False w by (intro that(2) [of c2 f buf es]) (auto simp: defs split: option.splits)
  qed
qed

lemma relaying_update:
  assumes "k < length (sk_sockets m)" and "sk_sockets m ! k = ClientS c" and "cs_sessionId c' = cs_sessionId c"
  shows "relaying (m\<lparr>sk_sockets := (sk_sockets m)[k := ClientS c']\<rparr>) \<subseteq> relaying m"
proof -
  have "ClientS c \<in> set (sk_sockets m)" using assms(1,2) by (metis nth_mem)
  moreover have "set ((sk_sockets m)[k := ClientS c']) \<subseteq> insert (ClientS c') (set (sk_sockets m))"
    by (rule set_update_subset_insert)
  ultimately show ?thesis using assms(3) by (auto simp: relaying_def)
qed

lemma calm_count:
  assumes "\<And>s. s_sessionId (f s) = s_sessionId s \<and> s_host (f s) = s_host s \<and>
    s_userName (f s) = s_userName s \<and> s_clientFd (f s) = s_clientFd s"
  shows "calm T w (w\<lparr>w_io := w_io w @ es, w_sessions := upd_session i f (w_sessions w)\<rparr>)"
proof -
  have "sm_sessionId (upd_session i f (w_sessions w)) = sm_sessionId (w_sessions w)"
    by (simp add: upd_session_def)
  then show ?thesis
    using assms wf_upd_session [of "w_sessions w" f i] by (auto simp: calm_def alive_def sess.get_upd)
qed

lemma quiet_client:
  assumes "k < length (sk_sockets m)" and "sk_sockets m ! k = ClientS c"
    and "HandleClientSocketRead e k c m = Inr (go_on, m')" and "cs_sessionId c \<in> T"
  shows "quiet T m m'"
proof -
  have q: "quiet T m (m\<lparr>sk_buf := buf, sk_sockets := (sk_sockets m)[k := ClientS c1]\<rparr>)" if "same_ends c c1" for buf c1
    using relaying_update [OF assms(1,2), of c1] that by (simp add: quiet_def relaying_def same_ends_def)
  show ?thesis
  proof (rule client_effect [OF assms(3)])
    fix c1 buf
    let ?m = "m\<lparr>sk_buf := buf, sk_sockets := (sk_sockets m)[k := ClientS c1]\<rparr>"
    assume "same_ends c c1" and m': "m' = on_world (end_session (ev_now e) (cs_sessionId c))
      (remove_peer (cs_peerFd c) (remove_peer (cs_socketFd c) ?m))"
    from q [OF this(1), of buf] assms(4) show "quiet T m m'" unfolding m'
      by (blast intro: quiet_trans quiet_end_session quiet_remove_peer)
  next
    fix c1 buf es f
    let ?m = "m\<lparr>sk_buf := buf, sk_sockets := (sk_sockets m)[k := ClientS c1]\<rparr>"
    assume c1: "same_ends c c1" and f: "f \<in> range Session_AddRxBytes \<union> range Session_AddTxBytes"
      and m': "m' = on_world (\<lambda>w. w\<lparr>w_io := w_io w @ es, w_sessions := upd_session (cs_sessionId c) f (w_sessions w)\<rparr>) ?m"
    have "calm T (sk_world m) ((sk_world m)\<lparr>w_io := w_io (sk_world m) @ es,
        w_sessions := upd_session (cs_sessionId c) f (w_sessions (sk_world m))\<rparr>)"
      using f by (intro calm_count) (auto simp: session_ops)
    then have "quiet T ?m m'" by (simp add: quiet_def m' relaying_def)
    with q [OF c1] show "quiet T m m'" by (rule quiet_trans)
  qed
qed

abbreviation good :: "manager \<Rightarrow> bool" where
  "good m \<equiv> inv (relaying m) (sk_world m)"

text \<open>
  The kernel gives \<open>accept\<close> a descriptor that is closed, so no session has it, the counter of
  sessions does not overflow, and a pipe that epoll reports can be read. Were the read to fail,
  the handler would take the message it has not got for the failed detection of session 0.
\<close>

definition event_ok :: "event \<Rightarrow> manager \<Rightarrow> bool" where
  "event_ok e m \<longleftrightarrow> \<not> ev_read_failed e \<and> (fst (ev_accept e) < 0 \<or>
     SessionManager_GetSessionForClient (w_sessions (sk_world m)) (fst (ev_accept e)) = None)"

lemma good_server:
  assumes "good m" and "event_ok e m" and "HandleServerSocketRead e sv m = Inr (go_on, m')"
  shows "good m'"
proof (cases "fst (ServerSocket_Accept (ev_accept e) sv []) < 0")
  case True
  with assms show ?thesis by (simp add: HandleServerSocketRead_def split: prod.splits)
next
  case False
  let ?w = "emit (idle_options (fst (ev_accept e))) (emit [Timeouts (fst (ev_accept e))] (sk_world m))" let ?fd = "fst (ev_accept e)" let ?i = "sm_sessionId (w_sessions ?w)"
  have a: "ServerSocket_Accept (ev_accept e) sv [] = (?fd, snd (ev_accept e), [Timeouts ?fd])" "\<not> ?fd < 0"
    using False by (auto simp: ServerSocket_Accept_def split: if_splits)
  obtain sm r where c: "SessionManager_CreateSession (ev_junk e) (ev_now e) ?fd (w_sessions ?w) = Inr (sm, r)"
    using assms(3) a by (auto simp: HandleServerSocketRead_def Let_def bind_res_eq_Inr)
  have r: "r = Some (Session_new (ev_junk e) ?fd ?i (ev_now e))"
    using CreateSession_result(1) [OF c] assms(2) a(2) by (simp add: event_ok_def)
  have "inv (relaying m) ?w"
    by (rule inv_calm [OF assms(1) calm_static [where T = "{}"] subset_refl]) simp_all
  note 1 = inv_create [OF this c refl]
  define w2 where "w2 = ?w\<lparr>w_sessions := upd_session ?i (Session_SetClientAddress (snd (ev_accept e))) sm\<rparr>"
  have "w2 = (?w\<lparr>w_sessions := sm\<rparr>)\<lparr>w_sessions := upd_session ?i (Session_SetClientAddress (snd (ev_accept e)))
      (w_sessions (?w\<lparr>w_sessions := sm\<rparr>))\<rparr>" by (simp add: w2_def)
  from inv_update [OF 1 _ this] 1(2) have "inv (relaying m) w2" "free (relaying m) w2 ?i"
    by (simp_all add: session_ops)
  from inv_dispatch [OF this, of asyncDetector_fn] have "inv (relaying m) (ProxyConnector_BeginProxyDetect ?i w2)"
    by (simp add: ProxyConnector_BeginProxyDetect_def)
  moreover have "m' = m\<lparr>sk_world := ProxyConnector_BeginProxyDetect ?i w2\<rparr>"
    using assms(3) a c r
    by (cases "ev_accept e") (simp add: HandleServerSocketRead_def w2_def Let_def Session_new_def)
  ultimately show ?thesis by (simp add: relaying_def)
qed

lemma AddSocket_client:
  "calm T (sk_world m) (sk_world (snd (SocketManager_AddSocket room (ClientS c) m)))"
  "relaying (snd (SocketManager_AddSocket room (ClientS c) m)) \<subseteq> insert (cs_sessionId c) (relaying m)"
  by (auto simp: SocketManager_AddSocket_def calm_destroy relaying_def)

lemma good_connect_result:
  assumes "good m" and "free (relaying m) (sk_world m) (detect_sessionId msg)"
    and "connect_success msg \<Longrightarrow> live_cleared (sk_world m) (detect_sessionId msg)"
    and "HandleConnectResult e msg m = Inr m'"
  shows "good m'"
proof (cases "connect_success msg")
  case False
  obtain t s r where s: "SessionManager_GetSession (w_sessions (sk_world m)) (detect_sessionId msg) = Some s"
    and m': "m' = on_world (refuse t (s_sessionId s) s r) m"
    using False assms(4) by (auto simp: HandleConnectResult_def split: option.splits)
  have "s_sessionId s = detect_sessionId msg" using sess.get_ident [OF s] .
  with assms(2) have "{s_sessionId s} \<inter> set (pending (sk_world m)) = {}" by (simp add: free_def)
  from inv_calm [OF assms(1) calm_refuse subset_refl this] show ?thesis by (simp add: m' relaying_def)
next
  case True
  let ?i = "detect_sessionId msg"
  have i: "connect_sessionId msg = ?i" by (simp add: connect_sessionId_def detect_sessionId_def)
  obtain s where s: "SessionManager_GetSession (w_sessions (sk_world m)) ?i = Some s"
    using assms(4) by (auto simp: HandleConnectResult_def split: option.splits)
  define m1 where "m1 = snd (SocketManager_AddSocket (ev_room_client e)
    (ClientS (ClientSocket_new (s_clientFd s) (connect_proxyFd msg) ?i True)) m)"
  have m': "m' = snd (SocketManager_AddSocket (ev_room_proxy e)
    (ClientS (ClientSocket_new (connect_proxyFd msg) (s_clientFd s) ?i False)) m1)"
    using assms(4) True s by (simp add: HandleConnectResult_def m1_def i Let_def)
  have 1: "calm {} (sk_world m) (sk_world m1)" "relaying m1 \<subseteq> insert ?i (relaying m)"
    unfolding m1_def using AddSocket_client [where m = m and
      c = "ClientSocket_new (s_clientFd s) (connect_proxyFd msg) ?i True"] by simp_all
  have "calm {} (sk_world m1) (sk_world m')" "relaying m' \<subseteq> insert ?i (relaying m1)"
    unfolding m' using AddSocket_client [where m = m1 and
      c = "ClientSocket_new (connect_proxyFd msg) (s_clientFd s) ?i False"] by simp_all
  with 1 have "calm {} (sk_world m) (sk_world m')" "relaying m' \<subseteq> insert ?i (relaying m)"
    using calm_trans by blast+
  moreover have "inv (insert ?i (relaying m)) (sk_world m)"
    using inv_register [OF assms(1,2)] assms(3) True by blast
  ultimately show ?thesis by (auto intro: inv_calm)
qed

lemma good_command:
  assumes "good m" and "event_ok e m" and "HandleCommandSocketRead e m = Inr (go_on, m')"
  shows "good m'"
proof -
  obtain msg am where r: "AsyncMessenger_ReadMessage (ev_read_failed e) AsyncMessage_zero
      (w_messenger (sk_world m)) = Some (msg, am)"
    using assms(3) by (cases "AsyncMessenger_ReadMessage (ev_read_failed e) AsyncMessage_zero
      (w_messenger (sk_world m))") (auto simp: HandleCommandSocketRead_def)
  define m1 where "m1 = on_world (\<lambda>w. w\<lparr>w_messenger := am\<rparr>) m"
  have rel: "relaying m1 = relaying m" by (simp add: m1_def relaying_def)
  have 1: "good m1 \<and> (get_msgId msg = HOST_DETECT_RESULT \<or> get_msgId msg = HOST_CONNECT_RESULT \<longrightarrow>
      free (relaying m) (sk_world m1) (detect_sessionId msg)) \<and>
    (get_msgId msg = HOST_CONNECT_RESULT \<and> connect_success msg \<longrightarrow> live_cleared (sk_world m1) (detect_sessionId msg))"
  proof -
    have "pipe_deq (w_messenger (sk_world m)) = Some (msg, am)"
      using r assms(2) by (simp add: pipe_deq_def event_ok_def)
    from inv_receive [OF assms(1) this, of "sk_world m1"] rel show ?thesis
      by (auto simp: m1_def decode_def)
  qed
  have h: "(case get_msgId msg of
      HOST_DETECT_RESULT \<Rightarrow> bind_res (HandleDetectResult (ev_command e) msg (sk_world m1))
        (\<lambda>w. Inr (True, m1\<lparr>sk_world := w\<rparr>))
    | HOST_CONNECT_RESULT \<Rightarrow> bind_res (HandleConnectResult e msg m1) (\<lambda>m. Inr (True, m))
    | Other_message _ \<Rightarrow> Inr (True, m1)) = Inr (go_on, m')"
    using assms(3) r
    by (simp add: HandleCommandSocketRead_def m1_def Let_def split: AsyncMessageId.splits)
  show ?thesis
  proof (cases "get_msgId msg")
    case HOST_DETECT_RESULT
    with h obtain w where w: "HandleDetectResult (ev_command e) msg (sk_world m1) = Inr w" "m' = m1\<lparr>sk_world := w\<rparr>"
      by (auto simp: bind_res_eq_Inr)
    have "relaying m' = relaying m" using rel by (simp add: w(2) relaying_def)
    with detect_result [OF _ w(1), of "relaying m"] 1 HOST_DETECT_RESULT show ?thesis by (simp add: w(2) rel)
  next
    case HOST_CONNECT_RESULT
    with h have "HandleConnectResult e msg m1 = Inr m'" by (auto simp: bind_res_eq_Inr)
    from good_connect_result [OF _ _ _ this] 1 HOST_CONNECT_RESULT show ?thesis by (simp add: rel)
  next
    case (Other_message x)
    with h 1 show ?thesis by simp
  qed
qed

section \<open>Turns of the loop\<close>

lemma good_handle_socket:
  assumes "good m" and "event_ok e m" and "k < length (sk_sockets m)" and "handle_socket e k m = Inr (go_on, m')"
  shows "good m'"
proof (cases "sk_sockets m ! k")
  case (ServerS sv)
  then show ?thesis using assms by (auto simp: handle_socket_def intro: good_server)
next
  case (ClientS c)
  have "ClientS c \<in> set (sk_sockets m)" using assms(3) ClientS by (metis nth_mem)
  then have "quiet (relaying m) m m'"
    using assms ClientS by (intro quiet_client) (auto simp: handle_socket_def relaying_def)
  then show ?thesis by (rule inv_quiet [OF assms(1)])
next
  case CommandS
  then show ?thesis using assms by (auto simp: handle_socket_def intro: good_command)
qed

text \<open>A turn with several events is a sequence of turns with one, until one stops the loop.\<close>

lemma event_loop_sequence:
  "event_loop (e # es) m =
     bind_res (event_loop [e] m) (\<lambda>(go_on, m). if \<not> go_on then Inr (False, m) else event_loop es m)"
  by (auto simp: bind_res_assoc split: option.splits prod.splits intro!: arg_cong2 [of _ _ _ _ bind_res])

lemma good_single:
  assumes "good m" and "event_ok e m" and "event_loop [e] m = Inr (go_on, m')"
  shows "good m'"
proof (cases "find_index (\<lambda>s. fd_of m s = ev_fd e) (sk_sockets m)")
  case None
  with assms show ?thesis by simp
next
  case (Some k)
  then obtain g where "handle_socket e k m = Inr (g, m')"
    using assms(3) by (auto simp: bind_res_eq_Inr split: if_splits)
  moreover have "k < length (sk_sockets m)" using find_index_Some [OF Some] by simp
  ultimately show ?thesis using good_handle_socket assms(1,2) by blast
qed

text \<open>Each event of a turn, in the state it finds.\<close>

fun events_ok :: "event list \<Rightarrow> manager \<Rightarrow> bool" where
  "events_ok [] m = True"
| "events_ok (e # es) m =
     (event_ok e m \<and> (case event_loop [e] m of Inr (True, m) \<Rightarrow> events_ok es m | _ \<Rightarrow> True))"

lemma good_event_loop:
  assumes "good m" and "events_ok es m" and "event_loop es m = Inr (go_on, m')"
  shows "good m'"
  using assms
proof (induction es arbitrary: m)
  case Nil
  then show ?case by simp
next
  case (Cons e es)
  obtain g m1 where 1: "event_loop [e] m = Inr (g, m1)"
    and 2: "(if \<not> g then Inr (False, m1) else event_loop es m1) = Inr (go_on, m')"
    using Cons.prems(3) unfolding event_loop_sequence [of e es] bind_res_eq_Inr by auto
  have "good m1" using good_single [OF Cons.prems(1) _ 1] Cons.prems(2) by simp
  with Cons 1 2 show ?case by (cases g) auto
qed

lemma good_turn:
  assumes "good m" and "case answer of Ready es \<Rightarrow> events_ok es m | Wait_error x \<Rightarrow> True"
    and "SocketManager_ProcessSockets env answer m = Inr (go_on, m')"
  shows "good m'"
proof (cases answer)
  case (Wait_error x)
  with assms show ?thesis by (auto simp: SocketManager_ProcessSockets_def split: if_splits)
next
  case (Ready es)
  show ?thesis
  proof (cases "sk_isActive m \<and> es = []")
    case False
    with assms Ready show ?thesis
      by (cases "sk_isActive m") (auto simp: SocketManager_ProcessSockets_def intro: good_event_loop)
  next
    case True
    then obtain m1 where p: "prune_loop (id_freed env) (id_prune_now env) 0 m = Some m1"
      using assms(3) Ready
      by (auto simp: SocketManager_ProcessSockets_def SocketManager_PruneExcessConnections_def bind_res_eq_Inr
          loop_res_def split: option.splits)
    have "good m1" using quiet_prune_loop [OF p subset_refl] inv_quiet assms(1) by blast
    moreover have "quiet (relaying m1) m1 m'"
      using assms(3) Ready True p
      by (auto simp: SocketManager_ProcessSockets_def SocketManager_PruneExcessConnections_def Let_def quiet_def
          relaying_def intro!: calm_static split: if_splits prod.splits)
    ultimately show ?thesis using inv_quiet by blast
  qed
qed

section \<open>The configuration stays\<close>

definition settled :: "world \<Rightarrow> auth_manager \<times> policy_list \<times> blacklist_list" where
  "settled w = (w_auth w, w_policies w, w_blacklists w)"

lemma settled_calm: "calm T w w' \<Longrightarrow> settled w' = settled w"
  by (simp add: calm_def settled_def)

lemma settled_quiet: "quiet T m m' \<Longrightarrow> settled (sk_world m') = settled (sk_world m)"
  by (auto simp: quiet_def dest: settled_calm)

lemma settled_AddSocket [simp]:
  "settled (sk_world (snd (SocketManager_AddSocket room s m))) = settled (sk_world m)"
  by (cases s) (auto simp: SocketManager_AddSocket_def destroy_def settled_def)

lemma settled_server: "HandleServerSocketRead e sv m = Inr (go_on, m') \<Longrightarrow> settled (sk_world m') = settled (sk_world m)"
  by (auto simp: HandleServerSocketRead_def ProxyConnector_BeginProxyDetect_def ThreadPool_Dispatch_def settled_def Let_def
      bind_res_eq_Inr split: prod.splits if_splits option.splits)

lemma settled_simps [simp]:
  "settled (w\<lparr>w_messenger := am\<rparr>) = settled w"
  "settled (w\<lparr>w_work := ps\<rparr>) = settled w"
  "settled (set_user_name i n w) = settled w"
  "settled (sendResponse wrote fd i ok w) = settled w"
  "settled (sendErrorResponse wrote i w) = settled w"
  "settled (ThreadPool_Dispatch p w) = settled w"
  "settled (refuse now i s r w) = settled w"
  using settled_calm [OF calm_refuse]
  by (simp_all add: settled_def set_user_name_def sendResponse_def sendErrorResponse_def ThreadPool_Dispatch_def)

lemma settled_connect_proxy:
  "ProxyConnector_ConnectProxy wrote i w = Inr w' \<Longrightarrow> settled w' = settled w"
  by (cases "SessionManager_GetSession (w_sessions w) i")
     (auto simp: connect_proxy_eq split: if_splits, simp add: ProxyConnector_ConnectProxy_def)

lemma settled_detect_result:
  assumes "HandleDetectResult env msg w = Inr w'"
  shows "settled w' = settled w"
proof -
  have h: "settled w' = settled w" if "authenticate_header lt i a w = Inr (w', r)" for lt i a w w' r
    using header_world [OF that] by auto
  have a: "settled w' = settled w" if "authenticate_address lt i s w = Inr (w', r)" for lt i s w w' r
    using address_world [OF that] by auto
  from assms show ?thesis
    by (auto simp: HandleDetectResult_def Let_def bind_res_eq_Inr dest!: h a settled_connect_proxy
        split: option.splits if_splits)
qed

lemma settled_connect_result:
  "HandleConnectResult e msg m = Inr m' \<Longrightarrow> settled (sk_world m') = settled (sk_world m)"
  by (auto simp: HandleConnectResult_def Let_def split: option.splits if_splits)

lemma settled_command:
  assumes "HandleCommandSocketRead e m = Inr (go_on, m')"
  shows "settled (sk_world m') = settled (sk_world m)"
proof -
  obtain msg am where "(case get_msgId msg of
      HOST_DETECT_RESULT \<Rightarrow> bind_res (HandleDetectResult (ev_command e) msg (sk_world (on_world (\<lambda>w. w\<lparr>w_messenger := am\<rparr>) m)))
        (\<lambda>w. Inr (True, (on_world (\<lambda>w. w\<lparr>w_messenger := am\<rparr>) m)\<lparr>sk_world := w\<rparr>))
    | HOST_CONNECT_RESULT \<Rightarrow> bind_res (HandleConnectResult e msg (on_world (\<lambda>w. w\<lparr>w_messenger := am\<rparr>) m))
        (\<lambda>m. Inr (True, m))
    | Other_message _ \<Rightarrow> Inr (True, on_world (\<lambda>w. w\<lparr>w_messenger := am\<rparr>) m)) = Inr (go_on, m')"
    using assms by (auto simp: HandleCommandSocketRead_def bind_res_eq_Inr Let_def)
  then show ?thesis
    by (cases "get_msgId msg")
       (auto simp: bind_res_eq_Inr dest!: settled_detect_result settled_connect_result)
qed

lemma settled_handle_socket:
  assumes "k < length (sk_sockets m)" and "handle_socket e k m = Inr (go_on, m')"
  shows "settled (sk_world m') = settled (sk_world m)"
proof (cases "sk_sockets m ! k")
  case (ServerS sv)
  with assms show ?thesis by (simp add: handle_socket_def settled_server)
next
  case (ClientS c)
  with assms show ?thesis
    by (intro settled_quiet [of UNIV] quiet_client) (simp_all add: handle_socket_def)
next
  case CommandS
  with assms show ?thesis by (simp add: handle_socket_def settled_command)
qed

lemma settled_single:
  "event_loop [e] m = Inr (go_on, m') \<Longrightarrow> settled (sk_world m') = settled (sk_world m)"
  by (auto simp: bind_res_eq_Inr dest: settled_handle_socket find_index_Some split: option.splits if_splits)

lemma settled_event_loop:
  "event_loop es m = Inr (go_on, m') \<Longrightarrow> settled (sk_world m') = settled (sk_world m)"
proof (induction es arbitrary: m)
  case (Cons e es)
  obtain g m1 where 1: "event_loop [e] m = Inr (g, m1)"
    and 2: "(if \<not> g then Inr (False, m1) else event_loop es m1) = Inr (go_on, m')"
    using Cons.prems unfolding event_loop_sequence [of e es] bind_res_eq_Inr by auto
  from Cons.IH [of m1] settled_single [OF 1] 2 show ?case by (cases g) auto
qed simp

lemma settled_turn:
  assumes "SocketManager_ProcessSockets env answer m = Inr (go_on, m')"
  shows "settled (sk_world m') = settled (sk_world m)"
proof (cases "\<exists>es. answer = Ready es \<and> es \<noteq> []")
  case True
  with assms show ?thesis
    by (cases "sk_isActive m") (auto simp: SocketManager_ProcessSockets_def dest: settled_event_loop)
next
  case False
  have p: "settled (sk_world m1) = settled (sk_world m)"
    if "prune_loop (id_freed env) (id_prune_now env) 0 m = Some m1" for m1
    using settled_quiet [OF quiet_prune_loop [OF that subset_refl]] .
  from False assms show ?thesis
    by (cases answer)
       (auto simp: SocketManager_ProcessSockets_def SocketManager_PruneExcessConnections_def bind_res_eq_Inr
          loop_res_def settled_def Let_def dest!: p split: option.splits if_splits prod.splits)
qed

section \<open>The whole proxy\<close>

text \<open>
  A step is a turn of the loop or a task of a worker. A turn with one event is a step, so the
  steps between two events of a turn may be tasks. A worker takes any package of the list: the
  order in which the threads get the packages is left open. While a task runs, its session is
  still counted as pending. A connector ends with its report, but for the cache that it clears when
  no address answered: that is a step of its own, allowed at any time and for any session, so that
  everything may happen between the report and it.
\<close>

inductive proxy_step :: "manager \<Rightarrow> manager \<Rightarrow> bool" where
  turn: "SocketManager_ProcessSockets env answer m = Inr (True, m') \<Longrightarrow>
    (case answer of Ready es \<Rightarrow> events_ok es m | Wait_error x \<Rightarrow> True) \<Longrightarrow> proxy_step m m'"
| detect: "w_work (sk_world m) = xs @ \<lparr>wp_handler = Some asyncDetector_fn, wp_context = i\<rparr> # ys \<Longrightarrow>
    asyncDetector answer wrote i (w_sessions (sk_world m)) (w_messenger (sk_world m)) = Inr (sm, am) \<Longrightarrow>
    proxy_step m (on_world (\<lambda>w. w\<lparr>w_work := xs @ ys, w_sessions := sm, w_messenger := am\<rparr>) m)"
| connect: "w_work (sk_world m) = xs @ \<lparr>wp_handler = Some asyncConnector_fn, wp_context = i\<rparr> # ys \<Longrightarrow>
    int32 (ce_socket env) \<Longrightarrow>
    asyncConnector_report env i ((sk_world m)\<lparr>w_work := xs @ ys\<rparr>) = Inr (late, w') \<Longrightarrow>
    proxy_step m (m\<lparr>sk_world := w'\<rparr>)"
| purge: "asyncConnector_purge i (sk_world m) = Inr w' \<Longrightarrow> proxy_step m (m\<lparr>sk_world := w'\<rparr>)"

lemma step_good:
  assumes "proxy_step m m'" and "good m"
  shows "good m' \<and> settled (sk_world m') = settled (sk_world m)"
  using assms
proof (induction rule: proxy_step.induct)
  case (turn env answer m m')
  then show ?case using good_turn settled_turn by blast
next
  case (detect m xs i ys answer wrote sm am)
  let ?w = "(sk_world m)\<lparr>w_work := xs @ ys\<rparr>"
  note take = inv_take [OF detect.prems detect.hyps(1) refl]
  have "asyncDetector answer wrote i (w_sessions ?w) (w_messenger ?w) = Inr (sm, am)"
    using detect.hyps(2) by simp
  from detector_task [OF take(1,2) this] show ?case by (simp add: relaying_def settled_def)
next
  case (connect m xs i ys env late w')
  let ?w = "(sk_world m)\<lparr>w_work := xs @ ys\<rparr>"
  note take = inv_take [OF connect.prems connect.hyps(1) refl]
  from connector_effect [OF connect.hyps(3)] have "settled w' = settled (sk_world m)" by (auto simp: settled_def)
  with connector_task [OF take(1,2) take(3) [OF refl] connect.hyps(2,3)] show ?case by (simp add: relaying_def)
next
  case (purge i m w')
  from inv_calm [OF purge.prems purge_task [OF purge.hyps]] settled_calm [OF purge_task [OF purge.hyps]]
  show ?case by (simp add: relaying_def)
qed

lemma reach_good:
  assumes "proxy_step\<^sup>*\<^sup>* m m'" and "good m"
  shows "good m' \<and> settled (sk_world m') = settled (sk_world m)"
  using assms by (induction rule: rtranclp_induct) (auto dest: step_good)

text \<open>Before the first turn: no session, no task, an empty pipe and no socket of a session.\<close>

definition untouched :: "manager \<Rightarrow> bool" where
  "untouched m \<longleftrightarrow> w_sessions (sk_world m) = SessionManager_new \<and> w_work (sk_world m) = [] \<and>
     m_pipe (w_messenger (sk_world m)) = [] \<and> relaying m = {}"

lemma untouched_good: "untouched m \<Longrightarrow> good m"
  using wf_SessionManager_new
  by (auto simp: untouched_def inv_def owned_def vetted_def pending_def connecting_def reports_def
      pipe_messages_def wf_pipe_def SessionManager_new_def chunks.simps [of "[]"])

lemma untouched_AddSocket:
  assumes "untouched m" and "\<And>c. s \<noteq> ClientS c"
  shows "untouched (snd (SocketManager_AddSocket room s m))"
  using assms by (cases s) (auto simp: untouched_def SocketManager_AddSocket_def destroy_def relaying_def)

lemma start_state:
  assumes "main_start env junk fs st0 = Inr (Running m)"
  shows "untouched m \<and> (\<exists>st. DoConfig (se_daemon env) junk fs (case se_argument env of Some a \<Rightarrow> a | None \<Rightarrow> ''default.conf'') st0 = Inr st \<and>
    settled (sk_world m) = (st_auth st, st_policies st, st_lists st))"
proof -
  define a where "a = (case se_argument env of Some a \<Rightarrow> a | None \<Rightarrow> ''default.conf'')"
  obtain st m0 sv am where st: "DoConfig (se_daemon env) junk fs a st0 = Inr st"
    and m0: "SocketManager_Initialize (se_epoll env) (SocketManager_new fs (world_start (st_auth st) (st_policies st)
      (st_lists st) (- 1, - 1) (se_now env))) = (True, m0)"
    and am: "AsyncMessenger_new (se_pipe env) = Some am"
    and m: "m = snd (SocketManager_AddSocket (se_room_command env) CommandS (on_world (\<lambda>w. w\<lparr>w_messenger := am\<rparr>)
      (snd (SocketManager_AddSocket (se_room_server env) (ServerS sv) m0))))"
    using assms
    by (auto simp: main_start_def Let_def bind_res_eq_Inr a_def split: if_splits option.splits prod.splits)
  have "m_pipe am = []" using am by (auto simp: AsyncMessenger_new_def split: option.splits prod.splits)
  have 1: "untouched m0" "settled (sk_world m0) = (st_auth st, st_policies st, st_lists st)"
    using m0 by (auto simp: SocketManager_Initialize_def SocketManager_new_def world_start_def untouched_def
        relaying_def settled_def split: if_splits)
  let ?m1 = "snd (SocketManager_AddSocket (se_room_server env) (ServerS sv) m0)"
  have "untouched ?m1" by (rule untouched_AddSocket [OF 1(1)]) simp
  then have "untouched (on_world (\<lambda>w. w\<lparr>w_messenger := am\<rparr>) ?m1)"
    using \<open>m_pipe am = []\<close> by (simp add: untouched_def relaying_def)
  then have "untouched m" unfolding m by (rule untouched_AddSocket) simp
  then show ?thesis using st 1(2) by (simp add: m a_def)
qed

end
