(* ===== verification/Pairing.thy ===== *)
theory Pairing
  imports Lifecycle
begin

text \<open>
  Who holds which descriptor. A descriptor belongs to a registered socket, to a session that waits
  for a task or a report, or to a report of a connection; when the kernel only hands out descriptors
  that nobody holds, no two of these are the same. So the sockets of a connection stay a pair, and
  bytes of one session never reach another.
\<close>

section \<open>Descriptors held\<close>

fun carried :: "report \<Rightarrow> int list" where
  "carried (Connected fd i b) = (if b then [fd] else [])"
| "carried _ = []"

definition client_fd :: "world \<Rightarrow> int \<Rightarrow> int" where
  "client_fd w i = (case SessionManager_GetSession (w_sessions w) i of Some s \<Rightarrow> s_clientFd s | None \<Rightarrow> - 1)"

definition flight :: "world \<Rightarrow> int list" where
  "flight w = map (client_fd w) (pending w) @ concat (map carried (reports (w_messenger w)))"

definition held :: "manager \<Rightarrow> int list" where
  "held m = map (fd_of m) (sk_sockets m) @ flight (sk_world m)"

lemma distinct_submset:
  assumes "mset xs \<subseteq># mset ys" and "distinct ys"
  shows "distinct xs"
  unfolding distinct_count_atmost_1
proof
  fix a
  have "count (mset xs) a \<le> count (mset ys) a" using assms(1) by (rule mset_subset_eq_count)
  moreover have "count (mset ys) a \<le> 1" using assms(2) by (simp add: distinct_count_atmost_1)
  ultimately have le: "count (mset xs) a \<le> 1" by linarith
  show "count (mset xs) a = (if a \<in> set xs then 1 else 0)"
  proof (cases "a \<in> set xs")
    case True
    then have "0 < count (mset xs) a" by simp
    with le True show ?thesis by (simp only: if_True)
  qed (simp add: count_eq_zero_iff)
qed

lemma client_fd_calm:
  assumes "calm T w w'" and "wf_sessions (w_sessions w)" and "i \<notin> T" and "alive w i"
  shows "client_fd w' i = client_fd w i"
proof -
  have "alive w' i" using assms by (simp add: calm_def)
  then obtain s' where s': "SessionManager_GetSession (w_sessions w') i = Some s'" by (auto simp: alive_def)
  with assms obtain s where "SessionManager_GetSession (w_sessions w) i = Some s" "s_clientFd s' = s_clientFd s"
    unfolding calm_def by blast
  with s' show ?thesis by (simp add: client_fd_def)
qed

lemma flight_calm:
  assumes "inv S w" and "calm T w w'" and "T \<inter> set (pending w) = {}"
  shows "flight w' = flight w"
proof -
  have w: "w_work w' = w_work w" "w_messenger w' = w_messenger w" using assms(2) by (simp_all add: calm_def)
  then have p: "pending w' = pending w" by (simp add: pending_def)
  have "client_fd w' i = client_fd w i" if "i \<in> set (pending w)" for i
    using assms that by (intro client_fd_calm [OF assms(2)]) (auto simp: inv_def owned_def)
  with w p show ?thesis by (simp add: flight_def)
qed

lemma client_fd_cong: "w_sessions w' = w_sessions w \<Longrightarrow> client_fd w' = client_fd w"
  by (simp add: client_fd_def fun_eq_iff)

lemma flight_dispatch:
  "mset (flight (ThreadPool_Dispatch \<lparr>wp_handler = h, wp_context = i\<rparr> w)) = add_mset (client_fd w i) (mset (flight w))"
  using client_fd_cong [of "ThreadPool_Dispatch \<lparr>wp_handler = h, wp_context = i\<rparr> w" w]
  by (simp add: flight_def pending_def ThreadPool_Dispatch_def work_push_def)

lemma flight_send:
  assumes "wf_pipe (w_messenger w)" and "proper r" and "subject r = [i]"
    and "w' = w\<lparr>w_messenger := snd (AsyncMessenger_WriteMessage wrote (encode r) (w_messenger w))\<rparr>"
  shows "mset (flight w') = mset (flight w) + (if wrote then add_mset (client_fd w i) (mset (carried r)) else {#})"
proof -
  have "client_fd w' = client_fd w" by (rule client_fd_cong) (simp add: assms(4))
  then show ?thesis
    by (simp add: flight_def pending_def assms(3,4) reports_send [OF assms(1,2)])
qed

lemma flight_take:
  assumes "w_work w = xs @ \<lparr>wp_handler = h, wp_context = i\<rparr> # ys" and "w' = w\<lparr>w_work := xs @ ys\<rparr>"
  shows "mset (flight w) = add_mset (client_fd w i) (mset (flight w'))" and "client_fd w' = client_fd w"
proof -
  show "client_fd w' = client_fd w" by (rule client_fd_cong) (simp add: assms(2))
  then show "mset (flight w) = add_mset (client_fd w i) (mset (flight w'))"
    by (simp add: flight_def pending_def assms)
qed

lemma flight_receive:
  assumes "wf_pipe (w_messenger w)" and "pipe_deq (w_messenger w) = Some (msg, am)" and "w' = w\<lparr>w_messenger := am\<rparr>"
  shows "mset (flight w) = mset (map (client_fd w) (subject (decode msg))) + mset (carried (decode msg)) + mset (flight w')"
    and "client_fd w' = client_fd w"
proof -
  from pipe.deq_Some [OF assms(1,2)] have r: "reports (w_messenger w) = decode msg # reports am"
    by (simp_all add: reports_def)
  show "client_fd w' = client_fd w" by (rule client_fd_cong) (simp add: assms(3))
  then show "mset (flight w) = mset (map (client_fd w) (subject (decode msg))) + mset (carried (decode msg)) + mset (flight w')"
    by (simp add: flight_def pending_def assms(3) r)
qed

lemma client_fd_update:
  assumes "\<And>s. s_sessionId (f s) = s_sessionId s \<and> s_clientFd (f s) = s_clientFd s"
    and "w_sessions w' = upd_session i f (w_sessions w)"
  shows "client_fd w' = client_fd w"
  using assms by (auto simp: client_fd_def sess.get_upd fun_eq_iff split: option.split)

section \<open>The tasks and the gate\<close>

lemma detector_flight:
  assumes "inv S w" and "w_work w = xs @ \<lparr>wp_handler = h, wp_context = i\<rparr> # ys" and "int32 i"
    and "asyncDetector answer wrote i (w_sessions w) (w_messenger w) = Inr (sm, am)"
    and "w' = w\<lparr>w_work := xs @ ys, w_sessions := sm, w_messenger := am\<rparr>"
  shows "mset (flight w') \<subseteq># mset (flight w)" and "client_fd w' = client_fd w"
proof -
  obtain d r where d: "sm = (if d_success d then upd_session i (store_detection d r) (w_sessions w) else w_sessions w)"
    "am = snd (AsyncMessenger_WriteMessage wrote (encode (Detected i (d_success d))) (w_messenger w))"
    using detector_effect [OF assms(4)] by metis
  define w1 where "w1 = w\<lparr>w_work := xs @ ys\<rparr>"
  define w2 where "w2 = w1\<lparr>w_sessions := sm\<rparr>"
  note take = flight_take [OF assms(2) w1_def]
  have c: "client_fd w2 = client_fd w1"
  proof (cases "d_success d")
    case True
    have "s_sessionId (store_detection d r s) = s_sessionId s \<and> s_clientFd (store_detection d r s) = s_clientFd s" for s
      by (simp add: store_detection_def session_ops)
    then show ?thesis by (rule client_fd_update) (simp add: w2_def w1_def d(1) True)
  qed (rule client_fd_cong, simp add: w2_def w1_def d(1))
  then have f: "flight w2 = flight w1" by (simp add: flight_def w2_def pending_def)
  have w': "w' = w2\<lparr>w_messenger := snd (AsyncMessenger_WriteMessage wrote (encode (Detected i (d_success d))) (w_messenger w2))\<rparr>"
    by (simp add: assms(5) w2_def w1_def d(2))
  have "wf_pipe (w_messenger w2)" using assms(1) by (simp add: w2_def w1_def inv_def)
  from flight_send [OF this _ _ w'] assms(3) take f c show "mset (flight w') \<subseteq># mset (flight w)" by simp
  have "client_fd w' = client_fd w2" by (rule client_fd_cong) (simp add: w')
  with c take show "client_fd w' = client_fd w" by simp
qed

lemma connector_flight:
  assumes "inv S w" and "w_work w = xs @ \<lparr>wp_handler = h, wp_context = i\<rparr> # ys" and "int32 i" and "int32 (ce_socket env)"
    and "asyncConnector_report env i (w\<lparr>w_work := xs @ ys\<rparr>) = Inr (late, w')"
  shows "mset (flight w') \<subseteq># add_mset (ce_socket env) (mset (flight w))" and "client_fd w' = client_fd w"
proof -
  define w1 where "w1 = w\<lparr>w_work := xs @ ys\<rparr>"
  note take = flight_take [OF assms(2) w1_def]
  obtain ok c es where w': "w' = (w1\<lparr>w_cache := c, w_io := es\<rparr>)
    \<lparr>w_messenger := snd (AsyncMessenger_WriteMessage (ce_wrote env)
       (encode (Connected (if ok then ce_socket env else - 1) i ok)) (w_messenger w1))\<rparr>"
    using connector_effect [OF assms(5)] by (auto simp: w1_def)
  define w2 where "w2 = w1\<lparr>w_cache := c, w_io := es\<rparr>"
  have c2: "client_fd w2 = client_fd w1" by (rule client_fd_cong) (simp add: w2_def)
  then have f: "flight w2 = flight w1" by (simp add: flight_def w2_def pending_def)
  have w2': "w' = w2\<lparr>w_messenger := snd (AsyncMessenger_WriteMessage (ce_wrote env)
       (encode (Connected (if ok then ce_socket env else - 1) i ok)) (w_messenger w2))\<rparr>"
    by (simp add: w' w2_def)
  have "wf_pipe (w_messenger w2)" using assms(1) by (simp add: w2_def w1_def inv_def)
  from flight_send [OF this _ _ w2'] assms(3,4) take f c2
  show "mset (flight w') \<subseteq># add_mset (ce_socket env) (mset (flight w))" by (auto simp: int32_def)
  have "client_fd w' = client_fd w2" by (rule client_fd_cong) (simp add: w2')
  with c2 take show "client_fd w' = client_fd w" by simp
qed

text \<open>What the handler of a detection may do, whatever it decides.\<close>

lemma detect_result_cases:
  assumes "HandleDetectResult env msg w = Inr w'"
  obtains w1 where "w1 = w \<or> (\<exists>n. w1 = set_user_name (detect_sessionId msg) n w)"
    and "(\<exists>now s r. w' = refuse now (detect_sessionId msg) s r w1) \<or>
      ProxyConnector_ConnectProxy (ke_wrote env) (detect_sessionId msg) w1 = Inr w'"
proof -
  let ?i = "detect_sessionId msg"
  obtain s where s: "SessionManager_GetSession (w_sessions w) ?i = Some s"
    using assms by (auto simp: HandleDetectResult_def Let_def split: option.splits)
  show ?thesis
  proof (cases "detect_success msg \<and> am_enabled (w_auth w)")
    case False
    with assms s show ?thesis
      by (intro that [of w]) (auto simp: HandleDetectResult_def AuthManager_IsEnabled_def Let_def split: if_splits)
  next
    case True
    then obtain w1 refusal where a: "(case strstr (cstr (s_request s)) auth_header of
          Some authString \<Rightarrow> authenticate_header (ke_localtime env) ?i authString w
        | None \<Rightarrow> authenticate_address (ke_localtime env) ?i s w) = Inr (w1, refusal)"
      and r: "(case refusal of Some response \<Rightarrow> Inr (refuse (ke_now env) ?i s response w1)
          | None \<Rightarrow> ProxyConnector_ConnectProxy (ke_wrote env) ?i w1) = Inr w'"
      using assms s by (auto simp: HandleDetectResult_def AuthManager_IsEnabled_def Let_def bind_res_eq_Inr)
    have "w1 = w \<or> (\<exists>n. w1 = set_user_name ?i n w)"
      using a header_world address_world by (auto split: option.splits)
    with r show ?thesis by (intro that [of w1]) (auto split: option.splits)
  qed
qed

lemma alive_set_user_name: "alive (set_user_name i n w) = alive w"
  by (auto simp: alive_def get_set_user_name fun_eq_iff)

lemma flight_set_user_name [simp]:
  "client_fd (set_user_name i n w) = client_fd w" "flight (set_user_name i n w) = flight w"
proof -
  show "client_fd (set_user_name i n w) = client_fd w"
    by (rule client_fd_update [where f = "Session_SetUserName n"]) (simp_all add: set_user_name_def Session_SetUserName_def)
  then show "flight (set_user_name i n w) = flight w"
    by (simp add: flight_def pending_def set_user_name_def)
qed

lemma connect_proxy_flight:
  assumes "inv S w" and "int32 i" and "ProxyConnector_ConnectProxy wrote i w = Inr w'"
  shows "mset (flight w') \<subseteq># add_mset (client_fd w i) (mset (flight w)) \<and> w_sessions w' = w_sessions w \<and>
    readPipe (w_messenger w') = readPipe (w_messenger w)"
proof -
  obtain s where s: "SessionManager_GetSession (w_sessions w) i = Some s"
    using assms(3) by (auto simp: ProxyConnector_ConnectProxy_def split: option.splits)
  show ?thesis
  proof (cases "policy_allows (w_policies w) (w_blacklists w) (s_userName s) (s_host s)")
    case True
    with connect_proxy_effect [OF s assms(3)] show ?thesis
      using flight_dispatch [of "Some asyncConnector_fn" i w] by (simp add: ThreadPool_Dispatch_def)
  next
    case False
    with connect_proxy_effect [OF s assms(3)] have w': "w' = w\<lparr>w_messenger :=
        snd (AsyncMessenger_WriteMessage wrote (encode (Connected (- 1) i False)) (w_messenger w))\<rparr>" by simp
    have "wf_pipe (w_messenger w)" using assms(1) by (simp add: inv_def)
    from flight_send [OF this _ _ w'] assms(2) show ?thesis
      by (simp add: int32_def) (simp add: w' AsyncMessenger_WriteMessage_def)
  qed
qed

lemma detect_result_flight:
  assumes "inv S w" and "free S w (detect_sessionId msg)" and "HandleDetectResult env msg w = Inr w'"
  shows "mset (flight w') \<subseteq># add_mset (client_fd w (detect_sessionId msg)) (mset (flight w))"
    and "alive w' j \<Longrightarrow> alive w j \<and> client_fd w' j = client_fd w j"
    and "readPipe (w_messenger w') = readPipe (w_messenger w)"
proof -
  let ?i = "detect_sessionId msg"
  obtain w1 where w1: "w1 = w \<or> (\<exists>n. w1 = set_user_name ?i n w)"
    and w': "(\<exists>now s r. w' = refuse now ?i s r w1) \<or> ProxyConnector_ConnectProxy (ke_wrote env) ?i w1 = Inr w'"
    using detect_result_cases [OF assms(3)] by blast
  have 1: "inv S w1" "free S w1 ?i" "client_fd w1 = client_fd w" "flight w1 = flight w"
    "alive w1 = alive w" "w_messenger w1 = w_messenger w"
    using w1 assms(1,2) by (auto simp: inv_set_user_name alive_set_user_name) (simp_all add: set_user_name_def)
  have "mset (flight w') \<subseteq># add_mset (client_fd w ?i) (mset (flight w)) \<and>
    (alive w' j \<longrightarrow> alive w j \<and> client_fd w' j = client_fd w j) \<and> readPipe (w_messenger w') = readPipe (w_messenger w)"
  proof (cases "\<exists>now s r. w' = refuse now ?i s r w1")
    case True
    then obtain now s r where r: "w' = refuse now ?i s r w1" by blast
    have c: "calm {?i} w1 w'" unfolding r by (rule calm_refuse)
    have "flight w' = flight w1" using 1(2) by (intro flight_calm [OF 1(1) c]) (simp add: free_def)
    moreover have "alive w1 j \<and> client_fd w' j = client_fd w1 j" if "alive w' j"
      using c 1(1) that unfolding calm_def inv_def alive_def client_fd_def by fastforce
    moreover have "w_messenger w' = w_messenger w1" using c by (simp add: calm_def)
    ultimately show ?thesis using 1(3-6) by simp
  next
    case False
    with w' have "ProxyConnector_ConnectProxy (ke_wrote env) ?i w1 = Inr w'" by blast
    from connect_proxy_flight [OF 1(1) free_int32 [OF 1(1,2)] this] 1(3-6) client_fd_cong [of w' w1]
    show ?thesis by (simp add: alive_def fun_eq_iff)
  qed
  then show "mset (flight w') \<subseteq># add_mset (client_fd w ?i) (mset (flight w))"
    and "alive w' j \<Longrightarrow> alive w j \<and> client_fd w' j = client_fd w j"
    and "readPipe (w_messenger w') = readPipe (w_messenger w)" by blast+
qed

section \<open>Pairs\<close>

text \<open>The other end of a connection.\<close>

definition opposite :: "client_socket \<Rightarrow> client_socket \<Rightarrow> bool" where
  "opposite c c' \<longleftrightarrow> cs_socketFd c' = cs_peerFd c \<and> cs_peerFd c' = cs_socketFd c \<and>
     cs_sessionId c' = cs_sessionId c \<and> cs_isClientToProxy c' = (\<not> cs_isClientToProxy c)"

text \<open>Each socket has its opposite, and no third socket has their session.\<close>

definition paired :: "socket list \<Rightarrow> bool" where
  "paired ss \<longleftrightarrow> (\<forall>c. ClientS c \<in> set ss \<longrightarrow> (\<exists>c'. ClientS c' \<in> set ss \<and> opposite c c')) \<and>
     (\<forall>c d. ClientS c \<in> set ss \<longrightarrow> ClientS d \<in> set ss \<longrightarrow> cs_sessionId c = cs_sessionId d \<longrightarrow>
        cs_socketFd d = cs_socketFd c \<or> cs_socketFd d = cs_peerFd c)"

lemma paired_add:
  assumes "paired ss" and "\<And>c. ClientS c \<in> set ss \<Longrightarrow> cs_sessionId c \<noteq> i"
  shows "paired (ss @ crossed a b i)"
proof -
  let ?c = "ClientSocket_new a b i True" let ?d = "ClientSocket_new b a i False"
  have o: "opposite ?c ?d" "opposite ?d ?c" by (simp_all add: opposite_def ClientSocket_new_def)
  have n: "cs_sessionId ?c = i" "cs_sessionId ?d = i" "cs_socketFd ?c = a" "cs_socketFd ?d = b"
    "cs_peerFd ?c = b" "cs_peerFd ?d = a" by (simp_all add: ClientSocket_new_def)
  have s: "ClientS c \<in> set (ss @ crossed a b i) \<longleftrightarrow> ClientS c \<in> set ss \<or> c = ?c \<or> c = ?d" for c
    by (auto simp: crossed_def)
  show ?thesis
    unfolding paired_def s
  proof (intro conjI allI impI)
    fix c assume "ClientS c \<in> set ss \<or> c = ?c \<or> c = ?d"
    then show "\<exists>c'. (ClientS c' \<in> set ss \<or> c' = ?c \<or> c' = ?d) \<and> opposite c c'"
      using assms(1) o unfolding paired_def by blast
  next
    fix c d assume "ClientS c \<in> set ss \<or> c = ?c \<or> c = ?d" "ClientS d \<in> set ss \<or> d = ?c \<or> d = ?d"
      "cs_sessionId c = cs_sessionId d"
    then show "cs_socketFd d = cs_socketFd c \<or> cs_socketFd d = cs_peerFd c"
      using assms n unfolding paired_def by metis
  qed
qed

lemma paired_update:
  assumes "paired ss" and "k < length ss" and "ss ! k = ClientS c" and "same_ends c c1"
  shows "paired (ss[k := ClientS c1])"
proof -
  have c: "ClientS c \<in> set ss" using assms(2,3) by (metis nth_mem)
  have old: "\<exists>c0. ClientS c0 \<in> set ss \<and> same_ends c0 d" if "ClientS d \<in> set (ss[k := ClientS c1])" for d
    using that c assms(4) set_update_subset_insert [of ss k "ClientS c1"] by (auto simp: same_ends_def)
  have new: "\<exists>d. ClientS d \<in> set (ss[k := ClientS c1]) \<and> same_ends c0 d" if c0: "ClientS c0 \<in> set ss" for c0
  proof -
    obtain j where j: "j < length ss" "ss ! j = ClientS c0" using c0 by (auto simp: in_set_conv_nth)
    have u: "(ss[k := ClientS c1]) ! j \<in> set (ss[k := ClientS c1])" using j(1) by (intro nth_mem) simp
    show ?thesis
    proof (cases "j = k")
      case True
      with u j assms(2,3,4) show ?thesis by (intro exI [of _ c1]) simp
    next
      case False
      with u j show ?thesis by (intro exI [of _ c0]) (simp add: same_ends_def)
    qed
  qed
  show ?thesis
    unfolding paired_def
  proof (intro conjI allI impI)
    fix d assume "ClientS d \<in> set (ss[k := ClientS c1])"
    then obtain c0 where c0: "ClientS c0 \<in> set ss" "same_ends c0 d" using old by blast
    then obtain c' where c': "ClientS c' \<in> set ss" "opposite c0 c'" using assms(1) unfolding paired_def by blast
    obtain d' where d': "ClientS d' \<in> set (ss[k := ClientS c1])" "same_ends c' d'" using new [OF c'(1)] by blast
    then show "\<exists>d'. ClientS d' \<in> set (ss[k := ClientS c1]) \<and> opposite d d'"
      using c0(2) c'(2) by (intro exI [of _ d']) (simp add: opposite_def same_ends_def)
  next
    fix d e assume "ClientS d \<in> set (ss[k := ClientS c1])" "ClientS e \<in> set (ss[k := ClientS c1])"
      and eq: "cs_sessionId d = cs_sessionId e"
    then obtain c0 e0 where 0: "ClientS c0 \<in> set ss" "same_ends c0 d" "ClientS e0 \<in> set ss" "same_ends e0 e"
      using old by meson
    with eq assms(1) show "cs_socketFd e = cs_socketFd d \<or> cs_socketFd e = cs_peerFd d"
      unfolding paired_def same_ends_def by metis
  qed
qed

text \<open>Both ends go together.\<close>

lemma paired_remove:
  assumes "paired ss" and "distinct (map f ss)" and "\<And>c. f (ClientS c) = cs_socketFd c" and "ClientS c \<in> set ss"
  shows "paired (filter (\<lambda>s. f s \<noteq> cs_peerFd c) (filter (\<lambda>s. f s \<noteq> cs_socketFd c) ss))"
proof -
  let ?ss = "filter (\<lambda>s. f s \<noteq> cs_peerFd c) (filter (\<lambda>s. f s \<noteq> cs_socketFd c) ss)"
  have mem: "ClientS d \<in> set ?ss \<longleftrightarrow> ClientS d \<in> set ss \<and> cs_socketFd d \<noteq> cs_peerFd c \<and> cs_socketFd d \<noteq> cs_socketFd c" for d
    by (auto simp: assms(3))
  have uniq: "d = e" if "ClientS d \<in> set ss" "ClientS e \<in> set ss" "cs_socketFd d = cs_socketFd e" for d e
    using that assms(2,3) by (metis distinct_map inj_onD socket.inject(2))
  obtain c' where c': "ClientS c' \<in> set ss" "opposite c c'" using assms(1,4) unfolding paired_def by blast
  show ?thesis
    unfolding paired_def mem
  proof (intro conjI allI impI)
    fix d assume d: "ClientS d \<in> set ss \<and> cs_socketFd d \<noteq> cs_peerFd c \<and> cs_socketFd d \<noteq> cs_socketFd c"
    then obtain d' where d': "ClientS d' \<in> set ss" "opposite d d'" using assms(1) unfolding paired_def by blast
    have "cs_socketFd d' \<noteq> cs_socketFd c"
    proof
      assume "cs_socketFd d' = cs_socketFd c"
      then have "d' = c" using uniq d'(1) assms(4) by blast
      with d d'(2) show False by (simp add: opposite_def)
    qed
    moreover have "cs_socketFd d' \<noteq> cs_peerFd c"
    proof
      assume "cs_socketFd d' = cs_peerFd c"
      then have "d' = c'" using uniq d'(1) c' by (simp add: opposite_def)
      with d d'(2) c'(2) show False by (simp add: opposite_def)
    qed
    ultimately show "\<exists>d'. (ClientS d' \<in> set ss \<and> cs_socketFd d' \<noteq> cs_peerFd c \<and> cs_socketFd d' \<noteq> cs_socketFd c) \<and> opposite d d'"
      using d' by blast
  next
    fix d e assume "ClientS d \<in> set ss \<and> cs_socketFd d \<noteq> cs_peerFd c \<and> cs_socketFd d \<noteq> cs_socketFd c"
      "ClientS e \<in> set ss \<and> cs_socketFd e \<noteq> cs_peerFd c \<and> cs_socketFd e \<noteq> cs_socketFd c"
      "cs_sessionId d = cs_sessionId e"
    then show "cs_socketFd e = cs_socketFd d \<or> cs_socketFd e = cs_peerFd d"
      using assms(1) unfolding paired_def by blast
  qed
qed

section \<open>The invariant\<close>

text \<open>A socket of a client has the descriptor of its session.\<close>

definition rooted :: "manager \<Rightarrow> bool" where
  "rooted m \<longleftrightarrow> (\<forall>c. ClientS c \<in> set (sk_sockets m) \<longrightarrow> cs_isClientToProxy c \<longrightarrow> alive (sk_world m) (cs_sessionId c) \<longrightarrow>
     client_fd (sk_world m) (cs_sessionId c) = cs_socketFd c)"

definition sound :: "manager \<Rightarrow> bool" where
  "sound m \<longleftrightarrow> good m \<and> distinct (held m) \<and> sk_epoll m = fd_of m ` set (sk_sockets m) \<and>
     paired (sk_sockets m) \<and> rooted m"

lemma sound_wf: "sound m \<Longrightarrow> wf_manager m"
  by (simp add: sound_def wf_manager_def held_def)

text \<open>Sessions never get another descriptor.\<close>

definition anchored :: "world \<Rightarrow> world \<Rightarrow> bool" where
  "anchored w w' \<longleftrightarrow> (\<forall>j < sm_sessionId (w_sessions w). alive w' j \<longrightarrow> alive w j \<and> client_fd w' j = client_fd w j)"

lemma anchored_calm:
  assumes "calm T w w'" and "wf_sessions (w_sessions w)"
  shows "anchored w w'"
  using assms unfolding anchored_def calm_def alive_def client_fd_def by fastforce

lemma rooted_step:
  assumes "sound m" and "anchored (sk_world m) (sk_world m')"
    and "\<And>c'. ClientS c' \<in> set (sk_sockets m') \<Longrightarrow> \<exists>c. ClientS c \<in> set (sk_sockets m) \<and> same_ends c c'"
  shows "rooted m'"
  unfolding rooted_def
proof (intro allI impI)
  fix c' assume c': "ClientS c' \<in> set (sk_sockets m')" "cs_isClientToProxy c'" "alive (sk_world m') (cs_sessionId c')"
  then obtain c where c: "ClientS c \<in> set (sk_sockets m)" "same_ends c c'" using assms(3) by blast
  then have "cs_sessionId c \<in> relaying m" by (auto simp: relaying_def)
  then have "cs_sessionId c < sm_sessionId (w_sessions (sk_world m))"
    using assms(1) by (auto simp: sound_def inv_def owned_def)
  with assms(2) c' c(2) have "alive (sk_world m) (cs_sessionId c)"
    "client_fd (sk_world m') (cs_sessionId c) = client_fd (sk_world m) (cs_sessionId c)"
    unfolding anchored_def same_ends_def by auto
  with assms(1) c c'(2) show "client_fd (sk_world m') (cs_sessionId c') = cs_socketFd c'"
    by (simp add: sound_def rooted_def same_ends_def)
qed

text \<open>A change of the world alone.\<close>

lemma sound_world:
  assumes "sound m" and "good m'" and "sk_sockets m' = sk_sockets m" and "sk_epoll m' = sk_epoll m"
    and "fd_of m' = fd_of m" and "anchored (sk_world m) (sk_world m')" and "distinct (held m')"
  shows "sound m'"
proof -
  have "rooted m'" using rooted_step [OF assms(1,6)] assms(3) by (auto simp: same_ends_def)
  with assms show ?thesis by (simp add: sound_def)
qed

lemma held_less:
  assumes "sk_sockets m' = sk_sockets m" and "fd_of m' = fd_of m"
    and "mset (flight (sk_world m')) \<subseteq># mset (flight (sk_world m))" and "distinct (held m)"
  shows "distinct (held m')"
  by (rule distinct_submset [OF _ assms(4)]) (simp add: held_def assms(1,2,3))

section \<open>Closing keeps it\<close>

lemma same_ends_refl [simp]: "same_ends c c"
  by (simp add: same_ends_def)

lemma sound_pending: "sound m \<Longrightarrow> relaying m \<inter> set (pending (sk_world m)) = {}"
  by (auto simp: sound_def inv_def owned_def)

text \<open>A change of the sockets that hands no session on.\<close>

lemma sound_quiet:
  assumes "sound m" and "quiet (relaying m) m m'" and "fd_of m' = fd_of m"
    and "mset (map (fd_of m) (sk_sockets m')) \<subseteq># mset (map (fd_of m) (sk_sockets m))"
    and "sk_epoll m' = fd_of m ` set (sk_sockets m')" and "paired (sk_sockets m')"
    and "\<And>c'. ClientS c' \<in> set (sk_sockets m') \<Longrightarrow> \<exists>c. ClientS c \<in> set (sk_sockets m) \<and> same_ends c c'"
  shows "sound m'"
proof -
  have good: "good m" and wf: "wf_sessions (w_sessions (sk_world m))" using assms(1) by (simp_all add: sound_def inv_def)
  have c: "calm (relaying m) (sk_world m) (sk_world m')" using assms(2) by (simp add: quiet_def)
  have "flight (sk_world m') = flight (sk_world m)" by (rule flight_calm [OF good c sound_pending [OF assms(1)]])
  then have "distinct (held m')"
    using assms(1,3,4) distinct_submset [of "held m'" "held m"] by (simp add: held_def sound_def)
  moreover have "rooted m'" by (rule rooted_step [OF assms(1) anchored_calm [OF c wf] assms(7)])
  moreover have "good m'" by (rule inv_quiet [OF good assms(2)])
  ultimately show ?thesis using assms(3,5,6) by (simp add: sound_def)
qed

lemma find_index_distinct:
  "distinct (map f xs) \<Longrightarrow> k < length xs \<Longrightarrow> find_index (\<lambda>x. f x = f (xs ! k)) xs = Some k"
proof (induction xs arbitrary: k)
  case (Cons x xs)
  show ?case
  proof (cases k)
    case (Suc j)
    with Cons.prems have "f x \<noteq> f (xs ! j)" by (auto simp: image_iff)
    with Suc Cons show ?thesis by simp
  qed simp
qed simp

lemma destroy_epoll_less: "sk_epoll (destroy s m) \<subseteq> sk_epoll m"
  by (auto simp: destroy_def split: option.split)

lemma remove_peer_watched:
  assumes "sk_epoll m = fd_of m ` set (sk_sockets m)"
  shows "sk_epoll (remove_peer fd m) = sk_epoll m - {fd}"
proof (cases "find_index (\<lambda>s. fd_of m s = fd) (sk_sockets m)")
  case None
  with assms have "fd \<notin> sk_epoll m" by (auto simp: find_index_None)
  with None show ?thesis by (simp add: remove_peer_def)
next
  case (Some k)
  have "sk_epoll (remove_peer fd m) \<subseteq> sk_epoll m - {fd}"
    using Some destroy_epoll_less by (fastforce simp: remove_peer_def remove_at_def)
  with remove_peer_epoll [of m fd] show ?thesis by blast
qed

lemma mset_map_filter_less: "mset (map f (filter P xs)) \<subseteq># mset (map f xs)"
  by (simp add: image_mset_subseteq_mono)

lemma sound_close:
  assumes "sound m" and "ClientS c \<in> set (sk_sockets m)"
    and "m' = on_world (end_session now (cs_sessionId c)) (remove_peer (cs_peerFd c) (remove_peer (cs_socketFd c) m))"
  shows "sound m'"
proof -
  let ?f = "fd_of m" let ?m1 = "remove_peer (cs_socketFd c) m" let ?m2 = "remove_peer (cs_peerFd c) ?m1"
  have d: "distinct (map ?f (sk_sockets m))" and w: "sk_epoll m = ?f ` set (sk_sockets m)"
    using assms(1) by (simp_all add: sound_def held_def)
  have s1: "sk_sockets ?m1 = filter (\<lambda>s. ?f s \<noteq> cs_socketFd c) (sk_sockets m)" by (rule remove_peer_sockets [OF d])
  have d1: "distinct (map (fd_of ?m1) (sk_sockets ?m1))" using d by (simp add: s1 distinct_map_filter)
  have s2: "sk_sockets ?m2 = filter (\<lambda>s. ?f s \<noteq> cs_peerFd c) (sk_sockets ?m1)"
    using remove_peer_sockets [OF d1] by simp
  have e1: "sk_epoll ?m1 = ?f ` set (sk_sockets ?m1)" using remove_peer_watched [OF w] by (auto simp: s1 w)
  then have e2: "sk_epoll ?m2 = ?f ` set (sk_sockets ?m2)" using remove_peer_watched [of ?m1] by (auto simp: s2)
  have "fd_of m' = fd_of ?m2" by (rule fd_of_cong) (simp add: assms(3) end_session_def split: prod.split)
  then have f: "fd_of m' = ?f" by simp
  have "cs_sessionId c \<in> relaying m" using assms(2) by (auto simp: relaying_def)
  then have "quiet (relaying m) m m'" unfolding assms(3)
    by (blast intro: quiet_trans quiet_end_session quiet_remove_peer)
  then show ?thesis
  proof (rule sound_quiet [OF assms(1) _ f])
    have s: "sk_sockets m' = sk_sockets ?m2" by (simp add: assms(3))
    show "sk_epoll m' = ?f ` set (sk_sockets m')" using e2 by (simp add: assms(3))
    show "paired (sk_sockets m')"
      unfolding s s2 s1 using assms(1,2) d by (intro paired_remove) (simp_all add: sound_def)
    show "mset (map ?f (sk_sockets m')) \<subseteq># mset (map ?f (sk_sockets m))"
      unfolding s s2 s1 using mset_map_filter_less subset_mset.order_trans by blast
    show "\<exists>d. ClientS d \<in> set (sk_sockets m) \<and> same_ends d c'" if "ClientS c' \<in> set (sk_sockets m')" for c'
      using that by (auto simp: s s2 s1 intro: exI [of _ c'])
  qed
qed

lemma sound_replace:
  assumes "sound m" and "k < length (sk_sockets m)" and "sk_sockets m ! k = ClientS c" and "same_ends c c1"
    and "m1 = on_world f (m\<lparr>sk_buf := buf, sk_sockets := (sk_sockets m)[k := ClientS c1]\<rparr>)"
    and "calm (relaying m) (sk_world m) (f (sk_world m))"
  shows "sound m1"
proof -
  have c: "ClientS c \<in> set (sk_sockets m)" using assms(2,3) by (metis nth_mem)
  have w: "sk_epoll m = fd_of m ` set (sk_sockets m)" using assms(1) by (simp add: sound_def)
  have s: "sk_sockets m1 = (sk_sockets m)[k := ClientS c1]" by (simp add: assms(5))
  have "fd_of m (ClientS c1) = fd_of m (sk_sockets m ! k)" using assms(3,4) by (simp add: same_ends_def)
  then have m: "map (fd_of m) (sk_sockets m1) = map (fd_of m) (sk_sockets m)"
    by (simp add: s map_update) (metis list_update_id map_update)
  have q: "quiet (relaying m) m m1"
    using relaying_update [OF assms(2,3), of c1] assms(4-6) by (simp add: quiet_def relaying_def same_ends_def)
  have "fd_of m1 = fd_of m" using assms(6) by (intro fd_of_cong) (simp add: assms(5) calm_def)
  then show ?thesis
  proof (rule sound_quiet [OF assms(1) q])
    show "mset (map (fd_of m) (sk_sockets m1)) \<subseteq># mset (map (fd_of m) (sk_sockets m))" by (simp only: m)
    have "sk_epoll m1 = sk_epoll m" by (simp add: assms(5))
    then show "sk_epoll m1 = fd_of m ` set (sk_sockets m1)" unfolding w by (metis m set_map)
    show "paired (sk_sockets m1)"
      unfolding s using assms(1-4) by (intro paired_update) (simp_all add: sound_def)
    show "\<exists>d. ClientS d \<in> set (sk_sockets m) \<and> same_ends d c'" if "ClientS c' \<in> set (sk_sockets m1)" for c'
      using that c assms(4) set_update_subset_insert [of "sk_sockets m" k "ClientS c1"]
      by (cases "c' = c1") (auto simp: s intro: exI [of _ c] exI [of _ c'])
  qed
qed

text \<open>A socket that only changed its flags is still closed together with its peer.\<close>

lemma client_turn:
  assumes "sound m" and "k < length (sk_sockets m)" and "sk_sockets m ! k = ClientS c"
    and "HandleClientSocketRead e k c m = Inr (go_on, m')"
  obtains m1 c1 where "sound m1" and "ClientS c1 \<in> set (sk_sockets m1)" and "same_ends c c1"
    and "sk_sockets m1 = (sk_sockets m)[k := ClientS c1]"
    and "m' = m1 \<or> m' = on_world (end_session (ev_now e) (cs_sessionId c1))
      (remove_peer (cs_peerFd c1) (remove_peer (cs_socketFd c1) m1))"
proof (rule client_effect [OF assms(4)])
  fix c1 buf
  let ?m = "m\<lparr>sk_buf := buf, sk_sockets := (sk_sockets m)[k := ClientS c1]\<rparr>"
  assume c1: "same_ends c c1" and m': "m' = on_world (end_session (ev_now e) (cs_sessionId c))
    (remove_peer (cs_peerFd c) (remove_peer (cs_socketFd c) ?m))"
  have "sound ?m" using sound_replace [OF assms(1-3) c1, of ?m "\<lambda>w. w" buf] by simp
  moreover have "ClientS c1 \<in> set (sk_sockets ?m)" using assms(2) by (simp add: set_update_memI)
  ultimately show thesis using that [of ?m c1] m' c1 by (simp add: same_ends_def)
next
  fix c1 buf es f
  assume c1: "same_ends c c1" and f: "f \<in> range Session_AddRxBytes \<union> range Session_AddTxBytes"
    and m': "m' = on_world (\<lambda>w. w\<lparr>w_io := w_io w @ es, w_sessions := upd_session (cs_sessionId c) f (w_sessions w)\<rparr>)
      (m\<lparr>sk_buf := buf, sk_sockets := (sk_sockets m)[k := ClientS c1]\<rparr>)"
  from f have "calm (relaying m) (sk_world m) ((sk_world m)\<lparr>w_io := w_io (sk_world m) @ es,
      w_sessions := upd_session (cs_sessionId c) f (w_sessions (sk_world m))\<rparr>)"
    by (intro calm_count) (auto simp: session_ops)
  with sound_replace [OF assms(1-3) c1, of m' "\<lambda>w. w\<lparr>w_io := w_io w @ es,
      w_sessions := upd_session (cs_sessionId c) f (w_sessions w)\<rparr>" buf] m'
  have "sound m'" by simp
  then show thesis using that [of m' c1] c1 assms(2) by (simp add: m' set_update_memI)
qed

lemma sound_client:
  assumes "sound m" and "k < length (sk_sockets m)" and "sk_sockets m ! k = ClientS c"
    and "HandleClientSocketRead e k c m = Inr (go_on, m')"
  shows "sound m'"
  using client_turn [OF assms] sound_close by metis

text \<open>Pruning, as long as the freed object still reads as it was.\<close>

lemma prune_one_closes:
  assumes "sound m" and "find_index is_client (sk_sockets m) = Some k" and "sk_sockets m ! k = ClientS c"
  shows "ClientS c \<in> set (sk_sockets m)" and "prune_one cs_peerFd now k c m =
    on_world (end_session now (cs_sessionId c)) (remove_peer (cs_peerFd c) (remove_peer (cs_socketFd c) m))"
proof -
  have k: "k < length (sk_sockets m)" using find_index_Some [OF assms(2)] by simp
  with assms(3) show "ClientS c \<in> set (sk_sockets m)" by (metis nth_mem)
  have d: "distinct (map (fd_of m) (sk_sockets m))" using assms(1) by (simp add: sound_def held_def)
  have "find_index (\<lambda>s. fd_of m s = cs_socketFd c) (sk_sockets m) = Some k"
    using find_index_distinct [OF d k] assms(3) by simp
  then have "remove_peer (cs_socketFd c) m = remove_at k (snd (SocketManager_RemoveSocketFd (cs_socketFd c) m))"
    by (simp add: remove_peer_def)
  then show "prune_one cs_peerFd now k c m =
      on_world (end_session now (cs_sessionId c)) (remove_peer (cs_peerFd c) (remove_peer (cs_socketFd c) m))"
    by (simp add: prune_one_def ClientSocket_GetFd_def ClientSocket_GetSessionId_def)
qed

lemma sound_prune_one:
  assumes "sound m" and "find_index is_client (sk_sockets m) = Some k" and "sk_sockets m ! k = ClientS c"
  shows "sound (prune_one cs_peerFd now k c m)"
  using sound_close [OF assms(1)] prune_one_closes [OF assms] by blast

lemma sound_prune_loop: "prune_loop cs_peerFd now n m = Some m' \<Longrightarrow> sound m \<Longrightarrow> sound m'"
  by (erule prune_loop_keeps) (auto intro: sound_prune_one)

section \<open>Opening keeps it\<close>

lemma server_number:
  assumes "HandleServerSocketRead e sv m = Inr (go_on, m')" and "\<not> fst (ServerSocket_Accept (ev_accept e) sv []) < 0"
  shows "sm_sessionId (w_sessions (sk_world m)) < 2 ^ 31 - 1"
proof -
  from assms obtain fd sm r where "SessionManager_CreateSession (ev_junk e) (ev_now e) fd (w_sessions (sk_world m)) = Inr (sm, r)"
    by (auto simp: HandleServerSocketRead_def Let_def bind_res_eq_Inr split: prod.splits)
  from CreateSession_result(3) [OF this] show ?thesis .
qed

lemma sound_server:
  assumes "sound m" and "event_ok e m" and "0 \<le> fst (ev_accept e) \<Longrightarrow> fst (ev_accept e) \<notin> set (held m)"
    and "HandleServerSocketRead e sv m = Inr (go_on, m')"
  shows "sound m'"
proof (cases "fst (ServerSocket_Accept (ev_accept e) sv []) < 0")
  case True
  with assms show ?thesis by (simp add: HandleServerSocketRead_def split: prod.splits)
next
  case False
  then obtain fd ip where a: "ServerSocket_Accept (ev_accept e) sv [] = (fd, ip, [Timeouts fd])"
    by (auto simp: ServerSocket_Accept_def split: if_splits)
  with False have fd: "0 \<le> fd" "fst (ev_accept e) = fd" by (auto simp: ServerSocket_Accept_def split: if_splits)
  have good: "good m" and wf: "wf_sessions (w_sessions (sk_world m))" using assms(1) by (simp_all add: sound_def inv_def)
  let ?w = "sk_world m" let ?i = "sm_sessionId (w_sessions ?w)"
  have n: "SessionManager_GetSessionForClient (w_sessions ?w) fd = None" using assms(2) fd by (simp add: event_ok_def)
  obtain sm where m': "m' = on_world (\<lambda>w. w\<lparr>w_sessions := sm, w_io := w_io w @ Timeouts fd # idle_options fd,
        w_work := w_work w @ [\<lparr>wp_handler = Some asyncDetector_fn, wp_context = ?i\<rparr>]\<rparr>) m"
    and g: "\<And>j. SessionManager_GetSession sm j = (if j = ?i then Some ((Session_new (ev_junk e) fd ?i (ev_now e))\<lparr>s_clientIp := ip\<rparr>)
        else SessionManager_GetSession (w_sessions ?w) j)"
    using server_effect [OF wf a fd(1) n refl server_number [OF assms(4) False]] assms(4) by auto
  have c: "client_fd (sk_world m') j = (if j = ?i then fd else client_fd ?w j)" for j
    by (simp add: client_fd_def m' g Session_new_def)
  have "j \<noteq> ?i" if "j \<in> set (pending ?w)" for j
    using good that by (auto simp: inv_def owned_def)
  then have q: "image_mset (client_fd (sk_world m')) (mset (pending ?w)) = image_mset (client_fd ?w) (mset (pending ?w))"
    by (intro image_mset_cong) (simp add: c)
  have p: "mset (pending (sk_world m')) = add_mset ?i (mset (pending ?w))" "w_messenger (sk_world m') = w_messenger ?w"
    by (simp_all add: pending_def m')
  have "mset (flight (sk_world m')) = add_mset fd (mset (flight ?w))"
    by (simp add: flight_def p q c)
  moreover have f: "fd_of m' = fd_of m" by (rule fd_of_cong) (simp add: m')
  ultimately have "mset (held m') = mset (fd # held m)" by (simp add: held_def m')
  moreover have "distinct (fd # held m)" using assms(1,3) fd by (simp add: sound_def)
  ultimately have d: "distinct (held m')" by (metis mset_eq_imp_distinct_iff)
  have "alive (sk_world m') j \<longleftrightarrow> j = ?i \<or> alive ?w j" for j by (simp add: alive_def m' g)
  then have "anchored ?w (sk_world m')" by (simp add: anchored_def c)
  with good_server [OF good assms(2,4)] d f show ?thesis by (intro sound_world [OF assms(1)]) (simp_all add: m')
qed

text \<open>The turn that reads a report: of a detection, then of a connection.\<close>

lemma sound_detect_report:
  assumes "sound m" and "pipe_deq (w_messenger (sk_world m)) = Some (msg, am)" and "get_msgId msg = HOST_DETECT_RESULT"
    and "m1 = on_world (\<lambda>w. w\<lparr>w_messenger := am\<rparr>) m" and "HandleDetectResult env msg (sk_world m1) = Inr w"
    and "good (m1\<lparr>sk_world := w\<rparr>)"
  shows "sound (m1\<lparr>sk_world := w\<rparr>)"
proof -
  let ?i = "detect_sessionId msg"
  have good: "good m" and wf: "wf_pipe (w_messenger (sk_world m))" using assms(1) by (simp_all add: sound_def inv_def)
  have w1: "sk_world m1 = (sk_world m)\<lparr>w_messenger := am\<rparr>" by (simp add: assms(4))
  have s: "subject (decode msg) = [?i]" "carried (decode msg) = []" by (simp_all add: decode_def assms(3))
  note rec = inv_receive [OF good assms(2) w1] and fl = flight_receive [OF wf assms(2) w1]
  have fr: "free (relaying m) (sk_world m1) ?i" using rec(2) s(1) by simp
  note d = detect_result_flight [OF rec(1) fr assms(5)]
  have less: "mset (flight w) \<subseteq># mset (flight (sk_world m))" using d(1) fl s by simp
  have "readPipe am = readPipe (w_messenger (sk_world m))"
    using assms(2) by (auto simp: pipe_deq_def AsyncMessenger_ReadMessage_def split: if_splits)
  then have f: "fd_of (m1\<lparr>sk_world := w\<rparr>) = fd_of m" using d(3) by (intro fd_of_cong) (simp add: w1)
  have "distinct (held m)" using assms(1) by (simp add: sound_def)
  with less have dis: "distinct (held (m1\<lparr>sk_world := w\<rparr>))"
    by (intro held_less [OF _ f]) (simp_all add: assms(4))
  have "alive (sk_world m1) = alive (sk_world m)" by (simp add: w1 alive_def fun_eq_iff)
  then have "anchored (sk_world m) w" using d(2) fl(2) by (simp add: anchored_def)
  with assms(6) dis f show ?thesis by (intro sound_world [OF assms(1)]) (simp_all add: assms(4))
qed

lemma sound_connect_report:
  assumes "sound m" and "pipe_deq (w_messenger (sk_world m)) = Some (msg, am)" and "get_msgId msg = HOST_CONNECT_RESULT"
    and "m1 = on_world (\<lambda>w. w\<lparr>w_messenger := am\<rparr>) m" and "HandleConnectResult e msg m1 = Inr m'"
    and "ev_room_client e" and "ev_room_proxy e" and "good m'"
  shows "sound m' \<and> (sk_sockets m' = sk_sockets m \<or> (\<exists>a b i. sk_sockets m' = sk_sockets m @ crossed a b i))"
proof -
  let ?i = "detect_sessionId msg"
  have good: "good m" and wf: "wf_pipe (w_messenger (sk_world m))" using assms(1) by (simp_all add: sound_def inv_def)
  have w1: "sk_world m1 = (sk_world m)\<lparr>w_messenger := am\<rparr>" by (simp add: assms(4))
  have s: "subject (decode msg) = [?i]" "carried (decode msg) = (if connect_success msg then [connect_proxyFd msg] else [])"
    by (simp_all add: decode_def assms(3) connect_sessionId_def detect_sessionId_def)
  note rec = inv_receive [OF good assms(2) w1] and fl = flight_receive [OF wf assms(2) w1]
  have fr: "free (relaying m) (sk_world m1) ?i" using rec(2) s(1) by simp
  have "readPipe am = readPipe (w_messenger (sk_world m))"
    using assms(2) by (auto simp: pipe_deq_def AsyncMessenger_ReadMessage_def split: if_splits)
  then have f1: "fd_of m1 = fd_of m" by (intro fd_of_cong) (simp add: w1)
  have al: "alive (sk_world m1) = alive (sk_world m)" by (simp add: w1 alive_def fun_eq_iff)
  have dis: "distinct (held m)" using assms(1) by (simp add: sound_def)
  obtain se where se: "SessionManager_GetSession (w_sessions (sk_world m1)) ?i = Some se"
    using assms(5) by (auto simp: HandleConnectResult_def split: option.splits)
  then have fd: "client_fd (sk_world m) ?i = s_clientFd se" by (simp add: client_fd_def w1)
  show ?thesis
  proof (cases "connect_success msg")
    case False
    have id: "s_sessionId se = ?i" using sess.get_ident [OF se] .
    have m': "m' = on_world (refuse (ev_now e) ?i se resp_404) m1"
      using False assms(5) se id by (simp add: HandleConnectResult_def)
    have c: "calm {?i} (sk_world m1) (sk_world m')" unfolding m' using calm_refuse by simp
    have "flight (sk_world m') = flight (sk_world m1)"
      using fr by (intro flight_calm [OF rec(1) c]) (simp add: free_def)
    then have less: "mset (flight (sk_world m')) \<subseteq># mset (flight (sk_world m))" using fl(1) by simp
    have f: "fd_of m' = fd_of m" using f1 fd_of_cong [of m' m1] c by (simp add: calm_def)
    have "distinct (held m')"
      using less dis by (intro held_less [OF _ f]) (simp_all add: m' assms(4))
    moreover have "anchored (sk_world m) (sk_world m')"
      using anchored_calm [OF c] rec(1) al fl(2) by (simp add: anchored_def inv_def w1)
    ultimately have "sound m'"
      using assms(8) f by (intro sound_world [OF assms(1)]) (simp_all add: m' assms(4))
    then show ?thesis by (simp add: m' assms(4))
  next
    case True
    let ?p = "connect_proxyFd msg" let ?ss = "sk_sockets m"
    have "mset (held m) = mset (map (fd_of m) ?ss @ s_clientFd se # ?p # flight (sk_world m1))"
      using fl(1) s True fd by (simp add: held_def)
    then have d: "distinct (map (fd_of m) ?ss @ s_clientFd se # ?p # flight (sk_world m1))"
      using dis by (metis mset_eq_imp_distinct_iff)
    have ep: "sk_epoll m1 = fd_of m ` set ?ss" using assms(1) by (simp add: assms(4) sound_def)
    have new: "s_clientFd se \<notin> sk_epoll m1" "?p \<notin> sk_epoll m1" "s_clientFd se \<noteq> ?p" using d by (auto simp: ep)
    have "wf_manager m1" using sound_wf [OF assms(1)] by (simp add: wf_manager_def f1) (simp add: assms(4))
    from registers_pair [OF this assms(6,7) se new] True assms(5)
    have m': "sk_sockets m' = ?ss @ crossed (s_clientFd se) ?p ?i" "sk_world m' = sk_world m1"
      "sk_epoll m' = insert ?p (insert (s_clientFd se) (sk_epoll m1))"
      by (simp_all add: assms(4) connect_sessionId_def detect_sessionId_def)
    have f: "fd_of m' = fd_of m" using f1 fd_of_cong [of m' m1] m'(2) by simp
    have "mset (held m') = mset (held m)"
      using fl(1) s True fd by (simp add: held_def f m' crossed_def ClientSocket_new_def)
    then have "distinct (held m')" using dis by (metis mset_eq_imp_distinct_iff)
    moreover have "sk_epoll m' = fd_of m' ` set (sk_sockets m')"
      by (simp add: f m' ep crossed_def ClientSocket_new_def insert_commute)
    moreover have "paired (sk_sockets m')"
      unfolding m'(1) using assms(1) fr by (intro paired_add) (auto simp: sound_def free_def relaying_def)
    moreover have "rooted m'"
      using assms(1) al fl(2) fd
      by (auto simp: rooted_def sound_def m' crossed_def ClientSocket_new_def)
    ultimately have "sound m'" using assms(8) by (simp add: sound_def)
    with m'(1) show ?thesis by blast
  qed
qed

lemma sound_command:
  assumes "sound m" and "event_ok e m" and "ev_room_client e" and "ev_room_proxy e"
    and "HandleCommandSocketRead e m = Inr (go_on, m')"
  shows "sound m' \<and> (sk_sockets m' = sk_sockets m \<or> (\<exists>a b i. sk_sockets m' = sk_sockets m @ crossed a b i))"
proof -
  obtain msg am where r: "pipe_deq (w_messenger (sk_world m)) = Some (msg, am)"
    using assms(2,5)
    by (cases "pipe_deq (w_messenger (sk_world m))") (auto simp: HandleCommandSocketRead_def event_ok_def pipe_deq_def)
  define m1 where "m1 = on_world (\<lambda>w. w\<lparr>w_messenger := am\<rparr>) m"
  have good: "good m" using assms(1) by (simp add: sound_def)
  have good': "good m'" by (rule good_command [OF good assms(2,5)])
  have h: "(case get_msgId msg of
      HOST_DETECT_RESULT \<Rightarrow> bind_res (HandleDetectResult (ev_command e) msg (sk_world m1))
        (\<lambda>w. Inr (True, m1\<lparr>sk_world := w\<rparr>))
    | HOST_CONNECT_RESULT \<Rightarrow> bind_res (HandleConnectResult e msg m1) (\<lambda>m. Inr (True, m))
    | Other_message _ \<Rightarrow> Inr (True, m1)) = Inr (go_on, m')"
    using assms(2,5) r
    by (simp add: HandleCommandSocketRead_def m1_def Let_def event_ok_def pipe_deq_def split: AsyncMessageId.splits)
  show ?thesis
  proof (cases "get_msgId msg")
    case HOST_DETECT_RESULT
    with h obtain w where w: "HandleDetectResult (ev_command e) msg (sk_world m1) = Inr w" "m' = m1\<lparr>sk_world := w\<rparr>"
      by (auto simp: bind_res_eq_Inr)
    from sound_detect_report [OF assms(1) r HOST_DETECT_RESULT m1_def w(1)] good' show ?thesis by (simp add: w(2) m1_def)
  next
    case HOST_CONNECT_RESULT
    with h have "HandleConnectResult e msg m1 = Inr m'" by (auto simp: bind_res_eq_Inr)
    from sound_connect_report [OF assms(1) r HOST_CONNECT_RESULT m1_def this assms(3,4) good'] show ?thesis .
  next
    case (Other_message x)
    have wf: "wf_pipe (w_messenger (sk_world m))" using good by (simp add: inv_def)
    have w1: "sk_world m1 = (sk_world m)\<lparr>w_messenger := am\<rparr>" by (simp add: m1_def)
    note fl = flight_receive [OF wf r w1]
    have "readPipe am = readPipe (w_messenger (sk_world m))"
      using r by (auto simp: pipe_deq_def AsyncMessenger_ReadMessage_def split: if_splits)
    then have f: "fd_of m1 = fd_of m" by (intro fd_of_cong) (simp add: w1)
    have "distinct (held m1)"
      using assms(1) fl(1) by (intro held_less [OF _ f]) (simp_all add: m1_def sound_def)
    moreover have "anchored (sk_world m) (sk_world m1)" using fl(2) by (simp add: anchored_def alive_def m1_def)
    moreover have "m' = m1" using h Other_message by simp
    ultimately have "sound m'" using good' f by (intro sound_world [OF assms(1)]) (simp_all add: m1_def)
    then show ?thesis by (simp add: \<open>m' = m1\<close> m1_def)
  qed
qed

section \<open>Orderly runs\<close>

text \<open>
  What the kernel and the allocator do: \<open>accept\<close> and \<open>socket\<close> give descriptors that nobody holds,
  epoll has room for both sockets of a connection, and the freed object that pruning reads is
  as it was. Each event of a turn is answered in the state that the events before it have left.
\<close>

definition orderly_event :: "event \<Rightarrow> manager \<Rightarrow> bool" where
  "orderly_event e m \<longleftrightarrow> event_ok e m \<and> ev_room_client e \<and> ev_room_proxy e \<and>
     (0 \<le> fst (ev_accept e) \<longrightarrow> fst (ev_accept e) \<notin> set (held m))"

fun orderly_events :: "event list \<Rightarrow> manager \<Rightarrow> bool" where
  "orderly_events [] m = True"
| "orderly_events (e # es) m =
     (orderly_event e m \<and> (case event_loop [e] m of Inr (True, m) \<Rightarrow> orderly_events es m | _ \<Rightarrow> True))"

definition orderly :: "idle_env \<Rightarrow> wait_result \<Rightarrow> manager \<Rightarrow> bool" where
  "orderly env answer m \<longleftrightarrow>
     (case answer of
        Wait_error x \<Rightarrow> True
      | Ready es \<Rightarrow> if es = [] then id_freed env = cs_peerFd else orderly_events es m)"

inductive orderly_step :: "manager \<Rightarrow> manager \<Rightarrow> bool" where
  turn: "SocketManager_ProcessSockets env answer m = Inr (True, m') \<Longrightarrow> orderly env answer m \<Longrightarrow> orderly_step m m'"
| detect: "w_work (sk_world m) = xs @ \<lparr>wp_handler = Some asyncDetector_fn, wp_context = i\<rparr> # ys \<Longrightarrow>
    asyncDetector answer wrote i (w_sessions (sk_world m)) (w_messenger (sk_world m)) = Inr (sm, am) \<Longrightarrow>
    orderly_step m (on_world (\<lambda>w. w\<lparr>w_work := xs @ ys, w_sessions := sm, w_messenger := am\<rparr>) m)"
| connect: "w_work (sk_world m) = xs @ \<lparr>wp_handler = Some asyncConnector_fn, wp_context = i\<rparr> # ys \<Longrightarrow>
    int32 (ce_socket env) \<Longrightarrow> ce_socket env \<notin> set (held m) \<Longrightarrow>
    asyncConnector_report env i ((sk_world m)\<lparr>w_work := xs @ ys\<rparr>) = Inr (late, w') \<Longrightarrow>
    orderly_step m (m\<lparr>sk_world := w'\<rparr>)"
| purge: "asyncConnector_purge i (sk_world m) = Inr w' \<Longrightarrow> orderly_step m (m\<lparr>sk_world := w'\<rparr>)"

lemma orderly_events_ok: "orderly_events es m \<Longrightarrow> events_ok es m"
  by (induction es m rule: orderly_events.induct) (auto simp: orderly_event_def split: sum.splits prod.splits bool.splits)

lemma orderly_ok: "orderly env (Ready es) m \<Longrightarrow> events_ok es m"
  by (cases es) (auto simp: orderly_def simp del: orderly_events.simps dest: orderly_events_ok)

lemma orderly_proxy_step: "orderly_step m m' \<Longrightarrow> proxy_step m m'"
proof (induction rule: orderly_step.induct)
  case (turn env answer m m')
  then show ?case by (intro proxy_step.turn) (auto split: wait_result.split intro: orderly_ok)
qed (auto intro: proxy_step.detect proxy_step.connect proxy_step.purge)

lemma orderly_reach: "orderly_step\<^sup>*\<^sup>* m m' \<Longrightarrow> proxy_step\<^sup>*\<^sup>* m m'"
  by (rule rtranclp_mono [THEN predicate2D]) (auto intro: orderly_proxy_step)

lemma sound_event:
  assumes "sound m" and "orderly_event e m" and "event_loop [e] m = Inr (go_on, m')"
  shows "sound m'"
proof (cases "find_index (\<lambda>s. fd_of m s = ev_fd e) (sk_sockets m)")
  case None
  with assms show ?thesis by simp
next
  case (Some k)
  then obtain g where h: "handle_socket e k m = Inr (g, m')"
    using assms(3) by (auto simp: bind_res_eq_Inr split: if_splits)
  have k: "k < length (sk_sockets m)" using find_index_Some [OF Some] by simp
  from assms(2) have e: "event_ok e m" "ev_room_client e" "ev_room_proxy e"
    "0 \<le> fst (ev_accept e) \<Longrightarrow> fst (ev_accept e) \<notin> set (held m)" by (simp_all add: orderly_event_def)
  show ?thesis
  proof (cases "sk_sockets m ! k")
    case (ServerS sv)
    with h sound_server [OF assms(1) e(1,4)] show ?thesis by (simp add: handle_socket_def)
  next
    case (ClientS c)
    with h sound_client [OF assms(1) k ClientS] show ?thesis by (simp add: handle_socket_def)
  next
    case CommandS
    with h sound_command [OF assms(1) e(1-3)] show ?thesis by (simp add: handle_socket_def)
  qed
qed

lemma sound_events:
  assumes "sound m" and "orderly_events es m" and "event_loop es m = Inr (go_on, m')"
  shows "sound m'"
  using assms
proof (induction es arbitrary: m)
  case (Cons e es)
  obtain g m1 where 1: "event_loop [e] m = Inr (g, m1)"
    and 2: "(if \<not> g then Inr (False, m1) else event_loop es m1) = Inr (go_on, m')"
    using Cons.prems(3) unfolding event_loop_sequence [of e es] bind_res_eq_Inr by auto
  have s: "sound m1" using sound_event [OF Cons.prems(1) _ 1] Cons.prems(2) by simp
  show ?case
  proof (cases g)
    case True
    with Cons.prems(2) 1 2 have "orderly_events es m1" "event_loop es m1 = Inr (go_on, m')"
      by (simp_all del: event_loop.simps)
    from Cons.IH [OF s this] show ?thesis .
  qed (use s 2 in simp)
qed simp

lemma sound_turn:
  assumes "sound m" and "orderly env answer m" and "SocketManager_ProcessSockets env answer m = Inr (go_on, m')"
  shows "sound m'"
proof (cases answer)
  case (Wait_error x)
  with assms show ?thesis by (auto simp: SocketManager_ProcessSockets_def split: if_splits)
next
  case (Ready es)
  show ?thesis
  proof (cases "sk_isActive m")
    case False
    with assms Ready show ?thesis by (simp add: SocketManager_ProcessSockets_def)
  next
    case active: True
    show ?thesis
    proof (cases es)
      case Nil
      with assms(2) Ready have f: "id_freed env = cs_peerFd" by (simp add: orderly_def)
      obtain m1 where p: "prune_loop cs_peerFd (id_prune_now env) 0 m = Some m1"
        and w: "m' = m1 \<or> (\<exists>g fs. m' = on_world (\<lambda>w. w\<lparr>w_stats := g\<rparr>) (m1\<lparr>sk_files := fs\<rparr>))"
        using assms(3) Ready Nil active f
        by (auto simp: SocketManager_ProcessSockets_def SocketManager_PruneExcessConnections_def bind_res_eq_Inr
            loop_res_def Let_def split: option.splits if_splits prod.splits)
      have s: "sound m1" by (rule sound_prune_loop [OF p assms(1)])
      then have good: "good m1" by (simp add: sound_def)
      show ?thesis
      proof (cases "m' = m1")
        case True
        with s show ?thesis by simp
      next
        case False
        then obtain g fs where m': "m' = on_world (\<lambda>w. w\<lparr>w_stats := g\<rparr>) (m1\<lparr>sk_files := fs\<rparr>)" using w by blast
        have c: "calm {} (sk_world m1) (sk_world m')" by (rule calm_static) (simp_all add: m')
        have f: "fd_of m' = fd_of m1" by (rule fd_of_cong) (simp add: m')
        have "flight (sk_world m') = flight (sk_world m1)" by (rule flight_calm [OF good c]) simp
        then have "distinct (held m')" using s by (intro held_less [OF _ f]) (simp_all add: sound_def m')
        moreover have "anchored (sk_world m1) (sk_world m')" using anchored_calm [OF c] good by (simp add: inv_def)
        moreover have "good m'" using inv_calm [OF good c] by (simp add: m' relaying_def)
        ultimately show ?thesis using f by (intro sound_world [OF s]) (simp_all add: m')
      qed
    next
      case (Cons e es')
      with assms(2) Ready have "orderly_events es m" by (simp add: orderly_def)
      moreover have "event_loop es m = Inr (go_on, m')"
        using assms(3) Ready active Cons by (simp add: SocketManager_ProcessSockets_def)
      ultimately show ?thesis using sound_events [OF assms(1)] by blast
    qed
  qed
qed

lemma sound_step:
  assumes "orderly_step m m'" and "sound m"
  shows "sound m'"
  using assms
proof (induction rule: orderly_step.induct)
  case (turn env answer m m')
  then show ?case using sound_turn by blast
next
  case (detect m xs i ys answer wrote sm am)
  let ?m = "on_world (\<lambda>w. w\<lparr>w_work := xs @ ys, w_sessions := sm, w_messenger := am\<rparr>) m"
  have good: "good m" using detect.prems by (simp add: sound_def)
  have i: "int32 i" using inv_take(1,2) [OF good detect.hyps(1) refl] free_int32 by blast
  note f = detector_flight [OF good detect.hyps(1) i detect.hyps(2) refl]
  have "readPipe am = readPipe (w_messenger (sk_world m))"
    using detect.hyps(2) by (rule detector_effect) (simp add: AsyncMessenger_WriteMessage_def)
  then have fd: "fd_of ?m = fd_of m" by (intro fd_of_cong) simp
  have "distinct (held ?m)" using f(1) detect.prems by (intro held_less [OF _ fd]) (simp_all add: sound_def)
  moreover have "alive (sk_world ?m) j = alive (sk_world m) j" for j
  proof (rule detector_effect [OF detect.hyps(2)])
    fix d r assume "sm = (if d_success d then upd_session i (store_detection d r) (w_sessions (sk_world m)) else w_sessions (sk_world m))"
    moreover have "s_sessionId (store_detection d r s) = s_sessionId s" for s by (simp add: store_detection_def session_ops)
    ultimately show ?thesis by (simp add: alive_def sess.get_upd)
  qed
  then have "anchored (sk_world m) (sk_world ?m)" using f(2) by (simp add: anchored_def)
  moreover have "good ?m" using step_good [OF proxy_step.detect [OF detect.hyps] good] ..
  ultimately show ?case using fd by (intro sound_world [OF detect.prems]) simp_all
next
  case (connect m xs i ys env late w')
  let ?m = "m\<lparr>sk_world := w'\<rparr>"
  have good: "good m" using connect.prems by (simp add: sound_def)
  have i: "int32 i" using inv_take(1,2) [OF good connect.hyps(1) refl] free_int32 by blast
  note f = connector_flight [OF good connect.hyps(1) i connect.hyps(2,4)]
  from connector_effect [OF connect.hyps(4)]
  have "readPipe (w_messenger w') = readPipe (w_messenger (sk_world m))" and ss: "w_sessions w' = w_sessions (sk_world m)"
    by (auto simp: AsyncMessenger_WriteMessage_def)
  then have fd: "fd_of ?m = fd_of m" by (intro fd_of_cong) simp
  have "mset (held ?m) \<subseteq># mset (ce_socket env # held m)"
    using f(1) by (simp add: held_def fd)
  moreover have "distinct (ce_socket env # held m)" using connect.hyps(3) connect.prems by (simp add: sound_def)
  ultimately have "distinct (held ?m)" by (rule distinct_submset)
  moreover have "anchored (sk_world m) (sk_world ?m)" using f(2) ss by (simp add: anchored_def alive_def)
  moreover have "good ?m" using step_good [OF proxy_step.connect [OF connect.hyps(1,2,4)] good] ..
  ultimately show ?case using fd by (intro sound_world [OF connect.prems]) simp_all
next
  case (purge i m w')
  let ?m = "m\<lparr>sk_world := w'\<rparr>"
  obtain c where w': "w' = (sk_world m)\<lparr>w_cache := c\<rparr>" using purge_effect [OF purge.hyps] by blast
  have good: "good m" using purge.prems by (simp add: sound_def)
  have fd: "fd_of ?m = fd_of m" by (rule fd_of_cong) (simp add: w')
  have cf: "client_fd w' = client_fd (sk_world m)" by (rule client_fd_cong) (simp add: w')
  then have "flight w' = flight (sk_world m)" by (simp add: flight_def w' pending_def)
  then have "distinct (held ?m)" using purge.prems by (intro held_less [OF _ fd]) (simp_all add: sound_def)
  moreover have "anchored (sk_world m) (sk_world ?m)" using cf by (simp add: anchored_def alive_def w')
  moreover have "good ?m" using step_good [OF proxy_step.purge [OF purge.hyps] good] ..
  ultimately show ?case using fd by (intro sound_world [OF purge.prems]) simp_all
qed

lemma sound_reach: "orderly_step\<^sup>*\<^sup>* m m' \<Longrightarrow> sound m \<Longrightarrow> sound m'"
  by (induction rule: rtranclp_induct) (auto intro: sound_step)

lemma start_watched:
  assumes "main_start env junk fs st0 = Inr (Running m)"
  shows "distinct (map (fd_of m) (sk_sockets m)) \<and> sk_epoll m = fd_of m ` set (sk_sockets m) \<and>
    (\<forall>c. ClientS c \<notin> set (sk_sockets m))"
  using assms
  by (auto simp: main_start_def Let_def bind_res_eq_Inr SocketManager_Initialize_def SocketManager_new_def
      SocketManager_AddSocket_def destroy_def split: if_splits option.splits prod.splits)

lemma start_sound:
  assumes "main_start env junk fs st0 = Inr (Running m)"
  shows "sound m"
proof -
  have u: "untouched m" using start_state [OF assms] ..
  then have "flight (sk_world m) = []"
    by (simp add: flight_def untouched_def pending_def reports_def pipe_messages_def chunks.simps [of "[]"])
  with start_watched [OF assms] untouched_good [OF u] show ?thesis
    by (simp add: sound_def held_def paired_def rooted_def)
qed

end
