(* ===== verification/Service.thy ===== *)
theory Service
  imports Pairing
begin

text \<open>
  A request from beginning to end: the steps that serve a \<open>CONNECT\<close>, and what holds in every state
  the proxy reaches.
\<close>

section \<open>Serving a request\<close>

text \<open>The turn that takes the only message in the pipe.\<close>

lemma command_turn:
  assumes "sk_isActive m" and "find_index (\<lambda>s. fd_of m s = ev_fd e) (sk_sockets m) = Some k"
    and "sk_sockets m ! k = CommandS" and "\<not> ev_read_failed e"
    and "m_pipe (w_messenger (sk_world m)) = msg" and "length msg = 16"
    and "m1 = on_world (\<lambda>w. w\<lparr>w_messenger := (w_messenger w)\<lparr>m_pipe := []\<rparr>\<rparr>) m"
  shows "SocketManager_ProcessSockets env (Ready [e]) m = (case get_msgId msg of
      HOST_DETECT_RESULT \<Rightarrow> bind_res (HandleDetectResult (ev_command e) msg (sk_world m1))
        (\<lambda>w. Inr (True, m1\<lparr>sk_world := w\<rparr>))
    | HOST_CONNECT_RESULT \<Rightarrow> bind_res (HandleConnectResult e msg m1) (\<lambda>m. Inr (True, m))
    | Other_message _ \<Rightarrow> Inr (True, m1))"
proof -
  have "AsyncMessenger_ReadMessage False AsyncMessage_zero (w_messenger (sk_world m)) =
      Some (msg, (w_messenger (sk_world m))\<lparr>m_pipe := []\<rparr>)"
    using assms(5,6) by (auto simp: AsyncMessenger_ReadMessage_def msg_size_def store_def AsyncMessage_zero_def)
  with assms(1-4) show ?thesis
    by (auto simp: SocketManager_ProcessSockets_def handle_socket_def HandleCommandSocketRead_def assms(7)
        bind_res_assoc split: AsyncMessageId.splits)
qed

lemma find_socket:
  assumes "wf_manager m" and "s \<in> set (sk_sockets m)" and "fd = fd_of m s"
  shows "\<exists>k. find_index (\<lambda>s. fd_of m s = fd) (sk_sockets m) = Some k \<and> sk_sockets m ! k = s"
proof (cases "find_index (\<lambda>s. fd_of m s = fd) (sk_sockets m)")
  case None
  with assms(2,3) show ?thesis by (auto simp: find_index_None)
next
  case (Some k)
  from find_index_Some [OF this] have k: "k < length (sk_sockets m)" "fd_of m (sk_sockets m ! k) = fd" by simp_all
  obtain j where j: "j < length (sk_sockets m)" "sk_sockets m ! j = s" using assms(2) by (auto simp: in_set_conv_nth)
  have "distinct (map (fd_of m) (sk_sockets m))" using assms(1) by (simp add: wf_manager_def)
  then have "k = j" using k j assms(3) by (auto simp: distinct_conv_nth)
  with Some j show ?thesis by blast
qed

text \<open>The world in which a session waits, with everything else as it was.\<close>

abbreviation waiting :: "session_manager \<Rightarrow> work_list \<Rightarrow> bytes \<Rightarrow> io list \<Rightarrow> world \<Rightarrow> world" where
  "waiting sm ps bs es w \<equiv> w\<lparr>w_sessions := sm, w_work := ps, w_messenger := (w_messenger w)\<lparr>m_pipe := bs\<rparr>, w_io := es\<rparr>"

lemma detect_report_turn:
  assumes "sk_isActive m" and "wf_manager m" and "CommandS \<in> set (sk_sockets m)"
    and "w_work (sk_world m) = []" and "m_pipe (w_messenger (sk_world m)) = detect_message i True" and "int32 i"
    and "SessionManager_GetSession (w_sessions (sk_world m)) i = Some s" and "\<not> am_enabled (w_auth (sk_world m))"
    and "policy_allows (w_policies (sk_world m)) (w_blacklists (sk_world m)) (s_userName s) (s_host s)"
  shows "orderly_step m (on_world (\<lambda>w. w\<lparr>w_messenger := (w_messenger w)\<lparr>m_pipe := []\<rparr>,
    w_work := [\<lparr>wp_handler = Some asyncConnector_fn, wp_context = i\<rparr>]\<rparr>) m)"
proof -
  define m1 where "m1 = on_world (\<lambda>w. w\<lparr>w_messenger := (w_messenger w)\<lparr>m_pipe := []\<rparr>\<rparr>) m"
  define e where "e = example_event\<lparr>ev_fd := readPipe (w_messenger (sk_world m)), ev_accept := (- 1, [])\<rparr>"
  obtain k where k: "find_index (\<lambda>s. fd_of m s = ev_fd e) (sk_sockets m) = Some k" "sk_sockets m ! k = CommandS"
    using find_socket [OF assms(2,3) refl] by (auto simp: e_def)
  have e: "\<not> ev_read_failed e" "orderly env (Ready [e]) m" for env
    by (simp_all add: e_def orderly_def orderly_event_def event_ok_def example_event_def split: sum.split bool.split)
  have "HandleDetectResult (ev_command e) (detect_message i True) (sk_world m1) =
      Inr (ThreadPool_Dispatch \<lparr>wp_handler = Some asyncConnector_fn, wp_context = i\<rparr> (sk_world m1))"
    using assms(6-9) by (simp add: HandleDetectResult_def detect_message_fields AuthManager_IsEnabled_def m1_def
        connect_proxy_eq [where s = s])
  with command_turn [OF assms(1) k e(1) assms(5) _ m1_def] assms(6)
  have "SocketManager_ProcessSockets env (Ready [e]) m = Inr (True,
      m1\<lparr>sk_world := ThreadPool_Dispatch \<lparr>wp_handler = Some asyncConnector_fn, wp_context = i\<rparr> (sk_world m1)\<rparr>)" for env
    by (simp add: detect_message_fields)
  from orderly_step.turn [OF this e(2)] assms(4) show ?thesis
    by (simp add: m1_def ThreadPool_Dispatch_def work_push_def)
qed

lemma connect_report_turn:
  assumes "sk_isActive m" and "wf_manager m" and "CommandS \<in> set (sk_sockets m)"
    and "m_pipe (w_messenger (sk_world m)) = connect_message pfd i True" and "int32 i" and "int32 pfd"
    and "SessionManager_GetSession (w_sessions (sk_world m)) i = Some s"
    and "s_clientFd s \<notin> sk_epoll m" and "pfd \<notin> sk_epoll m" and "s_clientFd s \<noteq> pfd"
  shows "\<exists>m'. orderly_step m m' \<and> sk_sockets m' = sk_sockets m @ crossed (s_clientFd s) pfd i \<and>
    sk_world m' = (sk_world m)\<lparr>w_messenger := (w_messenger (sk_world m))\<lparr>m_pipe := []\<rparr>\<rparr>"
proof -
  define m1 where "m1 = on_world (\<lambda>w. w\<lparr>w_messenger := (w_messenger w)\<lparr>m_pipe := []\<rparr>\<rparr>) m"
  define e where "e = example_event\<lparr>ev_fd := readPipe (w_messenger (sk_world m)), ev_accept := (- 1, [])\<rparr>"
  let ?msg = "connect_message pfd i True"
  obtain k where k: "find_index (\<lambda>s. fd_of m s = ev_fd e) (sk_sockets m) = Some k" "sk_sockets m ! k = CommandS"
    using find_socket [OF assms(2,3) refl] by (auto simp: e_def)
  have e: "\<not> ev_read_failed e" "orderly env (Ready [e]) m" "ev_room_client e" "ev_room_proxy e" for env
    by (simp_all add: e_def orderly_def orderly_event_def event_ok_def example_event_def split: sum.split bool.split)
  note f = connect_message_fields [OF assms(6,5), of True]
  have "fd_of m1 = fd_of m" by (rule fd_of_cong) (simp add: m1_def)
  then have "wf_manager m1" using assms(2) by (simp add: wf_manager_def m1_def)
  from registers_pair [OF this e(3,4), of ?msg s] assms(7-10) f
  obtain m' where m': "HandleConnectResult e ?msg m1 = Inr m'"
    "sk_sockets m' = sk_sockets m1 @ crossed (s_clientFd s) pfd i" "sk_world m' = sk_world m1"
    by (auto simp: m1_def)
  with command_turn [OF assms(1) k e(1) assms(4) _ m1_def] f(1)
  have "SocketManager_ProcessSockets env (Ready [e]) m = Inr (True, m')" for env by simp
  from orderly_step.turn [OF this e(2)] m'(2,3) show ?thesis by (auto simp: m1_def)
qed

text \<open>The four hands a \<open>CONNECT\<close> request passes through, one step each, and the pair in the end.\<close>

lemma serve_connect:
  fixes ce :: connect_env
  assumes "sk_isActive m" and "wf_manager m" and "wf_sessions (w_sessions (sk_world m))"
    and "w_work (sk_world m) = []" and "m_pipe (w_messenger (sk_world m)) = []"
    and "ServerS sv \<in> set (sk_sockets m)" and "sv_isActive sv" and "CommandS \<in> set (sk_sockets m)"
    and "i = sm_sessionId (w_sessions (sk_world m))" and "0 \<le> i" and "i < 2 ^ 31 - 1"
    and "0 \<le> fd" and "fd \<notin> sk_epoll m"
    and "SessionManager_GetSessionForClient (w_sessions (sk_world m)) fd = None"
    and "is_token host" and "CHR '':'' \<notin> set host" and "n < 2 ^ 31" and "length host + length (dec_nat n) < 1023"
    and "rest = [] \<or> isspace (hd rest)" and "NUL \<notin> set rest"
    and "r = ''CONNECT '' @ host @ '':'' @ dec_nat n @ rest" and "length r < 4096"
    and "\<not> am_enabled (w_auth (sk_world m))"
    and "policy_allows (w_policies (sk_world m)) (w_blacklists (sk_world m)) [] host"
    and "HostResolver_GetAddressesForHost (ce_lookup ce) host (of_nat n) False (w_cache (sk_world m)) =
      Inr (x # xs, cached, cache)"
    and "wf_cache (w_cache (sk_world m))" and "host \<noteq> ''0.0.0.0''"
    and "ce_pton ce (hi_address x)" and "ce_connect ce (hi_address x) (of_nat n) \<noteq> - 1" and "ce_wrote ce"
    and "ce_socket ce \<noteq> - 1" and "int32 (ce_socket ce)" and "ce_socket ce \<notin> sk_epoll m" and "ce_socket ce \<noteq> fd"
  shows "\<exists>m' s. (orderly_step ^^ 5) m m' \<and> sk_sockets m' = sk_sockets m @ crossed fd (ce_socket ce) i \<and>
    SessionManager_GetSession (w_sessions (sk_world m')) i = Some s \<and>
    s_clientFd s = fd \<and> s_host s = host \<and> s_port s = of_nat n \<and> s_userName s = [] \<and>
    w_io (sk_world m') = w_io (sk_world m) @
      [Timeouts fd, KeepAlive fd, IdleTime fd 10, KeepCount fd 5, KeepInterval fd 5,
       Connect (ce_socket ce) (hi_address x) (of_nat n), Send fd (''HTTP/1.0 200 OK'' @ [CR, LF, CR, LF])] @
      (if strstr (cstr r) ''Connection: keep-alive'' = None then [KeepAlive (ce_socket ce)] else []) @
      (if strstr (cstr r) ''Proxy-Connection: keep-alive'' = None then [KeepAlive fd] else []) @
      [Timeouts (ce_socket ce)] \<and> w_work (sk_world m') = [] \<and> m_pipe (w_messenger (sk_world m')) = []"
proof -
  let ?w = "sk_world m"
  have i32: "int32 i" using assms(10,11) by (simp add: int32_def)
  define e where "e = example_event\<lparr>ev_fd := sv_socketFd sv, ev_accept := (fd, [])\<rparr>"
  obtain k where k: "find_index (\<lambda>s. fd_of m s = ev_fd e) (sk_sockets m) = Some k" "sk_sockets m ! k = ServerS sv"
    using find_socket [OF assms(2,6) refl] assms(7) by (auto simp: e_def)
  \<comment> \<open>the client is accepted\<close>
  obtain sm1 where t1: "SocketManager_ProcessSockets example_idle (Ready [e]) m =
      Inr (True, on_world (\<lambda>w. w\<lparr>w_sessions := sm1, w_io := w_io w @ Timeouts fd # idle_options fd,
        w_work := w_work w @ [\<lparr>wp_handler = Some asyncDetector_fn, wp_context = i\<rparr>]\<rparr>) m)"
    and g: "\<forall>j. SessionManager_GetSession sm1 j =
      (if j = i then Some ((Session_new (ev_junk e) fd i (ev_now e))\<lparr>s_clientIp := []\<rparr>)
       else SessionManager_GetSession (w_sessions ?w) j)"
    using accept_turn [OF assms(1) k assms(7,3) _ assms(12,14,9,11), of "[]" example_idle] by (auto simp: e_def)
  define s1 where "s1 = (Session_new (ev_junk e) fd i (ev_now e))\<lparr>s_clientIp := []\<rparr>"
  have g1: "SessionManager_GetSession sm1 i = Some s1" using g by (simp add: s1_def)
  define m1 where "m1 = on_world (\<lambda>w. w\<lparr>w_sessions := sm1, w_io := w_io w @ Timeouts fd # idle_options fd,
      w_work := [\<lparr>wp_handler = Some asyncDetector_fn, wp_context = i\<rparr>]\<rparr>) m"
  have fds: "fd_of m s \<in> sk_epoll m" if "s \<in> set (sk_sockets m)" for s
    using assms(2) that by (simp add: wf_manager_def)
  have "flight ?w = []"
    by (simp add: flight_def pending_def assms(4,5) reports_def pipe_messages_def chunks.simps [of "[]"])
  then have "fd \<notin> set (held m)" using assms(13) fds by (auto simp: held_def)
  then have "orderly example_idle (Ready [e]) m"
    using assms(9,11,14) by (simp add: e_def orderly_def orderly_event_def event_ok_def example_event_def split: sum.split bool.split)
  then have p1: "orderly_step m m1" using orderly_step.turn [OF t1] assms(4) by (simp add: m1_def)
  \<comment> \<open>a worker detects its request\<close>
  obtain sm2 where d: "asyncDetector (ReadBytes (bytes_of r)) True i sm1 (w_messenger ?w) =
      Inr (sm2, (w_messenger ?w)\<lparr>m_pipe := detect_message i True\<rparr>)"
    and g2: "SessionManager_GetSession sm2 i =
      Some (s1\<lparr>s_host := host, s_port := of_nat n, s_request := r, s_transparent := False\<rparr>)"
    using connect_detected [OF g1 assms(15-22) refl, of "w_messenger ?w" i] assms(5) by auto
  define s2 where "s2 = s1\<lparr>s_host := host, s_port := of_nat n, s_request := r, s_transparent := False\<rparr>"
  define m2 where "m2 = on_world (waiting sm2 [] (detect_message i True) (w_io ?w @ Timeouts fd # idle_options fd)) m"
  have "orderly_step m1 (on_world (\<lambda>w. w\<lparr>w_work := [] @ [], w_sessions := sm2,
      w_messenger := (w_messenger ?w)\<lparr>m_pipe := detect_message i True\<rparr>\<rparr>) m1)"
    by (rule orderly_step.detect) (use d in \<open>simp_all add: m1_def\<close>)
  then have p2: "orderly_step m1 m2" by (cases "sk_world m") (simp add: m1_def m2_def)
  \<comment> \<open>the loop lets it pass\<close>
  have fd: "fd_of m2 = fd_of m" by (rule fd_of_cong) (simp add: m2_def)
  then have wf2: "wf_manager m2" using assms(2) by (simp add: wf_manager_def m2_def)
  have f2: "s_clientFd s2 = fd" "s_host s2 = host" "s_port s2 = of_nat n" "s_userName s2 = []" "\<not> s_transparent s2"
    by (simp_all add: s2_def s1_def Session_new_def)
  define m3 where "m3 = on_world (waiting sm2 [\<lparr>wp_handler = Some asyncConnector_fn, wp_context = i\<rparr>] []
      (w_io ?w @ Timeouts fd # idle_options fd)) m"
  have "orderly_step m2 (on_world (\<lambda>w. w\<lparr>w_messenger := (w_messenger w)\<lparr>m_pipe := []\<rparr>,
      w_work := [\<lparr>wp_handler = Some asyncConnector_fn, wp_context = i\<rparr>]\<rparr>) m2)"
    by (rule detect_report_turn [where s = s2])
       (use assms(1,8,23,24) wf2 i32 g2 f2 in \<open>simp_all add: m2_def s2_def\<close>)
  then have p3: "orderly_step m2 m3" by (cases "sk_world m") (simp add: m2_def m3_def)
  \<comment> \<open>a worker connects\<close>
  define es where "es = Connect (ce_socket ce) (hi_address x) (of_nat n) # Send fd ok_response #
      keepalives (ce_socket ce) s2 @ [Timeouts (ce_socket ce)]"
  let ?w3 = "(sk_world m3)\<lparr>w_work := []\<rparr>"
  define w4 where "w4 = (waiting sm2 [] (connect_message (ce_socket ce) i True) ((w_io ?w @ Timeouts fd # idle_options fd) @ es) ?w)
      \<lparr>w_cache := cache\<rparr>"
  have "asyncConnector_report ce i ?w3 = Inr (False, w4)"
    using connector_connects [of ?w3 i s2 ce x xs cached cache] assms(25-31) g2 f2
    by (simp add: m3_def w4_def es_def keepalives_def s2_def [symmetric])
  moreover have "ce_socket ce \<notin> set (held m3)"
  proof -
    have f3: "fd_of m3 = fd_of m" by (rule fd_of_cong) (simp add: m3_def)
    have "client_fd (sk_world m3) i = fd" using g2 f2(1) by (simp add: client_fd_def m3_def s2_def)
    then have "flight (sk_world m3) = [fd]"
      by (simp add: flight_def pending_def reports_def pipe_messages_def chunks.simps [of "[]"] m3_def)
    moreover have "sk_sockets m3 = sk_sockets m" by (simp add: m3_def)
    ultimately show ?thesis using assms(33,34) fds by (auto simp: held_def f3)
  qed
  ultimately have p4: "orderly_step m3 (m3\<lparr>sk_world := w4\<rparr>)"
    by (intro orderly_step.connect [where xs = "[]" and ys = "[]" and env = ce and i = i])
       (use assms(32) in \<open>simp_all add: m3_def\<close>)
  \<comment> \<open>the loop registers the pair\<close>
  let ?m4 = "m3\<lparr>sk_world := w4\<rparr>"
  have "fd_of ?m4 = fd_of m" by (rule fd_of_cong) (simp add: w4_def)
  then have "wf_manager ?m4" using assms(2) by (simp add: wf_manager_def m3_def)
  with connect_report_turn [of ?m4 "ce_socket ce" i s2] assms(1,8,13,32-34) i32 g2 f2
  obtain m5 where p5: "orderly_step ?m4 m5" and m5: "sk_sockets m5 = sk_sockets m @ crossed fd (ce_socket ce) i"
    "sk_world m5 = w4\<lparr>w_messenger := (w_messenger w4)\<lparr>m_pipe := []\<rparr>\<rparr>"
    by (auto simp: m3_def w4_def s2_def)
  from p1 p2 p3 p4 p5 have "(orderly_step ^^ 5) m m5" by (simp add: numeral_eq_Suc relcompp_apply) blast
  with m5 g2 f2 show ?thesis
    by (intro exI [of _ m5] exI [of _ s2]) (simp add: w4_def es_def s2_def keepalives_def idle_options_def ok_response_def)
qed

section \<open>An example\<close>

text \<open>A proxy without authentication that blocks one list for everybody, and a client of it.\<close>

definition open_data :: config_data where
  "open_data = \<lparr>cd_sections =
     [\<lparr>cs_name = ''Proxy'', cs_attributes = [\<lparr>at_name = ''port'', at_values = [''81'']\<rparr>,
        \<lparr>at_name = ''global_domains'', at_values = [''ads'']\<rparr>]\<rparr>,
      \<lparr>cs_name = ''DomainFiles'', cs_attributes = [\<lparr>at_name = ''ads'', at_values = [''ads.list'']\<rparr>]\<rparr>]\<rparr>"

definition open_fs :: "string \<Rightarrow> string option" where
  "open_fs p = (if p = ''n.conf'' then Some (render_config open_data)
     else if p = ''ads.list'' then Some (''ads.example'' @ [CR, LF]) else None)"

definition open_start :: start_env where
  "open_start = \<lparr>se_argument = Some ''n.conf'', se_access = 0, se_daemon = example_daemon, se_now = 0, se_epoll = 3,
     se_listen = (\<lambda>_. \<lparr>lc_socket = 6, lc_setsockopt = 0, lc_bind = 0, lc_listen = 0\<rparr>), se_room_server = True,
     se_pipe = Some (4, 5), se_room_command = True, se_sigaction = 0\<rparr>"

lemma open_LoadData: "ConfigFile_LoadData junk open_fs ''n.conf'' ConfigData_new = Inr open_data"
proof -
  have "wf_config open_data"
    by (simp add: open_data_def wf_config_def wf_section_def wf_attribute_def plain_word_def is_token_def isspace_def)
  then show ?thesis
    using load_lines_config [of "cd_sections open_data" ConfigData_new junk 0 "[]" "[]"]
    by (auto simp: ConfigFile_LoadData_def open_fs_def render_config_def wf_config_def ConfigData_new_def)
qed

lemma open_sections:
  "section_of ''Proxy'' open_data = \<lparr>cs_name = ''Proxy'', cs_attributes = [\<lparr>at_name = ''port'', at_values = [''81'']\<rparr>,
     \<lparr>at_name = ''global_domains'', at_values = [''ads'']\<rparr>]\<rparr>"
  "section_of ''DomainFiles'' open_data =
     \<lparr>cs_name = ''DomainFiles'', cs_attributes = [\<lparr>at_name = ''ads'', at_values = [''ads.list'']\<rparr>]\<rparr>"
  by (simp_all add: section_of_def open_data_def)

lemma open_values:
  "attr_value ''port'' (section_of ''Proxy'' open_data) = ''81''"
  "\<not> enabled ''auth'' (section_of ''Proxy'' open_data)"
  "daemon_of dm open_data = Inr process_init"
  "at_values (ConfigSection_ReadAttribute ''global_domains'' (section_of ''Proxy'' open_data)) = [''ads'']"
  by (simp_all add: daemon_of_def open_sections ReadAttribute_eq MultiValueAttribute_GetValue_def MultiValueAttribute_new_def)

lemma open_users: "users_of open_data = []"
  by (simp add: users_of_def open_values)

lemma open_permits: "permitted open_fs open_data u ''a.org''"
proof -
  have "open_fs ''ads.list'' = Some (''ads.example'' @ [CR, LF])" by (simp add: open_fs_def)
  then have "blocked_hosts open_fs open_data ''ads'' = Some {''ads.example''}"
    using example_hosts
    by (simp add: blocked_hosts_def open_sections MultiValueAttribute_GetValue_def del: append.simps)
  then show ?thesis by (simp add: permitted_def open_users open_values)
qed

lemma open_starts:
  "\<exists>m. main_start open_start (\<lambda>_. ([], [])) open_fs (settings_init []) = Inr (Running m) \<and> untouched m \<and>
    wf_manager m \<and> sk_isActive m \<and> sk_sockets m = [ServerS \<lparr>sv_socketFd = 6, sv_isActive = True\<rparr>, CommandS] \<and>
    sk_epoll m \<subseteq> {6, 4} \<and> w_cache (sk_world m) = [] \<and> w_io (sk_world m) = [] \<and> \<not> am_enabled (w_auth (sk_world m)) \<and>
    policy_allows (w_policies (sk_world m)) (w_blacklists (sk_world m)) [] ''a.org''"
proof -
  have "stoul ''81'' = Inr 81" by (simp add: stoul_def cstr_def isspace_def isdigit_def read_dec_def)
  then have "port_of ''81'' = Inr 81" by (simp add: port_of_def)
  then have st: "DoConfig (se_daemon open_start) (\<lambda>_. ([], [])) open_fs ''n.conf'' (settings_init []) =
      Inr (settings_of [] open_fs open_data process_init 81)"
    using DoConfig_eq [OF open_LoadData, of _ "\<lambda>_. ([], [])" "[]"] by (simp add: open_values)
  let ?st = "settings_of [] open_fs open_data process_init 81"
  have "\<not> am_enabled (st_auth ?st)" by (simp add: settings_of_def Let_def open_values)
  moreover have "policy_allows (st_policies ?st) (st_lists ?st) [] ''a.org''"
    using policy_allows_settings [OF keyed_LoadData [OF open_LoadData [of "\<lambda>_. ([], [])"]]] open_permits
    by (simp add: open_users)
  ultimately show ?thesis
    using start_running [of open_start, OF _ _ st, of _ 4 5] start_state [of open_start _ _ "settings_init []"]
    by (fastforce simp: open_start_def)
qed

lemma open_conditions:
  assumes "untouched m" and "w_cache (sk_world m) = []"
  shows "wf_sessions (w_sessions (sk_world m))" and "w_work (sk_world m) = []" and "m_pipe (w_messenger (sk_world m)) = []"
    and "0 = sm_sessionId (w_sessions (sk_world m))"
    and "SessionManager_GetSessionForClient (w_sessions (sk_world m)) 12 = None"
    and "HostResolver_GetAddressesForHost (ce_lookup (example_env ''10.0.0.1'' 0)) ''a.org'' (of_nat 443) False
      (w_cache (sk_world m)) = Inr (example_entry ''a.org'' ''10.0.0.1'' # [], False, [example_entry ''a.org'' ''10.0.0.1''])"
    and "wf_cache (w_cache (sk_world m))"
  using assms wf_SessionManager_new example_resolve
  by (simp_all add: untouched_def SessionManager_new_def SessionManager_GetSessionForClient_def wf_cache_def)

lemma open_request: "''CONNECT a.org:443 HTTP/1.1'' @ [CR, LF] = ''CONNECT '' @ ''a.org'' @ '':'' @ dec_nat 443 @ '' HTTP/1.1'' @ [CR, LF]"
  "is_token ''a.org''" "isspace CHR '' ''" "length (dec_nat 443) = 3"
proof -
  have "dec_nat 443 = ''443''" by code_simp
  then show "''CONNECT a.org:443 HTTP/1.1'' @ [CR, LF] = ''CONNECT '' @ ''a.org'' @ '':'' @ dec_nat 443 @ '' HTTP/1.1'' @ [CR, LF]"
    "length (dec_nat 443) = 3" by simp_all
qed (simp_all add: is_token_def isspace_def)

lemma open_run:
  "\<exists>m0 m s. main_start open_start (\<lambda>_. ([], [])) open_fs (settings_init []) = Inr (Running m0) \<and>
    orderly_step\<^sup>*\<^sup>* m0 m \<and> ClientS (ClientSocket_new 12 9 0 True) \<in> set (sk_sockets m) \<and>
    SessionManager_GetSession (w_sessions (sk_world m)) 0 = Some s \<and> s_host s = ''a.org''"
proof -
  from open_starts obtain m where m: "main_start open_start (\<lambda>_. ([], [])) open_fs (settings_init []) = Inr (Running m)"
    "untouched m" "wf_manager m" "sk_isActive m" "w_cache (sk_world m) = []"
    "sk_sockets m = [ServerS \<lparr>sv_socketFd = 6, sv_isActive = True\<rparr>, CommandS]" "sk_epoll m \<subseteq> {6, 4}"
    "\<not> am_enabled (w_auth (sk_world m))" "policy_allows (w_policies (sk_world m)) (w_blacklists (sk_world m)) [] ''a.org''"
    by blast
  note c = open_conditions [OF m(2,5)]
  have e: "12 \<notin> sk_epoll m" "9 \<notin> sk_epoll m" using m(7) by auto
  from serve_connect [OF m(4,3) c(1-3) _ _ _ c(4) _ _ _ e(1) c(5) open_request(2) _ _ _ _ _ open_request(1) _
      m(8,9) c(6,7)] e(2)
  obtain m' s where "(orderly_step ^^ 5) m m'" "sk_sockets m' = sk_sockets m @ crossed 12 9 0"
    "SessionManager_GetSession (w_sessions (sk_world m')) 0 = Some s" "s_host s = ''a.org''"
    by (simp add: m(6) open_request(3,4) example_env_def int32_def) blast
  with m(1) relpowp_imp_rtranclp show ?thesis by (fastforce simp: crossed_def)
qed

section \<open>What the proxy does and keeps\<close>

text \<open>
  C4: A request is served. A running proxy with nothing to do and no authentication, whose policies
  allow the host, serves a client that asks for \<open>CONNECT host:port\<close>: there are exactly five
  steps, in which the client is accepted, its request detected, let through, connected and
  registered, after which two sockets that point at each other are registered, the client has been
  told \<open>200 OK\<close>, nothing else was sent, no option was set but those listed, and the proxy has nothing to
  do again. This is for new descriptors, a counter of sessions below the largest \<open>int\<close>, a request of
  fewer than 4096 bytes, and a host whose first address answers.
\<close>

theorem connect_request_served:
  fixes ce :: connect_env
  assumes "sk_isActive m" and "wf_manager m" and "wf_sessions (w_sessions (sk_world m))"
    and "w_work (sk_world m) = []" and "m_pipe (w_messenger (sk_world m)) = []"
    and "ServerS sv \<in> set (sk_sockets m)" and "sv_isActive sv" and "CommandS \<in> set (sk_sockets m)"
    and "i = sm_sessionId (w_sessions (sk_world m))" and "0 \<le> i" and "i < 2 ^ 31 - 1"
    and "0 \<le> fd" and "fd \<notin> sk_epoll m"
    and "SessionManager_GetSessionForClient (w_sessions (sk_world m)) fd = None"
    and "is_token host" and "CHR '':'' \<notin> set host" and "n < 2 ^ 31" and "length host + length (dec_nat n) < 1023"
    and "rest = [] \<or> isspace (hd rest)" and "NUL \<notin> set rest"
    and "r = ''CONNECT '' @ host @ '':'' @ dec_nat n @ rest" and "length r < 4096"
    and "\<not> am_enabled (w_auth (sk_world m))"
    and "policy_allows (w_policies (sk_world m)) (w_blacklists (sk_world m)) [] host"
    and "HostResolver_GetAddressesForHost (ce_lookup ce) host (of_nat n) False (w_cache (sk_world m)) =
      Inr (x # xs, cached, cache)"
    and "wf_cache (w_cache (sk_world m))" and "host \<noteq> ''0.0.0.0''"
    and "ce_pton ce (hi_address x)" and "ce_connect ce (hi_address x) (of_nat n) \<noteq> - 1" and "ce_wrote ce"
    and "ce_socket ce \<noteq> - 1" and "int32 (ce_socket ce)" and "ce_socket ce \<notin> sk_epoll m" and "ce_socket ce \<noteq> fd"
  shows "\<exists>m' s. (orderly_step ^^ 5) m m' \<and> sk_sockets m' = sk_sockets m @ crossed fd (ce_socket ce) i \<and>
    SessionManager_GetSession (w_sessions (sk_world m')) i = Some s \<and>
    s_clientFd s = fd \<and> s_host s = host \<and> s_port s = of_nat n \<and> s_userName s = [] \<and>
    w_io (sk_world m') = w_io (sk_world m) @
      [Timeouts fd, KeepAlive fd, IdleTime fd 10, KeepCount fd 5, KeepInterval fd 5,
       Connect (ce_socket ce) (hi_address x) (of_nat n), Send fd (''HTTP/1.0 200 OK'' @ [CR, LF, CR, LF])] @
      (if strstr (cstr r) ''Connection: keep-alive'' = None then [KeepAlive (ce_socket ce)] else []) @
      (if strstr (cstr r) ''Proxy-Connection: keep-alive'' = None then [KeepAlive fd] else []) @
      [Timeouts (ce_socket ce)] \<and> w_work (sk_world m') = [] \<and> m_pipe (w_messenger (sk_world m')) = []"
  using assms by (rule serve_connect)

theorem connect_request_served_witness:
  "\<exists>m0 m. main_start open_start (\<lambda>_. ([], [])) open_fs (settings_init []) = Inr (Running m0) \<and>
    (orderly_step ^^ 5) m0 m \<and> sk_sockets m = sk_sockets m0 @ crossed 12 9 0"
proof -
  from open_starts obtain m where m: "main_start open_start (\<lambda>_. ([], [])) open_fs (settings_init []) = Inr (Running m)"
    "untouched m" "wf_manager m" "sk_isActive m" "w_cache (sk_world m) = []"
    "sk_sockets m = [ServerS \<lparr>sv_socketFd = 6, sv_isActive = True\<rparr>, CommandS]" "sk_epoll m \<subseteq> {6, 4}"
    "\<not> am_enabled (w_auth (sk_world m))" "policy_allows (w_policies (sk_world m)) (w_blacklists (sk_world m)) [] ''a.org''"
    by blast
  note c = open_conditions [OF m(2,5)]
  have e: "12 \<notin> sk_epoll m" "9 \<notin> sk_epoll m" using m(7) by auto
  show ?thesis
    using connect_request_served [OF m(4,3) c(1-3) _ _ _ c(4) _ _ _ e(1) c(5) open_request(2) _ _ _ _ _ open_request(1) _
        m(8,9) c(6,7)] m(1) e(2)
    by (simp add: m(6) open_request(3,4) example_env_def int32_def) blast
qed

text \<open>
  C1: From the file to the sockets. No user of the configuration is called \<open><global>\<close>, reading the pipe
  never fails, and \<open>accept\<close> never returns the descriptor of a session that is still listed (which it
  can only do after the proxy has closed that descriptor and kept the session). Then, in every state
  the running proxy reaches by turns of the loop and tasks of the workers in any order, the session
  of every registered client socket, as long as it is listed, has a host that the configuration
  permits for its user; with authentication on, that user is one of the configuration.
\<close>

theorem relays_only_permitted:
  assumes "ConfigFile_LoadData junk fs a ConfigData_new = Inr d" and "''<global>'' \<notin> at_name ` set (users_of d)"
    and "se_argument env = Some a" and "main_start env junk fs (settings_init old) = Inr (Running m0)"
    and "proxy_step\<^sup>*\<^sup>* m0 m" and "ClientS c \<in> set (sk_sockets m)"
    and "SessionManager_GetSession (w_sessions (sk_world m)) (cs_sessionId c) = Some s"
  shows "permitted fs d (s_userName s) (s_host s) \<and>
    (enabled ''auth'' (section_of ''Proxy'' d) \<longrightarrow> s_userName s \<in> at_name ` set (users_of d))"
proof -
  obtain st where u: "untouched m0" and st: "DoConfig (se_daemon env) junk fs a (settings_init old) = Inr st"
    and w0: "settled (sk_world m0) = (st_auth st, st_policies st, st_lists st)"
    using start_state [OF assms(4)] assms(3) by auto
  obtain pr port where p: "st = settings_of old fs d pr port"
    using st DoConfig_eq [OF assms(1), of "se_daemon env" old] by (auto simp: bind_res_eq_Inr)
  note r = reach_good [OF assms(5) untouched_good [OF u]]
  have "cs_sessionId c \<in> relaying m" using assms(6) by (auto simp: relaying_def)
  with r assms(7) have c: "cleared (sk_world m) s" by (auto simp: inv_def vetted_def)
  have "settled (sk_world m) = (st_auth st, st_policies st, st_lists st)" using r w0 by simp
  then have w: "w_policies (sk_world m) = st_policies st" "w_blacklists (sk_world m) = st_lists st"
    "w_auth (sk_world m) = st_auth st" by (simp_all add: settled_def)
  have "permitted fs d (s_userName s) (s_host s)"
    using c policy_allows_settings [OF keyed_LoadData [OF assms(1)] assms(2), of old fs pr port]
    by (simp add: cleared_def w p)
  moreover have "s_userName s \<in> at_name ` set (users_of d)" if "enabled ''auth'' (section_of ''Proxy'' d)"
    using c that by (auto simp: cleared_def w p settings_of_def user_of_def Let_def)
  ultimately show ?thesis by blast
qed

theorem relays_only_permitted_witness:
  "permitted open_fs open_data [] ''a.org'' \<and> (\<exists>m0 m s.
    main_start open_start (\<lambda>_. ([], [])) open_fs (settings_init []) = Inr (Running m0) \<and> proxy_step\<^sup>*\<^sup>* m0 m \<and>
    SessionManager_GetSession (w_sessions (sk_world m)) 0 = Some s \<and> s_host s = ''a.org'' \<and>
    permitted open_fs open_data (s_userName s) (s_host s))"
proof -
  from open_run obtain m0 m s where m: "main_start open_start (\<lambda>_. ([], [])) open_fs (settings_init []) = Inr (Running m0)"
    "orderly_step\<^sup>*\<^sup>* m0 m" "ClientS (ClientSocket_new 12 9 0 True) \<in> set (sk_sockets m)"
    "SessionManager_GetSession (w_sessions (sk_world m)) 0 = Some s" "s_host s = ''a.org''"
    by blast
  note r = orderly_reach [OF m(2)]
  have "permitted open_fs open_data (s_userName s) (s_host s)"
    using relays_only_permitted [OF open_LoadData _ _ m(1) r m(3), of s] m(4)
    by (simp add: open_users open_start_def ClientSocket_new_def)
  with m r open_permits show ?thesis by blast
qed

text \<open>
  C2: A session is in one hand. As long as reading the pipe never fails and \<open>accept\<close> never returns the
  descriptor of a session that is still listed: in every reachable state no two tasks and reports
  wait for the same session, none waits for a session that has sockets, and each waits for a session
  that is alive. A task waits until it has reported; what a connector that failed does after its
  report, to read the session once more and clear the cache, is not covered here and is a fault of
  the code (\<open>purge_after_the_end\<close>).
\<close>

theorem session_in_one_hand:
  assumes "main_start env junk fs st0 = Inr (Running m0)" and "proxy_step\<^sup>*\<^sup>* m0 m"
  shows "distinct (pending (sk_world m)) \<and> set (pending (sk_world m)) \<inter> relaying m = {} \<and>
    (\<forall>i\<in>set (pending (sk_world m)). SessionManager_GetSession (w_sessions (sk_world m)) i \<noteq> None)"
  using reach_good [OF assms(2) untouched_good [OF conjunct1 [OF start_state [OF assms(1)]]]]
  by (simp add: inv_def owned_def alive_def)

theorem session_in_one_hand_witness:
  "\<exists>m0 m. main_start open_start (\<lambda>_. ([], [])) open_fs (settings_init []) = Inr (Running m0) \<and>
    proxy_step\<^sup>*\<^sup>* m0 m \<and> 0 \<in> relaying m \<and> 0 \<notin> set (pending (sk_world m))"
proof -
  from open_run obtain m0 m where m: "main_start open_start (\<lambda>_. ([], [])) open_fs (settings_init []) = Inr (Running m0)"
    "orderly_step\<^sup>*\<^sup>* m0 m" "ClientS (ClientSocket_new 12 9 0 True) \<in> set (sk_sockets m)" by blast
  note r = orderly_reach [OF m(2)]
  have "0 \<in> relaying m" using m(3) by (force simp: relaying_def ClientSocket_new_def)
  with session_in_one_hand [OF m(1) r] m(1) r show ?thesis by blast
qed

lemma connect_result_no_null: "alive (sk_world m) (detect_sessionId msg) \<Longrightarrow> no_null (HandleConnectResult e msg m)"
  by (auto simp: alive_def HandleConnectResult_def Let_def)

lemma command_no_null:
  assumes "good m" and "\<not> ev_read_failed e"
  shows "no_null (HandleCommandSocketRead e m)"
proof (cases "pipe_deq (w_messenger (sk_world m))")
  case None
  with assms(2) show ?thesis by (simp add: HandleCommandSocketRead_def pipe_deq_def)
next
  case (Some r)
  obtain msg am where r: "pipe_deq (w_messenger (sk_world m)) = Some (msg, am)" using Some by (cases r) simp
  let ?m = "on_world (\<lambda>w. w\<lparr>w_messenger := am\<rparr>) m"
  have "alive (sk_world ?m) (detect_sessionId msg)" if "get_msgId msg = HOST_DETECT_RESULT \<or> get_msgId msg = HOST_CONNECT_RESULT"
    using inv_receive(2) [OF assms(1) r refl] that by (auto simp: decode_def free_def)
  moreover have "HandleCommandSocketRead e m = (case get_msgId msg of
      HOST_DETECT_RESULT \<Rightarrow> bind_res (HandleDetectResult (ev_command e) msg (sk_world ?m)) (\<lambda>w. Inr (True, ?m\<lparr>sk_world := w\<rparr>))
    | HOST_CONNECT_RESULT \<Rightarrow> bind_res (HandleConnectResult e msg ?m) (\<lambda>m. Inr (True, m))
    | Other_message _ \<Rightarrow> Inr (True, ?m))"
    using r assms(2) by (auto simp: HandleCommandSocketRead_def pipe_deq_def Let_def split: AsyncMessageId.splits)
  ultimately show ?thesis
    by (auto intro!: no_null_bind detect_result_no_null connect_result_no_null split: AsyncMessageId.split)
qed

text \<open>
  C3: No null pointer. As long as reading the pipe never fails and \<open>accept\<close> never returns the descriptor
  of a session that is still listed: in every reachable state, a task that waits in the list finds
  its session, and so does the loop when it reads a report. Although the pointers are used
  unchecked, neither a worker up to its report nor the loop goes through a null pointer there.
\<close>

theorem tasks_find_their_sessions:
  assumes "main_start env junk fs st0 = Inr (Running m0)" and "proxy_step\<^sup>*\<^sup>* m0 m"
  shows "(\<lparr>wp_handler = Some asyncDetector_fn, wp_context = i\<rparr> \<in> set (w_work (sk_world m)) \<longrightarrow>
      asyncDetector answer wrote i (w_sessions (sk_world m)) (w_messenger (sk_world m)) \<noteq> Inl NullDeref) \<and>
    (\<lparr>wp_handler = Some asyncConnector_fn, wp_context = i\<rparr> \<in> set (w_work (sk_world m)) \<longrightarrow>
      asyncConnector_report ce i (sk_world m) \<noteq> Inl NullDeref) \<and>
    (\<not> ev_read_failed e \<longrightarrow> HandleCommandSocketRead e m \<noteq> Inl NullDeref)"
proof -
  have g: "good m" using reach_good [OF assms(2) untouched_good [OF conjunct1 [OF start_state [OF assms(1)]]]] ..
  have "alive (sk_world m) i" if "\<lparr>wp_handler = h, wp_context = i\<rparr> \<in> set (w_work (sk_world m))" for h
  proof -
    have "i \<in> set (pending (sk_world m))" using that by (force simp: pending_def)
    with g show ?thesis by (simp add: inv_def owned_def)
  qed
  with detector_no_null connector_no_null command_no_null [OF g, of e] show ?thesis
    by (auto simp: no_null_def alive_def)
qed

lemma open_accept:
  "\<exists>m0 m. main_start open_start (\<lambda>_. ([], [])) open_fs (settings_init []) = Inr (Running m0) \<and>
    proxy_step\<^sup>*\<^sup>* m0 m \<and> w_work (sk_world m) = [\<lparr>wp_handler = Some asyncDetector_fn, wp_context = 0\<rparr>]"
proof -
  from open_starts obtain m where m: "main_start open_start (\<lambda>_. ([], [])) open_fs (settings_init []) = Inr (Running m)"
    "untouched m" "sk_isActive m" "w_cache (sk_world m) = []"
    "sk_sockets m = [ServerS \<lparr>sv_socketFd = 6, sv_isActive = True\<rparr>, CommandS]"
    by blast
  note c = open_conditions [OF m(2,4)]
  let ?e = "example_event\<lparr>ev_fd := 6, ev_accept := (12, [])\<rparr>"
  obtain sm where t: "SocketManager_ProcessSockets example_idle (Ready [?e]) m = Inr (True, on_world (\<lambda>w. w\<lparr>w_sessions := sm,
      w_io := w_io w @ Timeouts 12 # idle_options 12, w_work := w_work w @ [\<lparr>wp_handler = Some asyncDetector_fn, wp_context = 0\<rparr>]\<rparr>) m)"
    using accept_turn [OF m(3) _ _ _ c(1) _ _ c(5,4), of ?e 0 "\<lparr>sv_socketFd = 6, sv_isActive = True\<rparr>" "[]" example_idle]
    by (auto simp: m(5))
  have "events_ok [?e] m"
    using c(4,5) by (simp add: event_ok_def example_event_def split: sum.split bool.split)
  from r_into_rtranclp [of proxy_step, OF proxy_step.turn [OF t]] this m(1) c(2) show ?thesis
    by (intro exI conjI) (assumption | simp)+
qed

theorem tasks_find_their_sessions_witness:
  "\<exists>m0 m. main_start open_start (\<lambda>_. ([], [])) open_fs (settings_init []) = Inr (Running m0) \<and> proxy_step\<^sup>*\<^sup>* m0 m \<and>
    w_work (sk_world m) = [\<lparr>wp_handler = Some asyncDetector_fn, wp_context = 0\<rparr>] \<and>
    asyncDetector (ReadBytes []) True 0 (w_sessions (sk_world m)) (w_messenger (sk_world m)) \<noteq> Inl NullDeref"
proof -
  from open_accept obtain m0 m where m: "main_start open_start (\<lambda>_. ([], [])) open_fs (settings_init []) = Inr (Running m0)"
    "proxy_step\<^sup>*\<^sup>* m0 m" "w_work (sk_world m) = [\<lparr>wp_handler = Some asyncDetector_fn, wp_context = 0\<rparr>]" by blast
  from tasks_find_their_sessions [OF m(1,2), of 0 "ReadBytes []" True] m show ?thesis by auto
qed


text \<open>
  C5: No cross-talk. As long as the kernel hands out descriptors that nobody holds, epoll has room
  for both sockets of a connection, and the freed object that pruning reads is still as it was: in
  every reachable state exactly one socket has the descriptor to which a socket relays, and it is
  its opposite, of the same session, in the other direction, with the first as its own peer. The
  two are the only sockets of their session, and the client's end is the descriptor of the session.
\<close>

theorem no_cross_talk:
  assumes "main_start env junk fs st0 = Inr (Running m0)" and "orderly_step\<^sup>*\<^sup>* m0 m"
    and "ClientS c \<in> set (sk_sockets m)"
  shows "\<exists>c'. opposite c c' \<and> {s \<in> set (sk_sockets m). fd_of m s = cs_peerFd c} = {ClientS c'} \<and>
    {d. ClientS d \<in> set (sk_sockets m) \<and> cs_sessionId d = cs_sessionId c} = {c, c'} \<and>
    (case SessionManager_GetSession (w_sessions (sk_world m)) (cs_sessionId c) of
       None \<Rightarrow> True
     | Some s \<Rightarrow> s_clientFd s = (if cs_isClientToProxy c then cs_socketFd c else cs_peerFd c))"
proof -
  have s: "sound m" using sound_reach [OF assms(2) start_sound [OF assms(1)]] .
  have "distinct (map (fd_of m) (sk_sockets m))" using s by (simp add: sound_def held_def)
  then have uniq: "x = y" if "x \<in> set (sk_sockets m)" "y \<in> set (sk_sockets m)" "fd_of m x = fd_of m y" for x y
    using that by (simp add: distinct_map inj_on_def)
  obtain c' where c': "ClientS c' \<in> set (sk_sockets m)" "opposite c c'"
    using s assms(3) unfolding sound_def paired_def by blast
  then have fd: "fd_of m (ClientS c') = cs_peerFd c" and sid: "cs_sessionId c' = cs_sessionId c"
    by (simp_all add: opposite_def)
  have "x = ClientS c'" if "x \<in> set (sk_sockets m)" "fd_of m x = cs_peerFd c" for x
    using uniq [OF that(1) c'(1)] that(2) fd by simp
  with c'(1) fd have "{s \<in> set (sk_sockets m). fd_of m s = cs_peerFd c} = {ClientS c'}" by blast
  moreover have "d = c \<or> d = c'" if d: "ClientS d \<in> set (sk_sockets m)" "cs_sessionId d = cs_sessionId c" for d
  proof -
    have "cs_socketFd d = cs_socketFd c \<or> cs_socketFd d = cs_peerFd c"
      using s assms(3) d unfolding sound_def paired_def by metis
    with uniq [OF d(1) assms(3)] uniq [OF d(1) c'(1)] fd show ?thesis by auto
  qed
  with assms(3) c' sid have "{d. ClientS d \<in> set (sk_sockets m) \<and> cs_sessionId d = cs_sessionId c} = {c, c'}"
    by auto
  moreover have "s_clientFd se = (if cs_isClientToProxy c then cs_socketFd c else cs_peerFd c)"
    if "SessionManager_GetSession (w_sessions (sk_world m)) (cs_sessionId c) = Some se" for se
    using s assms(3) c' that by (auto simp: sound_def rooted_def opposite_def client_fd_def alive_def)
  then have "case SessionManager_GetSession (w_sessions (sk_world m)) (cs_sessionId c) of None \<Rightarrow> True
      | Some s \<Rightarrow> s_clientFd s = (if cs_isClientToProxy c then cs_socketFd c else cs_peerFd c)"
    by (cases "SessionManager_GetSession (w_sessions (sk_world m)) (cs_sessionId c)") simp_all
  ultimately show ?thesis using c'(2) by blast
qed

theorem no_cross_talk_witness:
  "\<exists>m0 m c'. main_start open_start (\<lambda>_. ([], [])) open_fs (settings_init []) = Inr (Running m0) \<and>
    orderly_step\<^sup>*\<^sup>* m0 m \<and> cs_socketFd c' = 9 \<and> cs_peerFd c' = 12 \<and>
    {s \<in> set (sk_sockets m). fd_of m s = 9} = {ClientS c'}"
proof -
  from open_run obtain m0 m where m: "main_start open_start (\<lambda>_. ([], [])) open_fs (settings_init []) = Inr (Running m0)"
    "orderly_step\<^sup>*\<^sup>* m0 m" "ClientS (ClientSocket_new 12 9 0 True) \<in> set (sk_sockets m)" by blast
  from no_cross_talk [OF m] obtain c' where "opposite (ClientSocket_new 12 9 0 True) c'"
    "{s \<in> set (sk_sockets m). fd_of m s = 9} = {ClientS c'}"
    by (auto simp: ClientSocket_new_def)
  with m(1,2) show ?thesis by (auto simp: opposite_def ClientSocket_new_def)
qed

section \<open>After the report\<close>




end
