(* ===== verification/Switchboard.thy ===== *)
theory Switchboard
  imports Service
begin

text \<open>
  The proxy as a switchboard: an abstract machine that only knows which descriptors of clients are
  connected to which descriptors of servers, and the proof that the orderly steps of the code's
  model are runs of this machine.
\<close>

section \<open>The abstract machine\<close>

text \<open>A connection: the session, the descriptor of the client, the descriptor of the server.\<close>

type_synonym line = "int \<times> int \<times> int"

definition clear_of :: "line \<Rightarrow> line \<Rightarrow> bool" where
  "clear_of l l' \<longleftrightarrow> fst l \<noteq> fst l' \<and> {fst (snd l), snd (snd l)} \<inter> {fst (snd l'), snd (snd l')} = {}"

inductive patch :: "line set \<Rightarrow> line set \<Rightarrow> bool" where
  plug: "(\<And>l. l \<in> L \<Longrightarrow> clear_of (i, a, b) l) \<Longrightarrow> a \<noteq> b \<Longrightarrow> patch L (insert (i, a, b) L)"
| unplug: "l \<in> L \<Longrightarrow> patch L (L - {l})"

text \<open>Lines of the switchboard never share a descriptor or a session.\<close>

definition separate :: "line set \<Rightarrow> bool" where
  "separate L \<longleftrightarrow> (\<forall>l\<in>L. fst (snd l) \<noteq> snd (snd l)) \<and> (\<forall>l\<in>L. \<forall>l'\<in>L. l \<noteq> l' \<longrightarrow> clear_of l l')"

lemma clear_of_sym: "clear_of l l' \<Longrightarrow> clear_of l' l"
  by (auto simp: clear_of_def)

lemma patch_separate: "patch L L' \<Longrightarrow> separate L \<Longrightarrow> separate L'"
  by (induction rule: patch.induct) (auto simp: separate_def dest: clear_of_sym)

lemma patches_separate: "patch\<^sup>*\<^sup>* L L' \<Longrightarrow> separate L \<Longrightarrow> separate L'"
  by (induction rule: rtranclp_induct) (auto dest: patch_separate)

section \<open>The lines of the proxy\<close>

definition line_of :: "client_socket \<Rightarrow> line" where
  "line_of c = (if cs_isClientToProxy c then (cs_sessionId c, cs_socketFd c, cs_peerFd c)
     else (cs_sessionId c, cs_peerFd c, cs_socketFd c))"

text \<open>
  A line has both its sockets registered, each the peer of the other. A socket alone is a stub; in
  sound states there is no difference.
\<close>

definition lines :: "manager \<Rightarrow> line set" where
  "lines m = {line_of c |c c'. ClientS c \<in> set (sk_sockets m) \<and> ClientS c' \<in> set (sk_sockets m) \<and> opposite c c'}"

definition stubs :: "manager \<Rightarrow> line set" where
  "stubs m = {line_of c |c. ClientS c \<in> set (sk_sockets m)}"

lemma stubs_lines: "sound m \<Longrightarrow> lines m = stubs m"
  unfolding lines_def stubs_def sound_def paired_def by blast

lemma line_of_opposite: "opposite c c' \<Longrightarrow> line_of c' = line_of c"
  by (auto simp: opposite_def line_of_def)

lemma line_of_same_ends: "same_ends c c' \<Longrightarrow> line_of c' = line_of c"
  by (simp add: same_ends_def line_of_def)

lemma line_of_crossed:
  "line_of (ClientSocket_new a b i True) = (i, a, b)" "line_of (ClientSocket_new b a i False) = (i, a, b)"
  by (simp_all add: line_of_def ClientSocket_new_def)

lemma stubs_cong: "sk_sockets m' = sk_sockets m \<Longrightarrow> stubs m' = stubs m"
  by (simp add: stubs_def)

lemma stubs_update:
  assumes "k < length (sk_sockets m)" and "sk_sockets m ! k = ClientS c" and "same_ends c c1"
    and "sk_sockets m' = (sk_sockets m)[k := ClientS c1]"
  shows "stubs m' = stubs m"
proof -
  have "ClientS c \<in> set (sk_sockets m)" using assms(1,2) by (metis nth_mem)
  moreover have "ClientS d \<in> set (sk_sockets m') \<Longrightarrow> d = c1 \<or> ClientS d \<in> set (sk_sockets m)" for d
    using set_update_subset_insert [of "sk_sockets m" k "ClientS c1"] assms(4) by auto
  moreover have "ClientS d \<in> set (sk_sockets m) \<Longrightarrow> d = c \<or> ClientS d \<in> set (sk_sockets m')" for d
    using assms(1,2,4) by (metis in_set_conv_nth length_list_update nth_list_update_neq socket.inject(2))
  moreover have "ClientS c1 \<in> set (sk_sockets m')" using assms(1,4) by (simp add: set_update_memI)
  ultimately show ?thesis using line_of_same_ends [OF assms(3)] unfolding stubs_def by (auto; metis)
qed

section \<open>Closing unplugs a line\<close>

lemma sound_parts:
  assumes "sound m"
  shows "paired (sk_sockets m)" and "distinct (map (fd_of m) (sk_sockets m))"
    and "ClientS c \<in> set (sk_sockets m) \<Longrightarrow> ClientS d \<in> set (sk_sockets m) \<Longrightarrow> cs_socketFd c = cs_socketFd d \<Longrightarrow> c = d"
proof -
  show "paired (sk_sockets m)" and d: "distinct (map (fd_of m) (sk_sockets m))"
    using assms by (simp_all add: sound_def held_def)
  show "c = d" if "ClientS c \<in> set (sk_sockets m)" "ClientS d \<in> set (sk_sockets m)" "cs_socketFd c = cs_socketFd d"
    using inj_onD [OF d [unfolded distinct_map, THEN conjunct2], of "ClientS c" "ClientS d"] that by simp
qed

lemma stubs_close:
  assumes "sound m" and "ClientS c \<in> set (sk_sockets m)"
    and "m' = on_world f (remove_peer (cs_peerFd c) (remove_peer (cs_socketFd c) m))"
  shows "stubs m' = stubs m - {line_of c}" and "line_of c \<in> stubs m"
proof -
  let ?m1 = "remove_peer (cs_socketFd c) m"
  note p = sound_parts [OF assms(1)]
  have s1: "sk_sockets ?m1 = filter (\<lambda>s. fd_of m s \<noteq> cs_socketFd c) (sk_sockets m)" by (rule remove_peer_sockets [OF p(2)])
  have "distinct (map (fd_of ?m1) (sk_sockets ?m1))" using p(2) by (simp add: s1 distinct_map_filter)
  from remove_peer_sockets [OF this]
  have s: "ClientS d \<in> set (sk_sockets m') \<longleftrightarrow>
      ClientS d \<in> set (sk_sockets m) \<and> cs_socketFd d \<noteq> cs_peerFd c \<and> cs_socketFd d \<noteq> cs_socketFd c" for d
    by (auto simp: assms(3) s1)
  have gone: "line_of d = line_of c \<longleftrightarrow> cs_socketFd d = cs_peerFd c \<or> cs_socketFd d = cs_socketFd c"
    if d: "ClientS d \<in> set (sk_sockets m)" for d
  proof
    assume "line_of d = line_of c"
    then have "cs_sessionId c = cs_sessionId d" by (auto simp: line_of_def split: if_splits)
    with p(1) assms(2) d show "cs_socketFd d = cs_peerFd c \<or> cs_socketFd d = cs_socketFd c" unfolding paired_def by blast
  next
    assume fd: "cs_socketFd d = cs_peerFd c \<or> cs_socketFd d = cs_socketFd c"
    obtain c' where c': "ClientS c' \<in> set (sk_sockets m)" "opposite c c'" using p(1) assms(2) unfolding paired_def by blast
    have "d = c'" if "cs_socketFd d = cs_peerFd c"
      using p(3) [OF d c'(1)] that c'(2) by (simp add: opposite_def)
    moreover have "d = c" if "cs_socketFd d = cs_socketFd c" using p(3) [OF d assms(2) that] .
    ultimately show "line_of d = line_of c" using fd line_of_opposite [OF c'(2)] by blast
  qed
  show "stubs m' = stubs m - {line_of c}" 
    by (simp add: stubs_def s set_eq_iff) (metis gone)
  show "line_of c \<in> stubs m" using assms(2) by (auto simp: stubs_def)
qed

lemma patch_close:
  assumes "sound m" and "ClientS c \<in> set (sk_sockets m)"
  shows "patch\<^sup>*\<^sup>* (stubs m) (stubs (on_world f (remove_peer (cs_peerFd c) (remove_peer (cs_socketFd c) m))))"
  using stubs_close(1) [OF assms refl, of f] patch.unplug [OF stubs_close(2) [OF assms refl]] by simp

section \<open>A report plugs a line in\<close>

lemma patch_open:
  assumes "sound m" and "sound m'" and "sk_sockets m' = sk_sockets m @ crossed a b i"
  shows "patch (stubs m) (stubs m')"
proof -
  let ?c = "ClientSocket_new a b i True" let ?d = "ClientSocket_new b a i False"
  have in': "ClientS ?c \<in> set (sk_sockets m')" "ClientS ?d \<in> set (sk_sockets m')" by (simp_all add: assms(3) crossed_def)
  have "distinct (map (fd_of m') (sk_sockets m'))" by (rule sound_parts(2) [OF assms(2)])
  then have new: "a \<noteq> b" "ClientS e \<in> set (sk_sockets m) \<Longrightarrow> cs_socketFd e \<noteq> a \<and> cs_socketFd e \<noteq> b" for e
    by (force simp: assms(3) crossed_def ClientSocket_new_def image_iff)+
  have peer: "cs_peerFd e \<noteq> a \<and> cs_peerFd e \<noteq> b" if e: "ClientS e \<in> set (sk_sockets m)" for e
  proof -
    obtain e' where "ClientS e' \<in> set (sk_sockets m)" "opposite e e'"
      using sound_parts(1) [OF assms(1)] e unfolding paired_def by blast
    with new(2) [of e'] show ?thesis by (simp add: opposite_def)
  qed
  have sess: "cs_sessionId e \<noteq> i" if e: "ClientS e \<in> set (sk_sockets m)" for e
  proof
    assume "cs_sessionId e = i"
    then have "cs_sessionId e = cs_sessionId ?c" by (simp add: ClientSocket_new_def)
    moreover have "ClientS e \<in> set (sk_sockets m')" using e by (simp add: assms(3))
    ultimately have "cs_socketFd ?c = cs_socketFd e \<or> cs_socketFd ?c = cs_peerFd e"
      using sound_parts(1) [OF assms(2)] in'(1) unfolding paired_def by blast
    with new(2) [OF e] peer [OF e] show False by (simp add: ClientSocket_new_def)
  qed
  have "clear_of (i, a, b) l" if "l \<in> stubs m" for l
  proof -
    obtain e where e: "l = line_of e" "ClientS e \<in> set (sk_sockets m)" using \<open>l \<in> stubs m\<close> by (auto simp: stubs_def)
    from new(2) [OF e(2)] peer [OF e(2)] sess [OF e(2)] show ?thesis
      by (cases "cs_isClientToProxy e") (auto simp: e(1) line_of_def clear_of_def)
  qed
  then have "patch (stubs m) (insert (i, a, b) (stubs m))" using new(1) by (rule patch.plug)
  moreover have "stubs m' = insert (i, a, b) (stubs m)"
    by (auto simp: stubs_def assms(3) crossed_def line_of_crossed intro: exI [of _ ?c])
  ultimately show ?thesis by simp
qed


section \<open>Every step is a run of the switchboard\<close>

lemma client_patches:
  assumes "sound m" and "k < length (sk_sockets m)" and "sk_sockets m ! k = ClientS c"
    and "HandleClientSocketRead e k c m = Inr (go_on, m')"
  shows "patch\<^sup>*\<^sup>* (stubs m) (stubs m')"
proof (rule client_turn [OF assms])
  fix m1 c1
  assume m1: "sound m1" "ClientS c1 \<in> set (sk_sockets m1)" "same_ends c c1"
    "sk_sockets m1 = (sk_sockets m)[k := ClientS c1]"
    and m': "m' = m1 \<or> m' = on_world (end_session (ev_now e) (cs_sessionId c1))
      (remove_peer (cs_peerFd c1) (remove_peer (cs_socketFd c1) m1))"
  have "stubs m1 = stubs m" by (rule stubs_update [OF assms(2,3) m1(3,4)])
  with m' patch_close [OF m1(1,2), of "end_session (ev_now e) (cs_sessionId c1)"] show ?thesis by auto
qed

lemma server_stubs: "HandleServerSocketRead e sv m = Inr (go_on, m') \<Longrightarrow> stubs m' = stubs m"
  by (rule stubs_cong) (auto simp: HandleServerSocketRead_def Let_def bind_res_eq_Inr split: prod.splits if_splits option.splits)

lemma event_patches:
  assumes "sound m" and "orderly_event e m" and "event_loop [e] m = Inr (go_on, m')"
  shows "patch\<^sup>*\<^sup>* (stubs m) (stubs m')"
proof (cases "find_index (\<lambda>s. fd_of m s = ev_fd e) (sk_sockets m)")
  case None
  with assms(3) show ?thesis by simp
next
  case (Some k)
  then obtain g where h: "handle_socket e k m = Inr (g, m')"
    using assms(3) by (auto simp: bind_res_eq_Inr split: if_splits)
  have k: "k < length (sk_sockets m)" using find_index_Some [OF Some] by simp
  from assms(2) have e: "event_ok e m" "ev_room_client e" "ev_room_proxy e" by (simp_all add: orderly_event_def)
  show ?thesis
  proof (cases "sk_sockets m ! k")
    case (ServerS sv)
    with h server_stubs [of e sv m g m'] show ?thesis by (simp add: handle_socket_def)
  next
    case (ClientS c)
    with h client_patches [OF assms(1) k ClientS, of e g m'] show ?thesis by (simp add: handle_socket_def)
  next
    case CommandS
    with h have "HandleCommandSocketRead e m = Inr (g, m')" by (simp add: handle_socket_def)
    from sound_command [OF assms(1) e this] show ?thesis
      using patch_open [OF assms(1)] stubs_cong [of m' m] by auto
  qed
qed

lemma events_patches:
  assumes "sound m" and "orderly_events es m" and "event_loop es m = Inr (go_on, m')"
  shows "patch\<^sup>*\<^sup>* (stubs m) (stubs m')"
  using assms
proof (induction es arbitrary: m)
  case (Cons e es)
  obtain g m1 where 1: "event_loop [e] m = Inr (g, m1)"
    and 2: "(if \<not> g then Inr (False, m1) else event_loop es m1) = Inr (go_on, m')"
    using Cons.prems(3) unfolding event_loop_sequence [of e es] bind_res_eq_Inr by auto
  have o: "orderly_event e m" using Cons.prems(2) by simp
  note p = event_patches [OF Cons.prems(1) o 1]
  show ?case
  proof (cases g)
    case True
    with Cons.prems(2) 1 2 have "orderly_events es m1" "event_loop es m1 = Inr (go_on, m')"
      by (simp_all del: event_loop.simps)
    from Cons.IH [OF sound_event [OF Cons.prems(1) o 1] this] p show ?thesis by simp
  qed (use p 2 in simp)
qed simp

lemma prune_patches:
  assumes "prune_loop cs_peerFd now n m = Some m'" and "sound m"
  shows "sound m' \<and> patch\<^sup>*\<^sup>* (stubs m) (stubs m')"
proof (rule prune_loop_keeps [OF assms(1)])
  show "sound m \<and> patch\<^sup>*\<^sup>* (stubs m) (stubs m)" using assms(2) by simp
  fix n x k c
  assume x: "sound x \<and> patch\<^sup>*\<^sup>* (stubs m) (stubs x)"
    and k: "find_index is_client (sk_sockets x) = Some k" "sk_sockets x ! k = ClientS c"
  from x have s: "sound x" ..
  note one = prune_one_closes [OF s k]
  from patch_close [OF s one(1)] have "patch\<^sup>*\<^sup>* (stubs x) (stubs (prune_one cs_peerFd (now n) k c x))"
    by (simp only: one(2))
  with x sound_prune_one [OF s k] show "sound (prune_one cs_peerFd (now n) k c x) \<and>
      patch\<^sup>*\<^sup>* (stubs m) (stubs (prune_one cs_peerFd (now n) k c x))" by auto
qed

lemma turn_patches:
  assumes "sound m" and "orderly env answer m" and "SocketManager_ProcessSockets env answer m = Inr (go_on, m')"
  shows "patch\<^sup>*\<^sup>* (stubs m) (stubs m')"
proof (cases "\<exists>es. answer = Ready es \<and> sk_isActive m")
  case False
  with assms(3) show ?thesis by (auto simp: SocketManager_ProcessSockets_def split: if_splits wait_result.splits)
next
  case True
  then obtain es where es: "answer = Ready es" and active: "sk_isActive m" by blast
  show ?thesis
  proof (cases "es = []")
    case True
    with assms(2) es have f: "id_freed env = cs_peerFd" by (simp add: orderly_def)
    obtain m1 where p: "prune_loop cs_peerFd (id_prune_now env) 0 m = Some m1" and "sk_sockets m' = sk_sockets m1"
      using assms(3) es True active f
      by (auto simp: SocketManager_ProcessSockets_def SocketManager_PruneExcessConnections_def bind_res_eq_Inr
          loop_res_def Let_def split: option.splits if_splits prod.splits)
    from prune_patches [OF p assms(1)] stubs_cong [OF this(2)] show ?thesis by simp
  next
    case False
    with assms(2) es have "orderly_events es m" by (simp add: orderly_def)
    moreover have "event_loop es m = Inr (go_on, m')"
      using assms(3) es active False by (simp add: SocketManager_ProcessSockets_def)
    ultimately show ?thesis by (rule events_patches [OF assms(1)])
  qed
qed

lemma step_patches: "orderly_step m m' \<Longrightarrow> sound m \<Longrightarrow> patch\<^sup>*\<^sup>* (stubs m) (stubs m')"
proof (induction rule: orderly_step.induct)
  case (turn env answer m m')
  from turn_patches [OF turn.prems turn.hyps(2,1)] show ?case .
qed (simp_all add: stubs_def)

lemma run_patches: "orderly_step\<^sup>*\<^sup>* m m' \<Longrightarrow> sound m \<Longrightarrow> patch\<^sup>*\<^sup>* (stubs m) (stubs m')"
proof (induction rule: rtranclp_induct)
  case (step m1 m2)
  with step_patches [OF step.hyps(2) sound_reach [OF step.hyps(1) step.prems]] show ?case by auto
qed simp


section \<open>The refinement\<close>

lemma start_stubs:
  assumes "main_start env junk fs st0 = Inr (Running m)"
  shows "stubs m = {}"
proof -
  have "untouched m" using start_state [OF assms] by blast
  then show ?thesis by (auto simp: stubs_def untouched_def relaying_def)
qed

text \<open>
  C6: The proxy refines a switchboard. The started proxy has no line. Then let turns of the loop and
  tasks of the workers follow in any order, as long as reading the pipe never fails, the kernel
  hands out only descriptors that no socket, session or report holds, epoll has room for both
  sockets of a connection, and the freed object that pruning reads is still as it was. The lines,
  each with both its sockets, change only as the abstract machine allows: a line is plugged in
  between two different descriptors that no line has, for a session that no line has, or unplugged.
  No socket of a connection is ever without its line, so lines come and go as a whole, and no two
  lines share a session or a descriptor.
\<close>

theorem proxy_refines_switchboard:
  assumes "main_start env junk fs st0 = Inr (Running m0)" and "orderly_step\<^sup>*\<^sup>* m0 m" and "orderly_step\<^sup>*\<^sup>* m m'"
  shows "lines m0 = {} \<and> patch\<^sup>*\<^sup>* (lines m) (lines m') \<and> separate (lines m') \<and>
    (\<forall>c. ClientS c \<in> set (sk_sockets m') \<longrightarrow> line_of c \<in> lines m')"
proof -
  note s0 = start_sound [OF assms(1)] and l0 = start_stubs [OF assms(1)]
  have s: "sound m" "sound m'" using sound_reach [OF assms(2) s0] sound_reach [OF assms(3)] by blast+
  have "patch\<^sup>*\<^sup>* (stubs m0) (stubs m')" using assms(2,3) s0 by (intro run_patches) simp_all
  then have "separate (stubs m')" by (rule patches_separate) (simp add: l0 separate_def)
  moreover have "ClientS c \<in> set (sk_sockets m') \<Longrightarrow> line_of c \<in> stubs m'" for c by (auto simp: stubs_def)
  ultimately show ?thesis
    using l0 run_patches [OF assms(3) s(1)] by (simp add: stubs_lines s s0)
qed

text \<open>A run in which a \<open>CONNECT\<close> request is served: its line is there, and was plugged in.\<close>

theorem proxy_refines_switchboard_witness:
  "\<exists>m0 m. main_start open_start (\<lambda>_. ([], [])) open_fs (settings_init []) = Inr (Running m0) \<and>
    orderly_step\<^sup>*\<^sup>* m0 m \<and> (0, 12, 9) \<in> lines m \<and> patch\<^sup>*\<^sup>* {} (lines m) \<and> separate (lines m)"
proof -
  from open_run obtain m0 m where m: "main_start open_start (\<lambda>_. ([], [])) open_fs (settings_init []) = Inr (Running m0)"
    "orderly_step\<^sup>*\<^sup>* m0 m" "ClientS (ClientSocket_new 12 9 0 True) \<in> set (sk_sockets m)" by blast
  from proxy_refines_switchboard [OF m(1) rtranclp.rtrancl_refl m(2)] m line_of_crossed(1) [of 12 9 0] show ?thesis
    by fastforce
qed

end
