(* ===== verification/Ending.thy ===== *)
theory Ending
  imports Service
begin

text \<open>
  How the proxy ends: the turns that make \<open>main\<close> leave its loop.
\<close>

section \<open>Turns that go on\<close>

lemma active_destroy [simp]: "sk_isActive (destroy s m) = sk_isActive m"
  by (simp add: destroy_def split: option.split)

lemma active_remove_at [simp]: "sk_isActive (remove_at k m) = sk_isActive m"
  by (simp add: remove_at_def)

lemma active_RemoveSocketFd [simp]: "sk_isActive (snd (SocketManager_RemoveSocketFd fd m)) = sk_isActive m"
  by (simp add: SocketManager_RemoveSocketFd_def)

lemma active_remove_peer [simp]: "sk_isActive (remove_peer fd m) = sk_isActive m"
  by (simp add: remove_peer_def split: option.split)

lemma active_AddSocket [simp]: "sk_isActive (snd (SocketManager_AddSocket room s m)) = sk_isActive m"
  by (simp add: SocketManager_AddSocket_def)

lemma active_prune_one [simp]: "sk_isActive (prune_one freed now k c m) = sk_isActive m"
  by (simp add: prune_one_def)

lemma active_prune_loop: "prune_loop freed now n m = Some m' \<Longrightarrow> sk_isActive m' = sk_isActive m"
  by (rule prune_loop_keeps [where Q = "\<lambda>x. sk_isActive x = sk_isActive m"]) simp_all

text \<open>A handler keeps the manager active, and reports false only when \<open>accept\<close> fails.\<close>

lemma server_goes_on:
  "HandleServerSocketRead e sv m = Inr (go_on, m') \<Longrightarrow> sk_isActive m' = sk_isActive m \<and>
    (go_on \<or> fst (ServerSocket_Accept (ev_accept e) sv []) < 0)"
  by (cases "ServerSocket_Accept (ev_accept e) sv []")
     (auto simp: HandleServerSocketRead_def Let_def bind_res_eq_Inr split: prod.splits if_splits option.splits)

lemma client_goes_on:
  assumes "HandleClientSocketRead e k c m = Inr (go_on, m')"
  shows "sk_isActive m' = sk_isActive m \<and> go_on"
proof -
  have "sk_isActive m' = sk_isActive m" by (rule client_effect [OF assms]) simp_all
  moreover have "go_on"
    using assms
    by (cases "ClientSocket_Read (ev_reads e) False c (sk_buf m)")
       (auto simp: HandleClientSocketRead_def Let_def bind_res_eq_Inr split: if_splits option.splits)
  ultimately show ?thesis ..
qed

lemma command_goes_on:
  assumes "HandleCommandSocketRead e m = Inr (go_on, m')"
  shows "sk_isActive m' = sk_isActive m \<and> go_on"
proof -
  have "sk_isActive m' = sk_isActive m" if "HandleConnectResult e msg m = Inr m'" for msg m m'
    using that by (auto simp: HandleConnectResult_def Let_def split: option.splits if_splits)
  with assms show ?thesis
    by (cases "AsyncMessenger_ReadMessage (ev_read_failed e) AsyncMessage_zero (w_messenger (sk_world m))")
       (fastforce simp: HandleCommandSocketRead_def Let_def bind_res_eq_Inr split: AsyncMessageId.splits)+
qed

lemma handler_goes_on:
  assumes "handle_socket e k m = Inr (go_on, m')"
  shows "sk_isActive m' = sk_isActive m \<and>
    (go_on \<or> (\<exists>sv. sk_sockets m ! k = ServerS sv \<and> fst (ServerSocket_Accept (ev_accept e) sv []) < 0))"
  using assms
  by (cases "sk_sockets m ! k") (auto simp: handle_socket_def dest: server_goes_on client_goes_on command_goes_on)

text \<open>The event at which \<open>accept\<close> fails, in the state the earlier ones leave.\<close>

definition accept_fails :: "event list \<Rightarrow> manager \<Rightarrow> bool" where
  "accept_fails es m \<longleftrightarrow> (\<exists>es1 e es2 m1 k sv. es = es1 @ e # es2 \<and> event_loop es1 m = Inr (True, m1) \<and>
     find_index (\<lambda>s. fd_of m1 s = ev_fd e) (sk_sockets m1) = Some k \<and> sk_sockets m1 ! k = ServerS sv \<and>
     fst (ServerSocket_Accept (ev_accept e) sv []) < 0)"

lemma accept_fails_later:
  assumes "accept_fails es m1" and "event_loop [e] m = Inr (True, m1)"
  shows "accept_fails (e # es) m"
proof -
  obtain es1 d es2 m2 k sv where d: "es = es1 @ d # es2" "event_loop es1 m1 = Inr (True, m2)"
    "find_index (\<lambda>s. fd_of m2 s = ev_fd d) (sk_sockets m2) = Some k" "sk_sockets m2 ! k = ServerS sv"
    "fst (ServerSocket_Accept (ev_accept d) sv []) < 0"
    using assms(1) unfolding accept_fails_def by blast
  have "event_loop (e # es1) m = Inr (True, m2)" using assms(2) d(2) by (subst event_loop_sequence) (simp del: event_loop.simps)
  with d show ?thesis unfolding accept_fails_def by (intro exI [of _ "e # es1"]) auto
qed

lemma event_loop_goes_on:
  assumes "event_loop es m = Inr (go_on, m')"
  shows "sk_isActive m' = sk_isActive m \<and> (go_on \<or> accept_fails es m)"
  using assms
proof (induction es arbitrary: m)
  case (Cons e es)
  obtain g m1 where 1: "event_loop [e] m = Inr (g, m1)"
    and 2: "(if \<not> g then Inr (False, m1) else event_loop es m1) = Inr (go_on, m')"
    using Cons.prems unfolding event_loop_sequence [of e es] bind_res_eq_Inr by auto
  have one: "sk_isActive m1 = sk_isActive m \<and> (g \<or> accept_fails (e # es) m)"
  proof (cases "find_index (\<lambda>s. fd_of m s = ev_fd e) (sk_sockets m)")
    case None
    with 1 show ?thesis by simp
  next
    case (Some k)
    with 1 have "handle_socket e k m = Inr (g, m1)" by (auto simp: bind_res_eq_Inr split: if_splits)
    from handler_goes_on [OF this] Some show ?thesis
      unfolding accept_fails_def by (auto intro!: exI [of _ "[]"])
  qed
  show ?case
  proof (cases g)
    case False
    with 2 one show ?thesis by simp
  next
    case True
    then have "event_loop [e] m = Inr (True, m1)" using 1 by simp
    with Cons.IH [of m1] 2 one accept_fails_later [of es m1 e m] True show ?thesis by auto
  qed
qed simp

text \<open>The answer of \<open>epoll_wait\<close> that ends the loop.\<close>

definition ends :: "wait_result \<Rightarrow> manager \<Rightarrow> bool" where
  "ends answer m \<longleftrightarrow> (case answer of Wait_error x \<Rightarrow> x \<noteq> EAGAIN \<and> x \<noteq> EINTR | Ready es \<Rightarrow> accept_fails es m)"

lemma turn_goes_on:
  assumes "sk_isActive m" and "SocketManager_ProcessSockets env answer m = Inr (go_on, m')"
  shows "sk_isActive m' \<and> (go_on \<or> ends answer m)"
proof (cases "\<exists>es. answer = Ready es \<and> es \<noteq> []")
  case True
  with assms event_loop_goes_on show ?thesis by (fastforce simp: SocketManager_ProcessSockets_def ends_def)
next
  case False
  have p: "sk_isActive m1" if "prune_loop (id_freed env) (id_prune_now env) 0 m = Some m1" for m1
    using active_prune_loop [OF that] assms(1) by simp
  from False assms show ?thesis
    by (cases answer)
       (auto simp: SocketManager_ProcessSockets_def SocketManager_PruneExcessConnections_def bind_res_eq_Inr ends_def
          loop_res_def Let_def dest!: p split: option.splits if_splits prod.splits)
qed

lemma main_loop_ends:
  assumes "main_loop answers n m = Some (Inr (r, m'))" and "sk_isActive m"
  shows "r = 0 \<and> (\<exists>j m1. n \<le> j \<and> ends (snd (answers j)) m1 \<and>
    SocketManager_ProcessSockets (fst (answers j)) (snd (answers j)) m1 = Inr (False, m'))"
proof -
  have "\<forall>r m'. x = Inr (r, m') \<longrightarrow> sk_isActive m \<longrightarrow> r = 0 \<and> (\<exists>j m1. n \<le> j \<and> ends (snd (answers j)) m1 \<and>
      SocketManager_ProcessSockets (fst (answers j)) (snd (answers j)) m1 = Inr (False, m'))"
    if "main_loop answers n m = Some x" for x
  proof (rule main_loop.raw_induct [OF _ that, of "\<lambda>answers n m x. \<forall>r m'. x = Inr (r, m') \<longrightarrow> sk_isActive m \<longrightarrow> r = 0 \<and>
      (\<exists>j m1. n \<le> j \<and> ends (snd (answers j)) m1 \<and>
        SocketManager_ProcessSockets (fst (answers j)) (snd (answers j)) m1 = Inr (False, m'))"], intro allI impI)
    fix loop answers n m x r m'
    assume ih: "\<And>answers n m x. loop answers n m = Some x \<Longrightarrow> \<forall>r m'. x = Inr (r, m') \<longrightarrow> sk_isActive m \<longrightarrow> r = 0 \<and>
        (\<exists>j m1. n \<le> j \<and> ends (snd (answers j)) m1 \<and>
          SocketManager_ProcessSockets (fst (answers j)) (snd (answers j)) m1 = Inr (False, m'))"
      and l: "(case SocketManager_ProcessSockets (fst (answers n)) (snd (answers n)) m of
        Inl e \<Rightarrow> Some (Inl e)
      | Inr (go_on, m') \<Rightarrow> if go_on then loop answers (Suc n) m' else Some (Inr (0, m'))) = Some x"
      and x: "x = Inr (r, m')" and a: "sk_isActive m"
    obtain g m1 where t: "SocketManager_ProcessSockets (fst (answers n)) (snd (answers n)) m = Inr (g, m1)"
      using l x by (auto split: sum.splits)
    note go = turn_goes_on [OF a t]
    show "r = 0 \<and> (\<exists>j m1. n \<le> j \<and> ends (snd (answers j)) m1 \<and>
        SocketManager_ProcessSockets (fst (answers j)) (snd (answers j)) m1 = Inr (False, m'))"
    proof (cases g)
      case True
      with l t have "loop answers (Suc n) m1 = Some x" by simp
      from ih [OF this, rule_format, OF x] go have "r = 0 \<and> (\<exists>j m1. Suc n \<le> j \<and> ends (snd (answers j)) m1 \<and>
          SocketManager_ProcessSockets (fst (answers j)) (snd (answers j)) m1 = Inr (False, m'))" by blast
      then show ?thesis by (blast dest: Suc_leD)
    next
      case False
      with l t x go show ?thesis by auto
    qed
  qed
  with assms show ?thesis by blast
qed

text \<open>
  C14: The end of the proxy. The main loop of a proxy that has started ends only with the value 0,
  after a turn in which \<open>epoll_wait\<close> failed with something other than \<open>EAGAIN\<close> and \<open>EINTR\<close>, or in which
  \<open>accept\<close> failed; no other error of a client or a server ends it.
\<close>

theorem main_ends_only_on_failure:
  assumes "main_start env junk fs st0 = Inr (Running m0)" and "main_loop answers 0 m0 = Some (Inr (r, m'))"
  shows "r = 0 \<and> (\<exists>n m. ends (snd (answers n)) m \<and>
    SocketManager_ProcessSockets (fst (answers n)) (snd (answers n)) m = Inr (False, m'))"
proof -
  have "sk_isActive m0"
    using assms(1)
    by (auto simp: main_start_def Let_def bind_res_eq_Inr SocketManager_Initialize_def SocketManager_new_def
        split: if_splits option.splits prod.splits)
  from main_loop_ends [OF assms(2) this] show ?thesis by blast
qed

text \<open>A proxy whose second wait for events fails, after one that was interrupted.\<close>

theorem main_ends_only_on_failure_witness:
  "\<exists>m0 r m'. main_start open_start (\<lambda>_. ([], [])) open_fs (settings_init []) = Inr (Running m0) \<and>
    main_loop (\<lambda>n. (example_idle, if n = 0 then Wait_error EINTR else Wait_error (Other_errno 9))) 0 m0 = Some (Inr (r, m')) \<and> r = 0"
proof -
  from open_starts obtain m0 where m: "main_start open_start (\<lambda>_. ([], [])) open_fs (settings_init []) = Inr (Running m0)"
    "sk_isActive m0" by blast
  let ?a = "\<lambda>n::nat. (example_idle, if n = 0 then Wait_error EINTR else Wait_error (Other_errno 9))"
  have "main_loop ?a (Suc 0) m0 = Some (Inr (0, m0))"
    using m(2) by (subst main_loop.simps) (simp add: SocketManager_ProcessSockets_def)
  then have l: "main_loop ?a 0 m0 = Some (Inr (0, m0))"
    using m(2) by (subst main_loop.simps) (simp add: SocketManager_ProcessSockets_def)
  from main_ends_only_on_failure [OF m(1) l] m(1) l show ?thesis by blast
qed


end
